(* ===== verification/Prelude.thy ===== *)
theory Prelude
  imports Main "HOL-Library.Word"
begin

text \<open>
  Shared vocabulary of the development: the machine integers of the code, the outcome of a
  call (it returns, it blocks for ever unless another thread helps, or it runs into a fault
  that C++ leaves undefined or turns into an exception), and the facts on sizes that every
  component uses.

  \<^item> \<open>i64\<close> is \<open>CPPAFKQSize_t\<close> (\<open>std::int64_t\<close>): read with \<open>sint\<close> where the code compares two
    signed values.
  \<^item> \<open>u64\<close> is \<open>size_t\<close>, \<open>std::uint64_t\<close> and \<open>CPPAFKThreadpoolSize_t\<close>: compared with \<open><\<close> and
    \<open>\<le>\<close> on words. A comparison that mixes the two is unsigned, as the usual arithmetic
    conversions of C++ make it.
\<close>

type_synonym i64 = "64 word"
type_synonym u64 = "64 word"
type_synonym u16 = "16 word"

named_theorems size_facts

datatype cpp_error =
    Relock             \<comment> \<open>a thread locks a \<open>std::mutex\<close> it already holds\<close>
  | Double_free        \<comment> \<open>\<open>delete\<close> of an object that was deleted before\<close>
  | Use_after_free     \<comment> \<open>a call through a pointer to a deleted object\<close>
  | Front_of_empty     \<comment> \<open>\<open>front()\<close> or \<open>pop_front()\<close> of an empty deque\<close>
  | Bad_function_call  \<comment> \<open>call of an empty \<open>std::function\<close>\<close>
  | Div_by_zero
  | Out_of_range       \<comment> \<open>index outside a vector\<close>
  | Bad_shift          \<comment> \<open>shift of an \<open>int\<close> by a negative number or by 32 and more\<close>

datatype 'r outcome = Ret 'r | Blocked | Fault cpp_error

fun obind :: "'r outcome \<Rightarrow> ('r \<Rightarrow> 's outcome) \<Rightarrow> 's outcome" where
  "obind (Ret r) f = f r"
| "obind Blocked f = Blocked"
| "obind (Fault e) f = Fault e"

lemma obind_Ret_iff [simp]: "obind m f = Ret s \<longleftrightarrow> (\<exists>r. m = Ret r \<and> f r = Ret s)"
  by (cases m) auto

lemma obind_assoc: "obind (obind m f) g = obind m (\<lambda>r. obind (f r) g)"
  by (cases m) auto

section \<open>Sizes as machine integers\<close>

text \<open>\<open>deque::size()\<close> as the 64-bit value the code sees.\<close>

definition size_of :: "'a list \<Rightarrow> u64" where
  "size_of xs = word_of_nat (length xs)"

text \<open>\<open>std::numeric_limits<CPPAFKQSize_t>::max()\<close>.\<close>

definition i64_max :: i64 where
  "i64_max = 9223372036854775807"

text \<open>\<open>std::numeric_limits<std::uint64_t>::max()\<close>.\<close>

definition u64_max :: u64 where
  "u64_max = 18446744073709551615"

lemma unat_u64_max [simp]: "unat u64_max = 2 ^ 64 - 1"
  by (simp add: u64_max_def)

lemma size_of_Nil [simp]: "size_of [] = 0"
  by (simp add: size_of_def)

lemma size_of_Cons: "size_of (x # xs) = size_of xs + 1"
  by (simp add: size_of_def)

lemma size_of_snoc: "size_of (xs @ [x]) = size_of xs + 1"
  by (simp add: size_of_def)

lemma sint_i64_max [simp]: "sint i64_max = 2 ^ 63 - 1"
  by (simp add: i64_max_def)

lemma uint_i64_max [simp]: "uint i64_max = 2 ^ 63 - 1"
  by (simp add: i64_max_def)

lemma unat_word_of_nat64: "n < 2 ^ 64 \<Longrightarrow> unat (word_of_nat n :: 64 word) = n"
  by (simp add: unsigned_of_nat take_bit_nat_eq_self)

lemma uint_size_of: "length xs < 2 ^ 64 \<Longrightarrow> uint (size_of xs) = int (length xs)"
  by (simp add: size_of_def uint_nat unat_word_of_nat64)

lemma mod_shift:
  assumes "0 \<le> (u::int)" and "u < 2 * n"
  shows "(u + n) mod (2 * n) = (if u < n then u + n else u - n)"
proof (cases "u < n")
  case True
  with assms show ?thesis by (simp add: mod_pos_pos_trivial)
next
  case False
  have "(u + n) mod (2 * n) = (u - n + 2 * n) mod (2 * n)" by (simp add: algebra_simps)
  also have "\<dots> = (u - n) mod (2 * n)" by (rule mod_add_self2)
  finally show ?thesis using False assms(2) by (simp add: mod_pos_pos_trivial)
qed

text \<open>Two's complement: the signed reading of a word from its unsigned one.\<close>

lemma sint64_cases: "sint (w :: 64 word) = (if uint w < 2 ^ 63 then uint w else uint w - 2 ^ 64)"
proof -
  have u: "0 \<le> uint w" "uint w < 2 * 2 ^ 63" using uint_lt2p [of w] by simp_all
  show ?thesis
    using mod_shift [OF u]
    by (simp add: sint_uint signed_take_bit_eq_take_bit_shift take_bit_eq_mod)
qed

lemma sint64_range: "- (2 ^ 63) \<le> sint (w :: 64 word)" "sint (w :: 64 word) < 2 ^ 63"
  using sint_ge [of w] sint_lt [of w] by simp_all

lemma sint64_inc: "sint (w :: 64 word) < 2 ^ 63 - 1 \<Longrightarrow> sint (w + 1) = sint w + 1"
  using sint64_range [of w] by (simp add: sint_word_add signed_take_bit_int_eq_self)

lemma sint64_dec: "- (2 ^ 63) < sint (w :: 64 word) \<Longrightarrow> sint (w - 1) = sint w - 1"
  using sint64_range [of w] by (simp add: sint_word_ariths signed_take_bit_int_eq_self)

lemma uint_eq_sint [size_facts]: "0 \<le> sint (w :: 64 word) \<Longrightarrow> uint w = sint w"
  using uint_lt2p [of w] by (simp add: sint64_cases split: if_splits)

lemma sint_size_of [size_facts]:
  "length xs < 2 ^ 63 \<Longrightarrow> sint (size_of xs) = int (length xs)"
  by (simp add: sint64_cases uint_size_of)

text \<open>
  The unsigned comparisons of the code, read as comparisons of integers when the signed
  operand is not negative.
\<close>

lemma less_size_of [size_facts]:
  assumes "0 \<le> sint (m :: i64)" and "length xs < 2 ^ 63"
  shows "m < size_of xs \<longleftrightarrow> sint m < int (length xs)"
  using assms by (simp add: word_less_def uint_eq_sint uint_size_of)

lemma size_of_room [size_facts]:
  assumes "0 \<le> sint (m :: i64)" and "length xs < 2 ^ 63"
  shows "size_of xs + 1 \<le> m \<longleftrightarrow> int (length xs) < sint m"
proof -
  have "size_of xs + 1 = size_of (xs @ [undefined])" by (simp add: size_of_snoc)
  then have "uint (size_of xs + 1) = int (length xs) + 1"
    using assms(2) by (simp add: uint_size_of)
  with assms(1) show ?thesis by (auto simp: word_le_def uint_eq_sint)
qed

text \<open>
  A negative lower limit, compared without sign, is larger than every size a deque can have.
\<close>

lemma negative_not_less_size_of:
  assumes "sint (m :: i64) < 0" and "length xs < 2 ^ 63"
  shows "\<not> m < size_of xs"
  using assms uint_lt2p [of m]
  by (simp add: word_less_def uint_size_of sint64_cases split: if_splits)

section \<open>Merges of two lists\<close>

lemma shuffles_append:
  "zs \<in> shuffles xs ys \<Longrightarrow> zs' \<in> shuffles xs' ys' \<Longrightarrow> zs @ zs' \<in> shuffles (xs @ xs') (ys @ ys')"
  by (induction zs arbitrary: xs ys) (auto simp: Cons_in_shuffles_iff)

lemma shuffles_appendD:
  "zs \<in> shuffles (xs @ xs') ys \<Longrightarrow>
   \<exists>zs1 zs2 ys1 ys2. zs = zs1 @ zs2 \<and> ys = ys1 @ ys2 \<and> zs1 \<in> shuffles xs ys1"
proof (induction zs arbitrary: xs ys)
  case Nil
  then show ?case by auto
next
  case (Cons z zs)
  show ?case
  proof (cases "xs = []")
    case True
    then show ?thesis
      by (intro exI [of _ "[]"] exI [of _ "z # zs"] exI [of _ "[]"] exI [of _ ys]) simp
  next
    case False
    from Cons.prems consider (left) "hd xs = z" "zs \<in> shuffles (tl xs @ xs') ys"
      | (right) "ys \<noteq> []" "hd ys = z" "zs \<in> shuffles (xs @ xs') (tl ys)"
      using False by (auto simp: Cons_in_shuffles_iff)
    then show ?thesis
    proof cases
      case left
      from Cons.IH [OF left(2)] obtain zs1 zs2 ys1 ys2 where
        "zs = zs1 @ zs2" "ys = ys1 @ ys2" "zs1 \<in> shuffles (tl xs) ys1" by blast
      with left(1) False show ?thesis
        by (intro exI [of _ "z # zs1"] exI [of _ zs2] exI [of _ ys1] exI [of _ ys2])
          (simp add: Cons_in_shuffles_iff)
    next
      case right
      from Cons.IH [OF right(3)] obtain zs1 zs2 ys1 ys2 where
        i: "zs = zs1 @ zs2" "tl ys = ys1 @ ys2" "zs1 \<in> shuffles xs ys1" by blast
      then have "z # zs1 \<in> shuffles xs (z # ys1)" by (simp add: Cons_in_shuffles_iff)
      moreover have "ys = (z # ys1) @ ys2" using i(2) right(1,2) by (cases ys) simp_all
      ultimately show ?thesis using i(1) by (intro exI [of _ "z # zs1"] exI [of _ zs2] exI [of _ "z # ys1"] exI [of _ ys2]) simp
    qed
  qed
qed

end
