(* ===== verification/Contracts.thy ===== *)
theory Contracts
  imports Prelude
begin

text \<open>
  The contract between the queues of the library and the code that empties them: the garbage
  collector's three loops (\<open>CPPAFKGarbageCollector::dispose\<close> and \<open>disposeAll\<close>) and the flush
  loops of \<open>CPPAFKComposingSession::_flush\<close> all pull from some queue until a pull fails. The
  loops are defined here over an arbitrary \<open>pull\<close>; the locale \<open>drainable\<close> states what they
  need of it, \<open>fifo\<close> adds insertion at the tail. Each queue of the library interprets them.
\<close>

section \<open>The pull loops\<close>

text \<open>
  \<open>for (t = 0; t < n; ++t) { x = q.pull(success); if (success) use x; else break; }\<close>:
  the items used, in order, and the queue left behind.
\<close>

fun pull_upto :: "('q \<Rightarrow> ('a option \<times> 'q) outcome) \<Rightarrow> nat \<Rightarrow> 'q \<Rightarrow> ('a list \<times> 'q) outcome" where
  "pull_upto deq 0 q = Ret ([], q)"
| "pull_upto deq (Suc n) q =
     obind (deq q) (\<lambda>(r, q').
       case r of
         None \<Rightarrow> Ret ([], q')
       | Some x \<Rightarrow> obind (pull_upto deq n q') (\<lambda>(xs, q''). Ret (x # xs, q'')))"

text \<open>
  \<open>while (1) { x = q.pull(success); if (success) use x; else break; }\<close>: the value \<open>None\<close>
  says that the loop does not come back (it runs for ever, or a pull blocks or faults).
\<close>

partial_function (option) pull_all ::
  "('q \<Rightarrow> ('a option \<times> 'q) outcome) \<Rightarrow> 'a list \<Rightarrow> 'q \<Rightarrow> ('a list \<times> 'q) option" where
  "pull_all deq acc q =
     (case deq q of
        Ret (Some x, q') \<Rightarrow> pull_all deq (acc @ [x]) q'
      | Ret (None, q') \<Rightarrow> Some (acc, q')
      | Blocked \<Rightarrow> None
      | Fault e \<Rightarrow> None)"

section \<open>What the loops rely on\<close>

locale drainable =
  fixes deq :: "'q \<Rightarrow> ('a option \<times> 'q) outcome"
    and contents :: "'q \<Rightarrow> 'a list"
    and inv :: "'q \<Rightarrow> bool"
  assumes deq_empty:
      "inv q \<Longrightarrow> contents q = [] \<Longrightarrow> \<exists>q'. deq q = Ret (None, q') \<and> inv q' \<and> contents q' = []"
    and deq_cons:
      "inv q \<Longrightarrow> contents q = x # xs \<Longrightarrow>
       \<exists>q'. deq q = Ret (Some x, q') \<and> inv q' \<and> contents q' = xs"
begin

lemma pull_upto_takes:
  "inv q \<Longrightarrow> \<exists>q'. pull_upto deq n q = Ret (take n (contents q), q') \<and> inv q' \<and>
     contents q' = drop n (contents q)"
proof (induction n arbitrary: q)
  case 0
  then show ?case by simp
next
  case (Suc n)
  show ?case
  proof (cases "contents q")
    case Nil
    with deq_empty Suc.prems show ?thesis by fastforce
  next
    case (Cons x xs)
    with deq_cons Suc.prems obtain q' where q': "deq q = Ret (Some x, q')" "inv q'" "contents q' = xs"
      by blast
    with Suc.IH [of q'] Cons show ?thesis by auto
  qed
qed

lemma pull_all_empties:
  "inv q \<Longrightarrow> \<exists>q'. pull_all deq acc q = Some (acc @ contents q, q') \<and> inv q' \<and> contents q' = []"
proof (induction "contents q" arbitrary: acc q)
  case Nil
  with deq_empty obtain q' where "deq q = Ret (None, q')" "inv q'" "contents q' = []"
    by metis
  with Nil show ?case by (subst pull_all.simps) (simp flip: Nil(1))
next
  case (Cons x xs)
  with deq_cons obtain q' where q': "deq q = Ret (Some x, q')" "inv q'" "contents q' = xs"
    by metis
  with Cons.hyps(1) [of q' "acc @ [x]"] obtain q'' where
    "pull_all deq (acc @ [x]) q' = Some ((acc @ [x]) @ contents q', q'')" "inv q''" "contents q'' = []"
    by auto
  with q' Cons.hyps(2) show ?case by (subst pull_all.simps) (simp flip: Cons.hyps(2))
qed

lemma pull_upto_all:
  "inv q \<Longrightarrow> length (contents q) \<le> n \<Longrightarrow>
   \<exists>q'. pull_upto deq n q = Ret (contents q, q') \<and> inv q' \<and> contents q' = []"
  using pull_upto_takes [of q n] by simp

end

locale fifo = drainable +
  fixes enq :: "'a \<Rightarrow> 'q \<Rightarrow> 'q"
    and room :: "nat \<Rightarrow> 'q \<Rightarrow> bool"
  assumes enq_contents: "inv q \<Longrightarrow> room (Suc n) q \<Longrightarrow> contents (enq x q) = contents q @ [x]"
    and enq_inv: "inv q \<Longrightarrow> room (Suc n) q \<Longrightarrow> inv (enq x q)"
    and enq_room: "inv q \<Longrightarrow> room (Suc n) q \<Longrightarrow> room n (enq x q)"
begin

lemma enq_all:
  "inv q \<Longrightarrow> room (length xs) q \<Longrightarrow>
   contents (fold enq xs q) = contents q @ xs \<and> inv (fold enq xs q)"
proof (induction xs arbitrary: q)
  case Nil
  then show ?case by simp
next
  case (Cons x xs)
  then show ?case by (simp add: enq_contents enq_inv enq_room)
qed

lemma enq_all_room:
  "inv q \<Longrightarrow> room (length xs + n) q \<Longrightarrow> room n (fold enq xs q)"
proof (induction xs arbitrary: q)
  case Nil
  then show ?case by simp
next
  case (Cons x xs)
  then show ?case by (simp add: enq_inv enq_room)
qed

text \<open>First in, first out: what was inserted comes back, in order, after what was there.\<close>

lemma enq_then_drain:
  assumes "inv q" and "room (length xs) q"
  shows "\<exists>q'. pull_all deq [] (fold enq xs q) = Some (contents q @ xs, q') \<and> contents q' = []"
  using pull_all_empties [of "fold enq xs q" "[]"] enq_all [OF assms] by auto

end

text \<open>
  A queue of pointers whose \<open>pull\<close> reports success by a non-null result: a null pointer in the
  queue ends the pull loops early. Without null pointers such a queue is drainable.
\<close>

locale pointer_queue =
  fixes pull :: "'q \<Rightarrow> ('p option \<times> 'q) outcome"
    and data :: "'q \<Rightarrow> 'p option list"
    and ok :: "'q \<Rightarrow> bool"
  assumes pull_nil: "ok q \<Longrightarrow> data q = [] \<Longrightarrow> \<exists>q'. pull q = Ret (None, q') \<and> ok q' \<and> data q' = []"
    and pull_cons: "ok q \<Longrightarrow> data q = x # xs \<Longrightarrow> \<exists>q'. pull q = Ret (x, q') \<and> ok q' \<and> data q' = xs"
begin

lemma pull_all_stops_at_null:
  "ok q \<Longrightarrow> \<exists>q'. pull_all pull acc q = Some (acc @ map the (takeWhile (\<lambda>p. p \<noteq> None) (data q)), q') \<and>
     ok q' \<and> data q' = tl (dropWhile (\<lambda>p. p \<noteq> None) (data q))"
proof (induction "data q" arbitrary: acc q)
  case Nil
  then obtain q' where "pull q = Ret (None, q')" "ok q'" "data q' = []"
    using pull_nil [of q] by auto
  with Nil show ?case by (subst pull_all.simps) (simp flip: Nil(1))
next
  case (Cons x xs)
  then obtain q' where q': "pull q = Ret (x, q')" "ok q'" "data q' = xs"
    using pull_cons [of q x xs] by auto
  show ?case
  proof (cases x)
    case None
    with q' Cons.hyps(2) show ?thesis by (subst pull_all.simps) (simp flip: Cons.hyps(2))
  next
    case (Some p)
    with Cons.hyps(1) [of q' "acc @ [p]"] q' Cons.hyps(2) show ?thesis
      by (subst pull_all.simps) (auto simp flip: Cons.hyps(2))
  qed
qed

end

sublocale pointer_queue \<subseteq> nonnull: drainable pull "\<lambda>q. map the (data q)"
  "\<lambda>q. ok q \<and> (\<forall>p \<in> set (data q). p \<noteq> None)"
proof (unfold_locales, goal_cases)
  case (1 q)
  with pull_nil [of q] show ?case by auto
next
  case (2 q x xs)
  then obtain p ps where "data q = p # ps" by (cases "data q") auto
  with 2 pull_cons [of q p ps] show ?case by auto
qed

text \<open>
  What remains when nothing is known of the data: a pull always comes back, keeps the queue in
  order, and makes it smaller when it hands something out. That is enough for the loops to end.
\<close>

locale settling =
  fixes pull :: "'q \<Rightarrow> ('a option \<times> 'q) outcome"
    and weight :: "'q \<Rightarrow> nat"
    and ok :: "'q \<Rightarrow> bool"
  assumes pull_comes_back:
    "ok q \<Longrightarrow> \<exists>r q'. pull q = Ret (r, q') \<and> ok q' \<and> weight q' \<le> weight q \<and>
       (r \<noteq> None \<longrightarrow> weight q' < weight q)"
begin

lemma pull_upto_comes_back:
  "ok q \<Longrightarrow> \<exists>xs q'. pull_upto pull n q = Ret (xs, q') \<and> ok q' \<and> weight q' \<le> weight q"
proof (induction n arbitrary: q)
  case 0
  then show ?case by simp
next
  case (Suc n)
  from pull_comes_back [OF Suc.prems] obtain r q' where
    q': "pull q = Ret (r, q')" "ok q'" "weight q' \<le> weight q" by blast
  with Suc.IH [OF q'(2)] show ?case by (cases r) fastforce+
qed

lemma pull_all_comes_back:
  "ok q \<Longrightarrow> \<exists>xs q'. pull_all pull acc q = Some (xs, q') \<and> ok q' \<and> weight q' \<le> weight q"
proof (induction "weight q" arbitrary: q acc rule: less_induct)
  case less
  from pull_comes_back [OF less.prems] obtain r q' where
    q': "pull q = Ret (r, q')" "ok q'" "weight q' \<le> weight q" "r \<noteq> None \<longrightarrow> weight q' < weight q"
    by blast
  show ?case
  proof (cases r)
    case None
    with q' show ?thesis by (subst pull_all.simps) simp
  next
    case (Some x)
    with q' less.hyps [of q' "acc @ [x]"] obtain xs q'' where
      "pull_all pull (acc @ [x]) q' = Some (xs, q'')" "ok q''" "weight q'' \<le> weight q'" by auto
    with q' Some show ?thesis by (subst pull_all.simps) simp
  qed
qed

end

sublocale drainable \<subseteq> ends: settling deq "\<lambda>q. length (contents q)" inv
proof (unfold_locales, goal_cases)
  case (1 q)
  then show ?case
  proof (cases "contents q")
    case Nil
    with deq_empty [OF 1] show ?thesis by auto
  next
    case (Cons x xs)
    with deq_cons [OF 1] show ?thesis by auto
  qed
qed

section \<open>Hot replacement of handlers\<close>

text \<open>
  A session keeps each kind of handler twice: a writer stores into one slot and raises a flag,
  the worker swaps the two slots before its next use if the flag is up. The contract speaks of
  the handler in use (\<open>current\<close>) and the one that waits (\<open>pending\<close>); \<open>embed\<close> relates what is
  stored to what the slot holds.
\<close>

locale hot_slot =
  fixes put :: "'h \<Rightarrow> 's \<Rightarrow> 's"
    and switch :: "'s \<Rightarrow> u64 \<times> 's"
    and slot :: "'s \<Rightarrow> u64 \<Rightarrow> 'v"
    and embed :: "'h \<Rightarrow> 'v"
    and current :: "'s \<Rightarrow> 'v"
    and pending :: "'s \<Rightarrow> 'v option"
    and ok :: "'s \<Rightarrow> bool"
  assumes put_ok: "ok s \<Longrightarrow> ok (put h s)"
    and put_pending: "ok s \<Longrightarrow> pending (put h s) = Some (embed h)"
    and put_current: "ok s \<Longrightarrow> current (put h s) = current s"
    and switch_ok: "ok s \<Longrightarrow> ok (snd (switch s))"
    and switch_pending: "ok s \<Longrightarrow> pending (snd (switch s)) = None"
    and switch_current:
      "ok s \<Longrightarrow> current (snd (switch s)) = (case pending s of None \<Rightarrow> current s | Some v \<Rightarrow> v)"
    and switch_slot: "ok s \<Longrightarrow> slot (snd (switch s)) (fst (switch s)) = current (snd (switch s))"
begin

lemma puts_keep_current: "ok s \<Longrightarrow> current (fold put hs s) = current s \<and> ok (fold put hs s)"
proof (induction hs arbitrary: s)
  case Nil
  then show ?case by simp
next
  case (Cons h hs)
  then show ?case by (simp add: put_ok put_current)
qed

text \<open>The last handler stored before a swap is the one the swap makes current.\<close>

lemma last_put_wins:
  assumes "ok s" and "hs \<noteq> []"
  shows "slot (snd (switch (fold put hs s))) (fst (switch (fold put hs s))) = embed (last hs)"
proof -
  obtain gs h where hs: "hs = gs @ [h]" using assms(2) by (cases hs rule: rev_cases) auto
  have "ok (fold put gs s)" using puts_keep_current [OF assms(1)] by simp
  then show ?thesis by (simp add: hs put_ok put_pending switch_slot switch_current)
qed

lemma switch_twice:
  "ok s \<Longrightarrow> current (snd (switch (snd (switch s)))) = current (snd (switch s))"
  by (simp add: switch_ok switch_pending switch_current)

end

end
