(* ===== verification/Queue.thy ===== *)
theory Queue
  imports Contracts
begin

text \<open>
  \<open>CPPAFKQueue<T>\<close> (CPPAFKQueue.hpp): the bounded FIFO queue every other queue of the library
  derives from. The record holds the members that carry data; the mutexes and condition
  variables are not part of it, because every operation here is one critical section. The
  operations work on any extension of the record, as they are inherited in the code.
\<close>

section \<open>State and construction\<close>

record 'a queue =
  q_condPredR :: bool
  q_condPredW :: bool
  q_blockingR :: bool
  q_blockingW :: bool
  q_paused :: bool
  maxQSize :: i64
  minQSize :: i64
  itsQ :: "'a list"

text \<open>\<open>_releaseAll\<close>: wakes the waiting readers and writers.\<close>

definition queue_releaseAll :: "('a, 'z) queue_scheme \<Rightarrow> ('a, 'z) queue_scheme" where
  "queue_releaseAll q =
     (let q1 = (if q_blockingR q then q\<lparr>q_condPredR := True\<rparr> else q);
          q2 = (if q_blockingW q1 then q1\<lparr>q_condPredW := True\<rparr> else q1)
      in q2\<lparr>q_condPredW := False\<rparr>)"

definition queue_init :: "('a, 'z) queue_scheme \<Rightarrow> ('a, 'z) queue_scheme" where
  "queue_init q = q\<lparr>minQSize := 0, maxQSize := i64_max, q_paused := False,
     q_blockingR := False, q_blockingW := False, q_condPredR := False, q_condPredW := False\<rparr>"

definition queue_reset :: "('a, 'z) queue_scheme \<Rightarrow> ('a, 'z) queue_scheme" where
  "queue_reset q = queue_init (queue_releaseAll (q\<lparr>itsQ := []\<rparr>))"

text \<open>The constructors: \<open>_init()\<close>, then the blocking flag of the argument, if there is one.\<close>

definition new_queue :: "'a queue" where
  "new_queue = queue_init \<lparr>q_condPredR = False, q_condPredW = False, q_blockingR = False,
     q_blockingW = False, q_paused = False, maxQSize = 0, minQSize = 0, itsQ = []\<rparr>"

definition new_queue_blk :: "bool \<Rightarrow> 'a queue" where
  "new_queue_blk blkR = new_queue\<lparr>q_blockingR := blkR\<rparr>"

section \<open>Operations\<close>

definition queue_setMaxQSize :: "i64 \<Rightarrow> ('a, 'z) queue_scheme \<Rightarrow> bool \<times> ('a, 'z) queue_scheme" where
  "queue_setMaxQSize sz q =
     (if sint sz < sint (minQSize q) then (False, q) else (True, q\<lparr>maxQSize := sz\<rparr>))"

definition queue_setMinQSize :: "i64 \<Rightarrow> ('a, 'z) queue_scheme \<Rightarrow> bool \<times> ('a, 'z) queue_scheme" where
  "queue_setMinQSize sz q =
     (if sint sz > sint (maxQSize q) then (False, q) else (True, q\<lparr>minQSize := sz\<rparr>))"

text \<open>
  \<open>castObject\<close>: \<open>itsQ.size() + 1 <= maxQSize\<close> compares an unsigned with a signed value, so it
  is an unsigned comparison.
\<close>

definition queue_castObject :: "'a \<Rightarrow> ('a, 'z) queue_scheme \<Rightarrow> bool \<times> ('a, 'z) queue_scheme" where
  "queue_castObject item q =
     (if size_of (itsQ q) + 1 \<le> maxQSize q
      then (let q1 = q\<lparr>q_blockingW := False, itsQ := itsQ q @ [item]\<rparr>
            in (True, if q_blockingR q1 then q1\<lparr>q_condPredR := True\<rparr> else q1))
      else (False, q))"

text \<open>The operations that this version of the library refuses.\<close>

definition queue_unavailable :: "('a, 'z) queue_scheme \<Rightarrow> bool \<times> ('a, 'z) queue_scheme" where
  "queue_unavailable q = (False, q)"

definition queue_queueFromQueue ::
  "('a, 'z) queue_scheme \<Rightarrow> ('a, 'z) queue_scheme \<Rightarrow> bool \<times> ('a, 'z) queue_scheme" where
  "queue_queueFromQueue otherq q = queue_unavailable q"

definition queue_castVector :: "'a list \<Rightarrow> ('a, 'z) queue_scheme \<Rightarrow> bool \<times> ('a, 'z) queue_scheme" where
  "queue_castVector items q = queue_unavailable q"

definition queue_callObject :: "'a \<Rightarrow> ('a, 'z) queue_scheme \<Rightarrow> bool \<times> ('a, 'z) queue_scheme" where
  "queue_callObject item q = queue_unavailable q"

definition queue_prependQueue ::
  "('a, 'z) queue_scheme \<Rightarrow> ('a, 'z) queue_scheme \<Rightarrow> bool \<times> ('a, 'z) queue_scheme" where
  "queue_prependQueue otherq q = queue_unavailable q"

definition queue_prepend :: "'a \<Rightarrow> ('a, 'z) queue_scheme \<Rightarrow> bool \<times> ('a, 'z) queue_scheme" where
  "queue_prepend obj q = queue_unavailable q"

definition queue_castQueue ::
  "('a, 'z) queue_scheme \<Rightarrow> ('a, 'z) queue_scheme \<Rightarrow> bool \<times> ('a, 'z) queue_scheme" where
  "queue_castQueue otherq q = queue_unavailable q"

definition queue_isBlockingRead :: "('a, 'z) queue_scheme \<Rightarrow> bool" where
  "queue_isBlockingRead q = q_blockingR q"

definition queue_isBlockingWrite :: "('a, 'z) queue_scheme \<Rightarrow> bool" where
  "queue_isBlockingWrite q = q_blockingW q"

text \<open>
  \<open>pull\<close>. The predicate a blocked reader waits for compares the size without sign; the test
  that decides whether to wait compares two signed values. \<open>queue_pull_take\<close> is the part after
  the wait. A size above the limit is not zero, so the \<open>front()\<close> is that of a non-empty deque.
\<close>

definition queue_wait_pred :: "('a, 'z) queue_scheme \<Rightarrow> bool" where
  "queue_wait_pred q \<longleftrightarrow> minQSize q < size_of (itsQ q)"

definition queue_pull_take ::
  "('a, 'z) queue_scheme \<Rightarrow> 'a option \<times> ('a, 'z) queue_scheme" where
  "queue_pull_take q =
     (if minQSize q < size_of (itsQ q)
      then (case itsQ q of
              [] \<Rightarrow> (None, q)
            | item # rest \<Rightarrow>
                (Some item,
                 if q_blockingW q then q\<lparr>itsQ := rest, q_condPredW := True\<rparr>
                 else q\<lparr>itsQ := rest\<rparr>))
      else (None, q))"

definition queue_pull ::
  "('a, 'z) queue_scheme \<Rightarrow> ('a option \<times> ('a, 'z) queue_scheme) outcome" where
  "queue_pull q =
     (if q_paused q then Ret (None, q)
      else if q_blockingR q
        then if sint (size_of (itsQ q)) \<le> sint (minQSize q)
             then if queue_wait_pred q then Ret (queue_pull_take (q\<lparr>q_condPredR := True\<rparr>))
                  else Blocked
             else Ret (queue_pull_take (q\<lparr>q_condPredR := True\<rparr>))
        else Ret (queue_pull_take q))"

definition queue_size :: "('a, 'z) queue_scheme \<Rightarrow> i64" where
  "queue_size q = size_of (itsQ q)"

definition queue_isEmpty :: "('a, 'z) queue_scheme \<Rightarrow> bool" where
  "queue_isEmpty q \<longleftrightarrow> itsQ q = []"

definition queue_pause :: "('a, 'z) queue_scheme \<Rightarrow> ('a, 'z) queue_scheme" where
  "queue_pause q = q\<lparr>q_paused := True\<rparr>"

definition queue_resume :: "('a, 'z) queue_scheme \<Rightarrow> ('a, 'z) queue_scheme" where
  "queue_resume q = q\<lparr>q_paused := False\<rparr>"

definition queue_purge :: "('a, 'z) queue_scheme \<Rightarrow> ('a, 'z) queue_scheme" where
  "queue_purge q = queue_releaseAll q"

section \<open>Facts every user of a queue needs\<close>

definition queue_inv :: "('a, 'z) queue_scheme \<Rightarrow> bool" where
  "queue_inv q \<longleftrightarrow> 0 \<le> sint (minQSize q) \<and> sint (minQSize q) \<le> sint (maxQSize q) \<and>
     length (itsQ q) < 2 ^ 63"

lemma new_queue_fields [simp]:
  "itsQ new_queue = []" "minQSize new_queue = 0" "maxQSize new_queue = i64_max"
  "q_paused new_queue = False" "q_blockingR new_queue = False" "q_blockingW new_queue = False"
  "q_condPredR new_queue = False" "q_condPredW new_queue = False"
  by (simp_all add: new_queue_def queue_init_def)

lemma queue_castObject_accepts:
  assumes "queue_inv q"
  shows "fst (queue_castObject x q) \<longleftrightarrow> int (length (itsQ q)) < sint (maxQSize q)"
  using assms by (auto simp: queue_castObject_def queue_inv_def size_of_room Let_def)

lemma queue_castObject_fields [simp]:
  "minQSize (snd (queue_castObject x q)) = minQSize q"
  "maxQSize (snd (queue_castObject x q)) = maxQSize q"
  "q_paused (snd (queue_castObject x q)) = q_paused q"
  "q_blockingR (snd (queue_castObject x q)) = q_blockingR q"
  "itsQ (snd (queue_castObject x q)) = (if fst (queue_castObject x q) then itsQ q @ [x] else itsQ q)"
  by (simp_all add: queue_castObject_def Let_def)

lemma queue_castObject_inv:
  assumes "queue_inv q"
  shows "queue_inv (snd (queue_castObject x q))"
proof (cases "fst (queue_castObject x q)")
  case True
  with queue_castObject_accepts [OF assms, of x] have "int (length (itsQ q)) < sint (maxQSize q)"
    by simp
  with sint64_range(2) [of "maxQSize q"] have "length (itsQ q) + 1 < 2 ^ 63" by simp
  with True assms show ?thesis by (simp add: queue_inv_def)
next
  case False
  with assms show ?thesis by (simp add: queue_inv_def)
qed

lemma queue_pull_take_eq:
  assumes "queue_inv q"
  shows "fst (queue_pull_take q) =
           (if sint (minQSize q) < int (length (itsQ q)) then Some (hd (itsQ q)) else None)"
    and "itsQ (snd (queue_pull_take q)) =
           (if sint (minQSize q) < int (length (itsQ q)) then tl (itsQ q) else itsQ q)"
  using assms
  by (auto simp: queue_pull_take_def queue_inv_def less_size_of split: list.splits)

lemma queue_pull_take_fields [simp]:
  "minQSize (snd (queue_pull_take q)) = minQSize q"
  "maxQSize (snd (queue_pull_take q)) = maxQSize q"
  "q_paused (snd (queue_pull_take q)) = q_paused q"
  "q_blockingR (snd (queue_pull_take q)) = q_blockingR q"
  by (auto simp: queue_pull_take_def split: list.splits)

lemma queue_pull_take_inv: "queue_inv q \<Longrightarrow> queue_inv (snd (queue_pull_take q))"
  by (auto simp: queue_inv_def queue_pull_take_eq(2))

lemma queue_pull_nonblocking:
  "\<not> q_blockingR q \<Longrightarrow>
   queue_pull q = Ret (if q_paused q then (None, q) else queue_pull_take q)"
  by (simp add: queue_pull_def)

lemma queue_size_inv: "queue_inv q \<Longrightarrow> sint (queue_size q) = int (length (itsQ q))"
  by (simp add: queue_size_def queue_inv_def sint_size_of)

section \<open>The queues in their default configuration drain in order\<close>

text \<open>
  The queues of the garbage collector are never configured: no limits, not blocking, never
  paused. In that state they satisfy the contract of the pull loops.
\<close>

definition queue_open :: "('a, 'z) queue_scheme \<Rightarrow> bool" where
  "queue_open q \<longleftrightarrow> \<not> q_paused q \<and> \<not> q_blockingR q \<and> minQSize q = 0 \<and> maxQSize q = i64_max \<and>
     length (itsQ q) < 2 ^ 63"

definition queue_room :: "nat \<Rightarrow> ('a, 'z) queue_scheme \<Rightarrow> bool" where
  "queue_room n q \<longleftrightarrow> length (itsQ q) + n < 2 ^ 63"

lemma queue_open_inv: "queue_open q \<Longrightarrow> queue_inv q"
  by (simp add: queue_open_def queue_inv_def)

lemma queue_open_new [simp]: "queue_open new_queue"
  by (simp add: queue_open_def)

lemma queue_open_pull:
  "queue_open q \<Longrightarrow> queue_pull q = Ret (queue_pull_take q)"
  by (simp add: queue_open_def queue_pull_nonblocking)

lemma queue_open_cast:
  assumes "queue_open q" and "queue_room 1 q"
  shows "fst (queue_castObject x q)" and "queue_open (snd (queue_castObject x q))"
proof -
  show acc: "fst (queue_castObject x q)"
    using assms queue_castObject_accepts [OF queue_open_inv, of q x]
    by (simp add: queue_open_def queue_room_def)
  show "queue_open (snd (queue_castObject x q))"
    using assms acc by (simp add: queue_open_def queue_room_def)
qed

interpretation gcq: fifo queue_pull itsQ queue_open "\<lambda>x q. snd (queue_castObject x q)" queue_room
proof (unfold_locales, goal_cases)
  case (1 q)
  then show ?case
    using queue_pull_take_eq [OF queue_open_inv, of q]
    by (intro exI [of _ "snd (queue_pull_take q)"])
      (simp add: queue_open_pull prod_eq_iff queue_open_def)
next
  case (2 q x xs)
  then show ?case
    using queue_pull_take_eq [OF queue_open_inv, of q]
    by (intro exI [of _ "snd (queue_pull_take q)"])
      (simp add: queue_open_pull prod_eq_iff queue_open_def)
next
  case (3 q n x)
  then have "queue_room 1 q" by (simp add: queue_room_def)
  with 3 queue_open_cast(1) [of q x] show ?case by simp
next
  case (4 q n x)
  then have "queue_room 1 q" by (simp add: queue_room_def)
  with 4 queue_open_cast(2) [of q x] show ?case by simp
next
  case (5 q n x)
  then have "queue_room 1 q" by (simp add: queue_room_def)
  with 5 queue_open_cast(1) [of q x] show ?case by (simp add: queue_room_def)
qed

end
