(* ===== verification/Queue_Correct.thy ===== *)
theory Queue_Correct
  imports Queue
begin

text \<open>
  What \<open>CPPAFKQueue\<close> promises: an abstract bounded FIFO over unbounded integers, the
  refinement of every sequence of operations to it, the exact behaviour of a blocking read, and
  the two places where the queue does not do what its documentation says (a negative lower
  limit, and \<open>purge\<close>).
\<close>

section \<open>The abstract bounded FIFO\<close>

record 'a bounded_fifo =
  bf_items :: "'a list"
  bf_lo :: int
  bf_hi :: int
  bf_stopped :: bool

datatype 'a queue_op = SetMax i64 | SetMin i64 | Cast 'a | Pull | Pause | Resume | Reset

datatype 'a queue_result = Done | Accepted bool | Got "'a option"

text \<open>
  An insertion is accepted below the upper limit; a read succeeds only when more items than the
  lower limit are present, and never while the queue is paused.
\<close>

fun bf_step :: "'a queue_op \<Rightarrow> 'a bounded_fifo \<Rightarrow> 'a queue_result \<times> 'a bounded_fifo" where
  "bf_step (SetMax n) b =
     (if sint n < bf_lo b then (Accepted False, b) else (Accepted True, b\<lparr>bf_hi := sint n\<rparr>))"
| "bf_step (SetMin n) b =
     (if bf_hi b < sint n then (Accepted False, b) else (Accepted True, b\<lparr>bf_lo := sint n\<rparr>))"
| "bf_step (Cast x) b =
     (if int (length (bf_items b)) < bf_hi b
      then (Accepted True, b\<lparr>bf_items := bf_items b @ [x]\<rparr>) else (Accepted False, b))"
| "bf_step Pull b =
     (if bf_stopped b \<or> int (length (bf_items b)) \<le> bf_lo b then (Got None, b)
      else (Got (Some (hd (bf_items b))), b\<lparr>bf_items := tl (bf_items b)\<rparr>))"
| "bf_step Pause b = (Done, b\<lparr>bf_stopped := True\<rparr>)"
| "bf_step Resume b = (Done, b\<lparr>bf_stopped := False\<rparr>)"
| "bf_step Reset b =
     (Done, \<lparr>bf_items = [], bf_lo = 0, bf_hi = 2 ^ 63 - 1, bf_stopped = False\<rparr>)"

fun bf_run :: "'a queue_op list \<Rightarrow> 'a bounded_fifo \<Rightarrow> 'a queue_result list \<times> 'a bounded_fifo" where
  "bf_run [] b = ([], b)"
| "bf_run (op # ops) b =
     (let (r, b') = bf_step op b; (rs, b'') = bf_run ops b' in (r # rs, b''))"

section \<open>The same operations on the queue\<close>

fun queue_step :: "'a queue_op \<Rightarrow> 'a queue \<Rightarrow> ('a queue_result \<times> 'a queue) outcome" where
  "queue_step (SetMax n) q = Ret (map_prod Accepted id (queue_setMaxQSize n q))"
| "queue_step (SetMin n) q = Ret (map_prod Accepted id (queue_setMinQSize n q))"
| "queue_step (Cast x) q = Ret (map_prod Accepted id (queue_castObject x q))"
| "queue_step Pull q = obind (queue_pull q) (\<lambda>r. Ret (map_prod Got id r))"
| "queue_step Pause q = Ret (Done, queue_pause q)"
| "queue_step Resume q = Ret (Done, queue_resume q)"
| "queue_step Reset q = Ret (Done, queue_reset q)"

fun queue_run :: "'a queue_op list \<Rightarrow> 'a queue \<Rightarrow> ('a queue_result list \<times> 'a queue) outcome" where
  "queue_run [] q = Ret ([], q)"
| "queue_run (op # ops) q =
     obind (queue_step op q) (\<lambda>(r, q'). obind (queue_run ops q') (\<lambda>(rs, q''). Ret (r # rs, q'')))"

definition queue_abs :: "'a queue \<Rightarrow> 'a bounded_fifo" where
  "queue_abs q = \<lparr>bf_items = itsQ q, bf_lo = sint (minQSize q), bf_hi = sint (maxQSize q),
     bf_stopped = q_paused q\<rparr>"

text \<open>A lower limit below zero is the one argument the refinement excludes.\<close>

fun queue_op_ok :: "'a queue_op \<Rightarrow> bool" where
  "queue_op_ok (SetMin n) = (0 \<le> sint n)"
| "queue_op_ok _ = True"

lemma queue_step_refines:
  assumes inv: "queue_inv q" and nb: "\<not> q_blockingR q" and ok: "queue_op_ok op"
  shows "\<exists>r q'. queue_step op q = Ret (r, q') \<and> bf_step op (queue_abs q) = (r, queue_abs q') \<and>
           queue_inv q' \<and> \<not> q_blockingR q'"
proof (cases op)
  case (SetMax n)
  with inv nb show ?thesis
    by (auto simp: queue_setMaxQSize_def queue_abs_def queue_inv_def)
next
  case (SetMin n)
  with inv nb ok show ?thesis
    by (auto simp: queue_setMinQSize_def queue_abs_def queue_inv_def)
next
  case (Cast x)
  obtain b q' where q': "queue_castObject x q = (b, q')" by (cases "queue_castObject x q")
  with queue_castObject_inv [OF inv, of x] queue_castObject_accepts [OF inv, of x]
    queue_castObject_fields [of x q]
  show ?thesis using Cast nb by (auto simp: queue_abs_def)
next
  case Pull
  obtain r q' where q': "queue_pull_take q = (r, q')" by (cases "queue_pull_take q")
  with queue_pull_take_inv [OF inv] queue_pull_take_eq [OF inv] queue_pull_take_fields [of q]
  show ?thesis using Pull nb inv by (auto simp: queue_abs_def queue_pull_nonblocking)
next
  case Pause
  with inv nb show ?thesis by (simp add: queue_pause_def queue_abs_def queue_inv_def)
next
  case Resume
  with inv nb show ?thesis by (simp add: queue_resume_def queue_abs_def queue_inv_def)
next
  case Reset
  with inv nb show ?thesis
    by (simp add: queue_reset_def queue_init_def queue_releaseAll_def queue_abs_def queue_inv_def Let_def)
qed

text \<open>
  C3: Every sequence of operations on a non-blocking queue (limits, insertions, reads, pause,
  resume, reset) behaves as the abstract bounded FIFO: the same results in the same order, the
  same contents at the end, and no call blocks or faults. Lower limits must not be negative.
\<close>

theorem queue_run_refines:
  assumes "queue_inv q" and "\<not> q_blockingR q" and "\<forall>op \<in> set ops. queue_op_ok op"
  shows "\<exists>rs q'. queue_run ops q = Ret (rs, q') \<and> bf_run ops (queue_abs q) = (rs, queue_abs q') \<and>
           queue_inv q'"
  using assms
proof (induction ops arbitrary: q)
  case Nil
  then show ?case by simp
next
  case (Cons op ops)
  from Cons.prems queue_step_refines [of q op] obtain r q1 where
    s: "queue_step op q = Ret (r, q1)" "bf_step op (queue_abs q) = (r, queue_abs q1)"
      "queue_inv q1" "\<not> q_blockingR q1" by auto
  with Cons.IH [of q1] Cons.prems(3) obtain rs q2 where
    "queue_run ops q1 = Ret (rs, q2)" "bf_run ops (queue_abs q1) = (rs, queue_abs q2)" "queue_inv q2"
    by auto
  with s show ?case by (auto simp: Let_def)
qed

theorem queue_run_refines_witness:
  "\<exists>rs q'. queue_run [SetMax 2, SetMin 1, Cast (7::nat), Cast 8, Cast 9, Pull, Pull] new_queue =
       Ret (rs, q') \<and>
     bf_run [SetMax 2, SetMin 1, Cast 7, Cast 8, Cast 9, Pull, Pull] (queue_abs new_queue) =
       (rs, queue_abs q') \<and> queue_inv q'"
  by (rule queue_run_refines) (simp_all add: queue_open_inv)

text \<open>
  C34: A read of a blocking queue that is not paused waits exactly when no more items than the
  lower limit are present; otherwise it returns the oldest item and removes it.
\<close>

theorem queue_pull_blocking:
  assumes "queue_inv q" and "q_blockingR q" and "\<not> q_paused q"
  shows "queue_pull q =
           (if int (length (itsQ q)) \<le> sint (minQSize q) then Blocked
            else Ret (Some (hd (itsQ q)),
                      q\<lparr>q_condPredR := True, itsQ := tl (itsQ q),
                        q_condPredW := q_blockingW q \<or> q_condPredW q\<rparr>))"
proof -
  have "sint (size_of (itsQ q)) = int (length (itsQ q))"
    "(minQSize q < size_of (itsQ q)) = (sint (minQSize q) < int (length (itsQ q)))"
    using assms(1) by (simp_all add: queue_inv_def sint_size_of less_size_of)
  with assms show ?thesis
    by (auto simp: queue_pull_def queue_wait_pred_def queue_pull_take_def queue_inv_def
        split: list.splits)
qed

theorem queue_pull_blocking_witness:
  "queue_pull (new_queue_blk True :: nat queue) = Blocked \<and>
   queue_pull ((new_queue_blk True)\<lparr>itsQ := [5, 6]\<rparr>) =
     Ret (Some (5::nat), (new_queue_blk True)\<lparr>itsQ := [6], q_condPredR := True\<rparr>)"
  using queue_pull_blocking [of "new_queue_blk True :: nat queue"]
    queue_pull_blocking [of "(new_queue_blk True)\<lparr>itsQ := [5, 6::nat]\<rparr>"]
  by (simp add: new_queue_blk_def queue_inv_def)

text \<open>
  \<open>setMinQSize\<close> accepts every negative limit that is not above the upper limit, and from
  then on no read of the queue ever returns an item, whatever is in it: the limit is compared
  with the size without sign, so it stands for a number above every possible size.
\<close>

lemma queue_negative_minimum_starves:
  assumes "sint n < 0" and "0 \<le> sint (maxQSize q)" and "length xs < 2 ^ 63"
    and "\<not> q_blockingR q"
  shows "fst (queue_setMinQSize n q) \<and>
         queue_pull ((snd (queue_setMinQSize n q))\<lparr>itsQ := xs\<rparr>) =
           Ret (None, (snd (queue_setMinQSize n q))\<lparr>itsQ := xs\<rparr>)"
  using assms negative_not_less_size_of [of n xs]
  by (simp add: queue_setMinQSize_def queue_pull_def queue_pull_take_def)

text \<open>
  \<open>purge\<close> removes nothing from the queue, although its comment says that it deletes all
  accumulated data; \<open>reset\<close> does remove everything and restores the default limits.
\<close>

lemma queue_purge_keeps_reset_clears:
  "itsQ (queue_purge q) = itsQ q \<and> itsQ (queue_reset q) = [] \<and> queue_open (queue_reset q)"
  by (simp add: queue_purge_def queue_reset_def queue_init_def queue_releaseAll_def queue_open_def
      Let_def)

end
