(* ===== verification/BatchingQueue.thy ===== *)
theory BatchingQueue
  imports Queue
begin

text \<open>
  \<open>CPPAFKPriv_WrapBQ<T>\<close> (CPPAFKBase.hpp) and \<open>CPPAFKBatchingQueue<T>\<close>
  (CPPAFKBatchingQueue.hpp): a queue of batches. The record extends that of \<open>CPPAFKQueue\<close>, as
  the class derives from it. A wrapper is owned by exactly one place (the cumulative batch, the
  queue, the relaxation queue), so the pointers of the code are values here.
\<close>

section \<open>State and construction\<close>

record 'a wrap_bq =
  w_condPredW :: bool
  w_discarded :: bool
  w_many :: "'a list"
  w_waitUntilRead :: bool

definition new_wrap_bq :: "'a wrap_bq" where
  "new_wrap_bq = \<lparr>w_condPredW = False, w_discarded = False, w_many = [], w_waitUntilRead = False\<rparr>"

text \<open>\<open>_release\<close>, which no code of the library calls.\<close>

definition wrap_release :: "'a wrap_bq \<Rightarrow> 'a wrap_bq" where
  "wrap_release w = w\<lparr>w_condPredW := False, w_discarded := True\<rparr>"

record 'a bqueue = "'a queue" +
  batchLimitUpper :: i64
  batchLimitLower :: i64
  netCount :: i64
  tempWBQ :: "'a wrap_bq"
  itsBQ :: "'a wrap_bq list"
  itsRelaxingQ :: "'a wrap_bq list"

text \<open>
  \<open>_clearRelaxQ\<close>: as many turns as the relaxation queue had entries; a turn removes the first
  entry and puts it back at the end unless it is marked as discarded, in which case it is
  deleted.
\<close>

fun clear_relax_loop :: "nat \<Rightarrow> 'a wrap_bq list \<Rightarrow> 'a wrap_bq list" where
  "clear_relax_loop 0 ws = ws"
| "clear_relax_loop (Suc c) [] = []"
| "clear_relax_loop (Suc c) (w # ws) =
     clear_relax_loop c (if w_discarded w then ws else ws @ [w])"

definition bq_clearRelaxQ :: "('a, 'z) bqueue_scheme \<Rightarrow> ('a, 'z) bqueue_scheme" where
  "bq_clearRelaxQ q =
     q\<lparr>itsRelaxingQ := clear_relax_loop (length (itsRelaxingQ q)) (itsRelaxingQ q)\<rparr>"

definition bq_sendToRelaxation :: "'a wrap_bq \<Rightarrow> ('a, 'z) bqueue_scheme \<Rightarrow> ('a, 'z) bqueue_scheme" where
  "bq_sendToRelaxation w q = q\<lparr>itsRelaxingQ := itsRelaxingQ q @ [w]\<rparr>"

text \<open>
  \<open>numeric_limits<std::uint64_t>::max()\<close> stored in a signed 64-bit member keeps its bits.
\<close>

definition bq_reset_state :: "('a, 'z) bqueue_scheme \<Rightarrow> ('a, 'z) bqueue_scheme" where
  "bq_reset_state q = bq_clearRelaxQ
     (q\<lparr>batchLimitUpper := u64_max, batchLimitLower := 0, q_paused := False, netCount := 0,
        minQSize := 0, maxQSize := i64_max, q_condPredR := False, q_condPredW := False\<rparr>)"

definition new_bqueue :: "'a bqueue" where
  "new_bqueue = bq_reset_state
     \<lparr>q_condPredR = False, q_condPredW = False, q_blockingR = False, q_blockingW = False,
      q_paused = False, maxQSize = i64_max, minQSize = 0, itsQ = [], batchLimitUpper = 0,
      batchLimitLower = 0, netCount = 0, tempWBQ = new_wrap_bq, itsBQ = [], itsRelaxingQ = []\<rparr>"

definition new_bqueue_blk :: "bool \<Rightarrow> 'a bqueue" where
  "new_bqueue_blk blkR = new_bqueue\<lparr>q_blockingR := blkR, q_blockingW := False\<rparr>"

section \<open>Limits\<close>

definition bq_setMaxQSize :: "i64 \<Rightarrow> ('a, 'z) bqueue_scheme \<Rightarrow> bool \<times> ('a, 'z) bqueue_scheme" where
  "bq_setMaxQSize sz q = (False, q)"

definition bq_setMinQSize :: "i64 \<Rightarrow> ('a, 'z) bqueue_scheme \<Rightarrow> bool \<times> ('a, 'z) bqueue_scheme" where
  "bq_setMinQSize sz q = (False, q)"

text \<open>The argument of both is unsigned, and so are the comparisons.\<close>

definition bq_setUpperBatchLimit :: "u64 \<Rightarrow> ('a, 'z) bqueue_scheme \<Rightarrow> bool \<times> ('a, 'z) bqueue_scheme" where
  "bq_setUpperBatchLimit limit q =
     (if limit < batchLimitLower q then (False, q) else (True, q\<lparr>batchLimitUpper := limit\<rparr>))"

definition bq_setLowerBatchLimit :: "u64 \<Rightarrow> ('a, 'z) bqueue_scheme \<Rightarrow> bool \<times> ('a, 'z) bqueue_scheme" where
  "bq_setLowerBatchLimit limit q =
     (if limit > batchLimitUpper q then (False, q) else (True, q\<lparr>batchLimitLower := limit\<rparr>))"

section \<open>Emptying\<close>

text \<open>
  \<open>purge\<close> holds the queue's mutex throughout. In write-blocking mode its loop locks that mutex
  again for every batch: with a batch in the queue, the thread locks a mutex it holds.
\<close>

definition bq_purge :: "('a, 'z) bqueue_scheme \<Rightarrow> ('a, 'z) bqueue_scheme outcome" where
  "bq_purge q =
     (let q1 = (if q_blockingR q then q\<lparr>q_condPredR := True\<rparr> else q)
      in if q_blockingW q1 \<and> itsBQ q1 \<noteq> [] then Fault Relock
         else Ret (q1\<lparr>itsBQ := [], netCount := 0\<rparr>))"

definition bq_reset :: "('a, 'z) bqueue_scheme \<Rightarrow> ('a, 'z) bqueue_scheme outcome" where
  "bq_reset q =
     obind (bq_purge q) (\<lambda>q1.
       Ret (bq_reset_state (q1\<lparr>batchLimitUpper := u64_max, batchLimitLower := 0,
                          tempWBQ := (tempWBQ q1)\<lparr>w_many := []\<rparr>\<rparr>)))"

definition bq_relax :: "('a, 'z) bqueue_scheme \<Rightarrow> ('a, 'z) bqueue_scheme" where
  "bq_relax q = bq_clearRelaxQ q"

section \<open>Insertion\<close>

text \<open>
  \<open>castObject\<close> enqueues a batch of one. The wrapper is marked as discarded after the insertion,
  so that the relaxation queue may delete it once it has been read. \<open>push_wrap\<close> is the critical
  section of an insertion: a wrapper goes to the tail and the item count grows by \<open>k\<close>.
\<close>

definition push_wrap :: "'a wrap_bq \<Rightarrow> i64 \<Rightarrow> ('a, 'z) bqueue_scheme \<Rightarrow> ('a, 'z) bqueue_scheme" where
  "push_wrap w k q = q\<lparr>itsBQ := itsBQ q @ [w], netCount := netCount q + k\<rparr>"

definition bq_castObject :: "'a \<Rightarrow> ('a, 'z) bqueue_scheme \<Rightarrow> bool \<times> ('a, 'z) bqueue_scheme" where
  "bq_castObject item q =
     (let wrap = new_wrap_bq\<lparr>w_many := [item]\<rparr>
      in (True, push_wrap (wrap\<lparr>w_discarded := True\<rparr>) 1 (bq_clearRelaxQ q)))"

definition bq_castVector :: "'a list \<Rightarrow> ('a, 'z) bqueue_scheme \<Rightarrow> bool \<times> ('a, 'z) bqueue_scheme" where
  "bq_castVector items q = (False, q)"

definition bq_callObject :: "'a \<Rightarrow> ('a, 'z) bqueue_scheme \<Rightarrow> bool \<times> ('a, 'z) bqueue_scheme" where
  "bq_callObject item q = (False, q)"

definition bq_callVector :: "'a list \<Rightarrow> ('a, 'z) bqueue_scheme \<Rightarrow> bool \<times> ('a, 'z) bqueue_scheme" where
  "bq_callVector items q = (False, q)"

definition bq_candidateCount :: "('a, 'z) bqueue_scheme \<Rightarrow> i64" where
  "bq_candidateCount q = size_of (w_many (tempWBQ q))"

text \<open>
  \<open>castObjectToBatch\<close> tests its argument as a condition (\<open>if(obj)\<close>); \<open>truthy\<close> is that test for
  the item type, a pointer that is not null or a number that is not zero.
\<close>

definition bq_castObjectToBatch ::
  "('a \<Rightarrow> bool) \<Rightarrow> 'a \<Rightarrow> ('a, 'z) bqueue_scheme \<Rightarrow> bool \<times> ('a, 'z) bqueue_scheme" where
  "bq_castObjectToBatch truthy obj q =
     (let q1 = bq_clearRelaxQ q
      in if truthy obj
         then (True, q1\<lparr>tempWBQ := (tempWBQ q1)\<lparr>w_many := w_many (tempWBQ q1) @ [obj]\<rparr>\<rparr>)
         else (False, q1))"

definition bq_commitBatch :: "bool \<Rightarrow> ('a, 'z) bqueue_scheme \<Rightarrow> bool \<times> ('a, 'z) bqueue_scheme" where
  "bq_commitBatch force q =
     (let q1 = bq_clearRelaxQ q; n = size_of (w_many (tempWBQ q1))
      in if \<not> force \<and> (batchLimitLower q1 > n \<or> batchLimitUpper q1 < n) then (False, q1)
         else if n > 0
           then (True, (push_wrap (tempWBQ q1) n q1)\<lparr>tempWBQ := new_wrap_bq\<rparr>)
           else (False, q1))"

definition bq_resetBatch :: "('a, 'z) bqueue_scheme \<Rightarrow> bool \<times> ('a, 'z) bqueue_scheme" where
  "bq_resetBatch q =
     (let q1 = bq_clearRelaxQ q
      in if size_of (w_many (tempWBQ q1)) > 0
         then (True, q1\<lparr>tempWBQ := (tempWBQ q1)\<lparr>w_many := []\<rparr>\<rparr>)
         else (False, q1))"

section \<open>Reading\<close>

definition bq_pause :: "('a, 'z) bqueue_scheme \<Rightarrow> ('a, 'z) bqueue_scheme" where
  "bq_pause q = (bq_clearRelaxQ q)\<lparr>q_paused := True\<rparr>"

definition bq_resume :: "('a, 'z) bqueue_scheme \<Rightarrow> ('a, 'z) bqueue_scheme" where
  "bq_resume q = (bq_clearRelaxQ q)\<lparr>q_paused := False\<rparr>"

definition bq_batchCount :: "('a, 'z) bqueue_scheme \<Rightarrow> i64 \<times> ('a, 'z) bqueue_scheme" where
  "bq_batchCount q = (size_of (itsBQ q), bq_clearRelaxQ q)"

definition bq_size :: "('a, 'z) bqueue_scheme \<Rightarrow> i64 \<times> ('a, 'z) bqueue_scheme" where
  "bq_size q = (netCount q, bq_clearRelaxQ q)"

definition bq_isEmpty :: "('a, 'z) bqueue_scheme \<Rightarrow> bool \<times> ('a, 'z) bqueue_scheme" where
  "bq_isEmpty q = (itsBQ q = [], bq_clearRelaxQ q)"

text \<open>
  \<open>pull\<close> reads one item of the earliest batch. The comparison of the two counters is signed. A
  blocking queue with nothing to read waits and then fails all the same; the wait is the value
  \<open>Blocked\<close>. Whoever is woken from it gets \<open>bq_pull_woken\<close>.
\<close>

definition bq_pull_woken :: "('a, 'z) bqueue_scheme \<Rightarrow> 'a option \<times> ('a, 'z) bqueue_scheme" where
  "bq_pull_woken q = (None, q\<lparr>q_condPredR := True\<rparr>)"

definition bq_pull ::
  "('a, 'z) bqueue_scheme \<Rightarrow> ('a option \<times> ('a, 'z) bqueue_scheme) outcome" where
  "bq_pull q0 =
     (let q = bq_clearRelaxQ q0
      in if q_paused q then Ret (None, q)
         else if sint (netCount q) > sint (minQSize q)
           then (case itsBQ q of
                   [] \<Rightarrow> Fault Front_of_empty
                 | item # rest \<Rightarrow>
                     (case w_many item of
                        [] \<Rightarrow> Ret (None, q)
                      | subitem # others \<Rightarrow>
                          (let item1 = item\<lparr>w_many := others\<rparr>;
                               q1 = q\<lparr>itsBQ := item1 # rest, netCount := netCount q - 1\<rparr>
                           in Ret (Some subitem,
                                if others = []
                                then bq_sendToRelaxation
                                       (if w_waitUntilRead item1 then item1\<lparr>w_condPredW := True\<rparr>
                                        else item1)
                                       (q1\<lparr>itsBQ := rest\<rparr>)
                                else q1))))
           else if q_blockingR q then Blocked
           else Ret (None, q))"

end
