(* ===== verification/BatchingQueue_Correct.thy ===== *)
theory BatchingQueue_Correct
  imports BatchingQueue
begin

text \<open>
  What \<open>CPPAFKBatchingQueue\<close> promises: the invariant that ties the item counter to the batches,
  an abstract queue of batches and the refinement of every sequence of operations to it, and
  the fate of the wrappers of committed batches.
\<close>

section \<open>The relaxation queue\<close>

lemma clear_relax_loop_filter:
  "clear_relax_loop (length ws) (ws @ vs) = vs @ filter (\<lambda>w. \<not> w_discarded w) ws"
  by (induction ws arbitrary: vs) auto

lemma clearRelaxQ_filter:
  "itsRelaxingQ (bq_clearRelaxQ q) = filter (\<lambda>w. \<not> w_discarded w) (itsRelaxingQ q)"
  using clear_relax_loop_filter [of "itsRelaxingQ q" "[]"] by (simp add: bq_clearRelaxQ_def)

lemma clearRelaxQ_fields [simp]:
  "netCount (bq_clearRelaxQ q) = netCount q" "itsBQ (bq_clearRelaxQ q) = itsBQ q"
  "tempWBQ (bq_clearRelaxQ q) = tempWBQ q" "minQSize (bq_clearRelaxQ q) = minQSize q"
  "q_paused (bq_clearRelaxQ q) = q_paused q" "q_blockingR (bq_clearRelaxQ q) = q_blockingR q"
  "q_blockingW (bq_clearRelaxQ q) = q_blockingW q"
  "batchLimitUpper (bq_clearRelaxQ q) = batchLimitUpper q"
  "batchLimitLower (bq_clearRelaxQ q) = batchLimitLower q"
  by (simp_all add: bq_clearRelaxQ_def)

section \<open>The invariant\<close>

definition bq_contents :: "('a, 'z) bqueue_scheme \<Rightarrow> 'a list" where
  "bq_contents q = concat (map w_many (itsBQ q))"

definition bq_items :: "('a, 'z) bqueue_scheme \<Rightarrow> nat" where
  "bq_items q = length (bq_contents q) + length (w_many (tempWBQ q))"

text \<open>
  The counter is the number of items in the committed batches, no committed batch is empty, and
  the cumulative batch is never marked as discarded. Item counts stay below \<open>2 ^ 63\<close>.
\<close>

definition bq_inv :: "('a, 'z) bqueue_scheme \<Rightarrow> bool" where
  "bq_inv q \<longleftrightarrow> minQSize q = 0 \<and> (\<forall>w \<in> set (itsBQ q). w_many w \<noteq> []) \<and>
     netCount q = size_of (bq_contents q) \<and> \<not> w_discarded (tempWBQ q) \<and> bq_items q < 2 ^ 63"

lemma bq_contents_Nil: "bq_inv q \<Longrightarrow> bq_contents q = [] \<longleftrightarrow> itsBQ q = []"
  by (auto simp: bq_inv_def bq_contents_def)

lemma bq_inv_netCount: "bq_inv q \<Longrightarrow> sint (netCount q) = int (length (bq_contents q))"
  by (simp add: bq_inv_def bq_items_def sint_size_of)

lemma bq_inv_new [simp]: "bq_inv new_bqueue"
  by (simp add: bq_inv_def new_bqueue_def bq_reset_state_def bq_contents_def bq_items_def
      new_wrap_bq_def)

lemma bq_inv_clear [simp]: "bq_inv (bq_clearRelaxQ q) \<longleftrightarrow> bq_inv q"
  by (simp add: bq_inv_def bq_contents_def bq_items_def)

lemma bq_contents_clear [simp]: "bq_contents (bq_clearRelaxQ q) = bq_contents q"
  by (simp add: bq_contents_def)

lemma size_of_append: "size_of (xs @ ys) = size_of xs + size_of ys"
  by (simp add: size_of_def)

text \<open>The wrappers that no turn of the relaxation queue deletes.\<close>

definition bq_kept :: "('a, 'z) bqueue_scheme \<Rightarrow> nat" where
  "bq_kept q = length (filter (\<lambda>w. \<not> w_discarded w) (itsRelaxingQ q @ itsBQ q))"

lemma bq_kept_clear [simp]: "bq_kept (bq_clearRelaxQ q) = bq_kept q"
  by (simp add: bq_kept_def clearRelaxQ_filter)

lemma bq_castObject_inv:
  assumes "bq_inv q" and "bq_items q + 1 < 2 ^ 63"
  shows "bq_inv (snd (bq_castObject x q))"
    and "bq_contents (snd (bq_castObject x q)) = bq_contents q @ [x]"
  using assms
  by (auto simp: bq_castObject_def push_wrap_def bq_inv_def bq_contents_def bq_items_def Let_def
      new_wrap_bq_def size_of_append size_of_Cons)

lemma bq_pull_cons:
  assumes inv: "bq_inv q" and np: "\<not> q_paused q" and w: "itsBQ q = w # ws"
  obtains x xs q' where "w_many w = x # xs" and "bq_pull q = Ret (Some x, q')"
    and "map w_many (itsBQ q') = (if xs = [] then [] else [xs]) @ map w_many ws"
    and "bq_inv q'" and "q_paused q' = q_paused q" and "q_blockingR q' = q_blockingR q"
    and "q_blockingW q' = q_blockingW q" and "tempWBQ q' = tempWBQ q"
    and "batchLimitUpper q' = batchLimitUpper q" and "batchLimitLower q' = batchLimitLower q"
    and "bq_kept q' = bq_kept q"
proof -
  from inv w obtain x xs where m: "w_many w = x # xs" by (cases "w_many w") (auto simp: bq_inv_def)
  from bq_inv_netCount [OF inv] w m inv have pos: "sint (netCount q) > sint (minQSize q)"
    by (simp add: bq_contents_def bq_inv_def)
  have cnt: "netCount q - 1 = size_of (xs @ concat (map w_many ws))"
    using inv w m by (simp add: bq_inv_def bq_contents_def size_of_Cons)
  show thesis
    using that [OF m] inv np w m pos cnt
    by (auto simp: bq_pull_def Let_def bq_sendToRelaxation_def bq_inv_def bq_contents_def
        bq_items_def bq_kept_def clearRelaxQ_filter)
qed

lemma bq_pull_empty:
  assumes "bq_inv q" and "\<not> q_paused q" and "itsBQ q = []"
  shows "bq_pull q = (if q_blockingR q then Blocked else Ret (None, bq_clearRelaxQ q))"
  using assms bq_inv_netCount [of q]
  by (simp add: bq_pull_def Let_def bq_inv_def bq_contents_def)

lemma bq_pull_paused: "q_paused q \<Longrightarrow> bq_pull q = Ret (None, bq_clearRelaxQ q)"
  by (simp add: bq_pull_def Let_def)

section \<open>A batching queue that is never paused drains in order\<close>

definition bq_open :: "('a, 'z) bqueue_scheme \<Rightarrow> bool" where
  "bq_open q \<longleftrightarrow> bq_inv q \<and> \<not> q_paused q \<and> \<not> q_blockingR q \<and> \<not> q_blockingW q"

definition bq_room :: "nat \<Rightarrow> ('a, 'z) bqueue_scheme \<Rightarrow> bool" where
  "bq_room n q \<longleftrightarrow> bq_items q + n < 2 ^ 63"

lemma bq_open_new [simp]: "bq_open new_bqueue"
  by (simp add: bq_open_def) (simp add: new_bqueue_def bq_reset_state_def bq_clearRelaxQ_def)

lemma bq_castObject_fields [simp]:
  "q_paused (snd (bq_castObject x q)) = q_paused q"
  "q_blockingR (snd (bq_castObject x q)) = q_blockingR q"
  "q_blockingW (snd (bq_castObject x q)) = q_blockingW q"
  "tempWBQ (snd (bq_castObject x q)) = tempWBQ q"
  "batchLimitUpper (snd (bq_castObject x q)) = batchLimitUpper q"
  "batchLimitLower (snd (bq_castObject x q)) = batchLimitLower q"
  "fst (bq_castObject x q)"
  "map w_many (itsBQ (snd (bq_castObject x q))) = map w_many (itsBQ q) @ [[x]]"
  "bq_kept (snd (bq_castObject x q)) = bq_kept q"
  by (simp_all add: bq_castObject_def push_wrap_def Let_def bq_kept_def clearRelaxQ_filter)

interpretation bqf: fifo bq_pull bq_contents bq_open "\<lambda>x q. snd (bq_castObject x q)" bq_room
proof (unfold_locales, goal_cases)
  case (1 q)
  then have "itsBQ q = []" using bq_contents_Nil by (auto simp: bq_open_def)
  with 1 bq_pull_empty [of q] show ?case by (auto simp: bq_open_def)
next
  case (2 q x xs)
  then have inv: "bq_inv q" and np: "\<not> q_paused q" by (simp_all add: bq_open_def)
  with 2 obtain w ws where w: "itsBQ q = w # ws"
    by (cases "itsBQ q") (auto simp: bq_contents_def)
  obtain y ys q' where q': "w_many w = y # ys" "bq_pull q = Ret (Some y, q')"
    "map w_many (itsBQ q') = (if ys = [] then [] else [ys]) @ map w_many ws" "bq_inv q'"
    "q_paused q' = q_paused q" "q_blockingR q' = q_blockingR q" "q_blockingW q' = q_blockingW q"
    using bq_pull_cons [OF inv np w] by metis
  moreover from 2(2) w q' have "y = x" "bq_contents q' = xs"
    by (auto simp: bq_contents_def split: if_splits)
  ultimately show ?case using 2(1) by (auto simp: bq_open_def)
next
  case (3 q n x)
  then show ?case using bq_castObject_inv(2) [of q x] by (simp add: bq_open_def bq_room_def)
next
  case (4 q n x)
  then show ?case using bq_castObject_inv(1) [of q x] by (simp add: bq_open_def bq_room_def)
next
  case (5 q n x)
  then show ?case
    using bq_castObject_inv(2) [of q x] by (simp add: bq_open_def bq_room_def bq_items_def)
qed

section \<open>The abstract queue of batches\<close>

record 'a batches =
  b_queue :: "'a list list"
  b_open :: "'a list"
  b_lower :: nat
  b_upper :: nat
  b_stopped :: bool

datatype 'a batch_op =
  BCast 'a | BAdd 'a | BCommit bool | BDrop | BPull | BPause | BResume | BUpper u64 | BLower u64

datatype 'a batch_result = BDone | BAccepted bool | BGot "'a option"

fun take_first :: "'a list list \<Rightarrow> 'a option \<times> 'a list list" where
  "take_first [] = (None, [])"
| "take_first ([] # bs) = (None, [] # bs)"
| "take_first ((x # xs) # bs) = (Some x, if xs = [] then bs else xs # bs)"

fun batch_step :: "('a \<Rightarrow> bool) \<Rightarrow> 'a batch_op \<Rightarrow> 'a batches \<Rightarrow> 'a batch_result \<times> 'a batches" where
  "batch_step truthy (BCast x) b = (BAccepted True, b\<lparr>b_queue := b_queue b @ [[x]]\<rparr>)"
| "batch_step truthy (BAdd x) b =
     (if truthy x then (BAccepted True, b\<lparr>b_open := b_open b @ [x]\<rparr>) else (BAccepted False, b))"
| "batch_step truthy (BCommit force) b =
     (if b_open b \<noteq> [] \<and>
         (force \<or> b_lower b \<le> length (b_open b) \<and> length (b_open b) \<le> b_upper b)
      then (BAccepted True, b\<lparr>b_queue := b_queue b @ [b_open b], b_open := []\<rparr>)
      else (BAccepted False, b))"
| "batch_step truthy BDrop b = (BAccepted (b_open b \<noteq> []), b\<lparr>b_open := []\<rparr>)"
| "batch_step truthy BPull b =
     (if b_stopped b then (BGot None, b)
      else (BGot (fst (take_first (b_queue b))), b\<lparr>b_queue := snd (take_first (b_queue b))\<rparr>))"
| "batch_step truthy BPause b = (BDone, b\<lparr>b_stopped := True\<rparr>)"
| "batch_step truthy BResume b = (BDone, b\<lparr>b_stopped := False\<rparr>)"
| "batch_step truthy (BUpper n) b =
     (if unat n < b_lower b then (BAccepted False, b) else (BAccepted True, b\<lparr>b_upper := unat n\<rparr>))"
| "batch_step truthy (BLower n) b =
     (if b_upper b < unat n then (BAccepted False, b) else (BAccepted True, b\<lparr>b_lower := unat n\<rparr>))"

fun batch_run ::
  "('a \<Rightarrow> bool) \<Rightarrow> 'a batch_op list \<Rightarrow> 'a batches \<Rightarrow> 'a batch_result list \<times> 'a batches" where
  "batch_run truthy [] b = ([], b)"
| "batch_run truthy (op # ops) b =
     (let (r, b') = batch_step truthy op b; (rs, b'') = batch_run truthy ops b' in (r # rs, b''))"

fun bq_step ::
  "('a \<Rightarrow> bool) \<Rightarrow> 'a batch_op \<Rightarrow> 'a bqueue \<Rightarrow> ('a batch_result \<times> 'a bqueue) outcome" where
  "bq_step truthy (BCast x) q = Ret (map_prod BAccepted id (bq_castObject x q))"
| "bq_step truthy (BAdd x) q = Ret (map_prod BAccepted id (bq_castObjectToBatch truthy x q))"
| "bq_step truthy (BCommit force) q = Ret (map_prod BAccepted id (bq_commitBatch force q))"
| "bq_step truthy BDrop q = Ret (map_prod BAccepted id (bq_resetBatch q))"
| "bq_step truthy BPull q = obind (bq_pull q) (\<lambda>r. Ret (map_prod BGot id r))"
| "bq_step truthy BPause q = Ret (BDone, bq_pause q)"
| "bq_step truthy BResume q = Ret (BDone, bq_resume q)"
| "bq_step truthy (BUpper n) q = Ret (map_prod BAccepted id (bq_setUpperBatchLimit n q))"
| "bq_step truthy (BLower n) q = Ret (map_prod BAccepted id (bq_setLowerBatchLimit n q))"

fun bq_run ::
  "('a \<Rightarrow> bool) \<Rightarrow> 'a batch_op list \<Rightarrow> 'a bqueue \<Rightarrow> ('a batch_result list \<times> 'a bqueue) outcome" where
  "bq_run truthy [] q = Ret ([], q)"
| "bq_run truthy (op # ops) q =
     obind (bq_step truthy op q)
       (\<lambda>(r, q'). obind (bq_run truthy ops q') (\<lambda>(rs, q''). Ret (r # rs, q'')))"

definition bq_abs :: "'a bqueue \<Rightarrow> 'a batches" where
  "bq_abs q = \<lparr>b_queue = map w_many (itsBQ q), b_open = w_many (tempWBQ q),
     b_lower = unat (batchLimitLower q), b_upper = unat (batchLimitUpper q),
     b_stopped = q_paused q\<rparr>"

text \<open>The number of commits of an operation that succeeded: 1 or 0.\<close>

fun committed :: "'a batch_op \<Rightarrow> 'a batch_result \<Rightarrow> nat" where
  "committed (BCommit force) (BAccepted True) = 1"
| "committed _ _ = 0"

lemma unat_size_of: "length xs < 2 ^ 64 \<Longrightarrow> unat (size_of xs) = length xs"
  by (simp add: size_of_def unat_word_of_nat64)

lemma size_of_zero_iff: "length xs < 2 ^ 64 \<Longrightarrow> 0 < size_of xs \<longleftrightarrow> xs \<noteq> []"
  by (simp add: word_less_nat_alt unat_size_of)

lemma bq_commit_refines:
  assumes "bq_inv q"
  shows "\<exists>r q'. bq_step truthy (BCommit force) q = Ret (r, q') \<and>
     batch_step truthy (BCommit force) (bq_abs q) = (r, bq_abs q') \<and>
     bq_inv q' \<and> q_blockingR q' = q_blockingR q \<and> bq_items q' = bq_items q \<and>
     bq_kept q' = bq_kept q + committed (BCommit force) r"
proof -
  let ?n = "size_of (w_many (tempWBQ q))"
  have len: "length (w_many (tempWBQ q)) < 2 ^ 64" using assms by (simp add: bq_inv_def bq_items_def)
  have cmp: "batchLimitLower q > ?n \<longleftrightarrow> length (w_many (tempWBQ q)) < unat (batchLimitLower q)"
    "batchLimitUpper q < ?n \<longleftrightarrow> unat (batchLimitUpper q) < length (w_many (tempWBQ q))"
    "?n > 0 \<longleftrightarrow> w_many (tempWBQ q) \<noteq> []"
    using len by (simp_all add: word_less_nat_alt unat_size_of size_of_zero_iff)
  show ?thesis
    using assms
    by (auto simp: bq_commitBatch_def Let_def cmp bq_abs_def push_wrap_def bq_inv_def
        bq_contents_def bq_items_def bq_kept_def clearRelaxQ_filter size_of_append new_wrap_bq_def)
qed

lemma bq_pull_refines:
  assumes inv: "bq_inv q" and nb: "\<not> q_blockingR q"
  shows "\<exists>r q'. bq_step truthy BPull q = Ret (r, q') \<and>
     batch_step truthy BPull (bq_abs q) = (r, bq_abs q') \<and>
     bq_inv q' \<and> q_blockingR q' = q_blockingR q \<and> bq_items q' \<le> bq_items q \<and>
     bq_kept q' = bq_kept q + committed BPull r"
proof (cases "q_paused q")
  case True
  with inv show ?thesis by (simp add: bq_pull_paused bq_abs_def bq_items_def)
next
  case np: False
  show ?thesis
  proof (cases "itsBQ q")
    case Nil
    with inv nb np show ?thesis by (simp add: bq_pull_empty bq_abs_def bq_items_def)
  next
    case (Cons w ws)
    show ?thesis
      using bq_pull_cons [OF inv np Cons, of ?thesis] np Cons
      by (fastforce simp: bq_abs_def bq_items_def bq_contents_def)
  qed
qed

lemma bq_step_refines:
  assumes inv: "bq_inv q" and nb: "\<not> q_blockingR q" and room: "bq_items q + 1 < 2 ^ 63"
  shows "\<exists>r q'. bq_step truthy op q = Ret (r, q') \<and> batch_step truthy op (bq_abs q) = (r, bq_abs q') \<and>
     bq_inv q' \<and> \<not> q_blockingR q' \<and> bq_items q' \<le> bq_items q + 1 \<and>
     bq_kept q' = bq_kept q + committed op r"
proof (cases op)
  case (BCast x)
  with inv nb room bq_castObject_inv [OF inv room, of x] show ?thesis
    by (auto simp: bq_abs_def bq_items_def prod_eq_iff map_prod_def split_beta)
next
  case (BAdd x)
  with inv nb room show ?thesis
    by (auto simp: bq_castObjectToBatch_def Let_def bq_abs_def bq_inv_def bq_contents_def bq_items_def
        bq_kept_def clearRelaxQ_filter)
next
  case (BCommit force)
  with bq_commit_refines [OF inv, of truthy force] nb show ?thesis by fastforce
next
  case BDrop
  with inv nb show ?thesis
    using size_of_zero_iff [of "w_many (tempWBQ q)"]
    by (auto simp: bq_resetBatch_def Let_def bq_abs_def bq_inv_def bq_contents_def bq_items_def
        bq_kept_def clearRelaxQ_filter)
next
  case BPull
  with bq_pull_refines [OF inv nb, of truthy] nb show ?thesis by fastforce
next
  case BPause
  with inv nb show ?thesis
    by (auto simp: bq_pause_def bq_abs_def bq_inv_def bq_contents_def bq_items_def bq_kept_def
        clearRelaxQ_filter)
next
  case BResume
  with inv nb show ?thesis
    by (auto simp: bq_resume_def bq_abs_def bq_inv_def bq_contents_def bq_items_def bq_kept_def
        clearRelaxQ_filter)
next
  case (BUpper n)
  with inv nb show ?thesis
    by (auto simp: bq_setUpperBatchLimit_def bq_abs_def bq_inv_def bq_contents_def bq_items_def
        bq_kept_def word_less_nat_alt)
next
  case (BLower n)
  with inv nb show ?thesis
    by (auto simp: bq_setLowerBatchLimit_def bq_abs_def bq_inv_def bq_contents_def bq_items_def
        bq_kept_def word_less_nat_alt)
qed

lemma bq_run_refines_kept:
  assumes "bq_inv q" and "\<not> q_blockingR q" and "bq_items q + length ops < 2 ^ 63"
  shows "\<exists>rs q'. bq_run truthy ops q = Ret (rs, q') \<and>
     batch_run truthy ops (bq_abs q) = (rs, bq_abs q') \<and> bq_inv q' \<and>
     bq_kept q' = bq_kept q + sum_list (map2 committed ops rs)"
  using assms
proof (induction ops arbitrary: q)
  case Nil
  then show ?case by simp
next
  case (Cons op ops)
  from Cons.prems bq_step_refines [of q truthy op] obtain r q1 where
    s: "bq_step truthy op q = Ret (r, q1)" "batch_step truthy op (bq_abs q) = (r, bq_abs q1)"
      "bq_inv q1" "\<not> q_blockingR q1" "bq_items q1 \<le> bq_items q + 1"
      "bq_kept q1 = bq_kept q + committed op r" by auto
  with Cons.IH [of q1] Cons.prems(3) obtain rs q2 where
    "bq_run truthy ops q1 = Ret (rs, q2)" "batch_run truthy ops (bq_abs q1) = (rs, bq_abs q2)"
    "bq_inv q2" "bq_kept q2 = bq_kept q1 + sum_list (map2 committed ops rs)"
    by auto
  with s show ?case by (auto simp: Let_def)
qed

section \<open>Properties\<close>



text \<open>
  The wrapper of a committed batch is never deleted: through any sequence of operations the
  wrappers that no turn of the relaxation queue removes grow by one with each successful commit,
  also when every batch has been read.
\<close>

lemma bq_committed_wrappers_leak:
  assumes "bq_inv q" and "\<not> q_blockingR q" and "bq_items q + length ops < 2 ^ 63"
    and "bq_run truthy ops q = Ret (rs, q')" and "itsBQ q' = []"
  shows "length (itsRelaxingQ (bq_relax q')) = bq_kept q + sum_list (map2 committed ops rs)"
  using bq_run_refines_kept [OF assms(1-3), of truthy] assms(4,5)
  by (auto simp: bq_relax_def clearRelaxQ_filter bq_kept_def)

end
