(* ===== verification/GarbageCollector.thy ===== *)
theory GarbageCollector
  imports Queue_Correct BatchingQueue
begin

text \<open>
  \<open>CPPAFKGarbageCollector\<close> (CPPAFKThreadpool.hpp, CPPAFKThreadpool.cpp): three queues of objects
  to delete, emptied by the worker threads in rounds of at most 1000 objects each, and emptied
  completely at shutdown.

  A data object is a pointer: \<open>'p option\<close>, \<open>None\<close> for the null pointer, which \<open>delete\<close> ignores.
  A session is known by the number of its allocation. What a round deletes is its result.
\<close>

type_synonym session_ptr = nat

record 'p gc =
  gc_active :: bool
  userDataCollection :: "'p option queue"
  wrapperCollection :: "'p option wrap_bq queue"
  killedSessions :: "session_ptr queue"

definition new_gc :: "'p gc" where
  "new_gc = \<lparr>gc_active = False, userDataCollection = new_queue, wrapperCollection = new_queue,
     killedSessions = new_queue\<rparr>"

text \<open>\<open>gc.userDataCollection.castObject(p, nullptr)\<close> and its two siblings.\<close>

definition gc_cast_data :: "'p option \<Rightarrow> 'p gc \<Rightarrow> 'p gc" where
  "gc_cast_data p g = g\<lparr>userDataCollection := snd (queue_castObject p (userDataCollection g))\<rparr>"

definition gc_cast_wrapper :: "'p option wrap_bq \<Rightarrow> 'p gc \<Rightarrow> 'p gc" where
  "gc_cast_wrapper w g = g\<lparr>wrapperCollection := snd (queue_castObject w (wrapperCollection g))\<rparr>"

definition gc_cast_session :: "session_ptr \<Rightarrow> 'p gc \<Rightarrow> 'p gc" where
  "gc_cast_session s g = g\<lparr>killedSessions := snd (queue_castObject s (killedSessions g))\<rparr>"

text \<open>
  What one round deletes. A killed session that does not report itself as cancelled is taken
  out of the queue and not deleted: \<open>d_forgotten\<close>.
\<close>

record 'p disposal =
  d_data :: "'p option list"
  d_wrappers :: "'p option wrap_bq list"
  d_sessions :: "session_ptr list"
  d_forgotten :: "session_ptr list"

definition releasing_batch_size :: nat where
  "releasing_batch_size = 1000"

definition gc_dispose ::
  "(session_ptr \<Rightarrow> bool) \<Rightarrow> 'p gc \<Rightarrow> ('p disposal \<times> 'p gc) outcome" where
  "gc_dispose isCancelled g =
     obind (pull_upto queue_pull releasing_batch_size (userDataCollection g)) (\<lambda>(ows, q1).
     obind (pull_upto queue_pull releasing_batch_size (wrapperCollection g)) (\<lambda>(wcs, q2).
     obind (pull_upto queue_pull releasing_batch_size (killedSessions g)) (\<lambda>(tss, q3).
       Ret (\<lparr>d_data = ows, d_wrappers = wcs, d_sessions = filter isCancelled tss,
             d_forgotten = filter (\<lambda>s. \<not> isCancelled s) tss\<rparr>,
            g\<lparr>userDataCollection := q1, wrapperCollection := q2, killedSessions := q3\<rparr>))))"

definition gc_disposeAll ::
  "(session_ptr \<Rightarrow> bool) \<Rightarrow> 'p gc \<Rightarrow> ('p disposal \<times> 'p gc) option" where
  "gc_disposeAll isCancelled g =
     Option.bind (pull_all queue_pull [] (userDataCollection g)) (\<lambda>(ows, q1).
     Option.bind (pull_all queue_pull [] (wrapperCollection g)) (\<lambda>(wcs, q2).
     Option.bind (pull_all queue_pull [] (killedSessions g)) (\<lambda>(tss, q3).
       Some (\<lparr>d_data = ows, d_wrappers = wcs, d_sessions = filter isCancelled tss,
              d_forgotten = filter (\<lambda>s. \<not> isCancelled s) tss\<rparr>,
             g\<lparr>userDataCollection := q1, wrapperCollection := q2, killedSessions := q3\<rparr>))))"

section \<open>The collector's queues stay in their default configuration\<close>

definition gc_open :: "'p gc \<Rightarrow> bool" where
  "gc_open g \<longleftrightarrow> queue_open (userDataCollection g) \<and> queue_open (wrapperCollection g) \<and>
     queue_open (killedSessions g)"

lemma gc_open_new [simp]: "gc_open new_gc"
  by (simp add: gc_open_def new_gc_def)

abbreviation gc_data :: "'p gc \<Rightarrow> 'p option list" where
  "gc_data g \<equiv> itsQ (userDataCollection g)"

lemma gc_cast_data_frame [simp]:
  "wrapperCollection (gc_cast_data p g) = wrapperCollection g"
  "killedSessions (gc_cast_data p g) = killedSessions g"
  "gc_active (gc_cast_data p g) = gc_active g"
  by (simp_all add: gc_cast_data_def)

lemma gc_cast_data_open:
  assumes "gc_open g" and "length (gc_data g) + 1 < 2 ^ 63"
  shows "gc_open (gc_cast_data p g)" and "gc_data (gc_cast_data p g) = gc_data g @ [p]"
  using assms queue_open_cast [of "userDataCollection g" p]
  by (simp_all add: gc_open_def gc_cast_data_def queue_room_def)

fun dispose_rounds ::
  "(session_ptr \<Rightarrow> bool) \<Rightarrow> nat \<Rightarrow> 'p gc \<Rightarrow> ('p disposal list \<times> 'p gc) outcome" where
  "dispose_rounds isCancelled 0 g = Ret ([], g)"
| "dispose_rounds isCancelled (Suc n) g =
     obind (gc_dispose isCancelled g) (\<lambda>(d, g1).
     obind (dispose_rounds isCancelled n g1) (\<lambda>(ds, g2). Ret (d # ds, g2)))"

lemma gc_dispose_eq:
  assumes "gc_open g"
  shows "\<exists>g'. gc_dispose isCancelled g = Ret
      (\<lparr>d_data = take 1000 (gc_data g), d_wrappers = take 1000 (itsQ (wrapperCollection g)),
        d_sessions = filter isCancelled (take 1000 (itsQ (killedSessions g))),
        d_forgotten = filter (\<lambda>s. \<not> isCancelled s) (take 1000 (itsQ (killedSessions g)))\<rparr>, g') \<and>
      gc_open g' \<and> gc_data g' = drop 1000 (gc_data g) \<and>
      itsQ (wrapperCollection g') = drop 1000 (itsQ (wrapperCollection g)) \<and>
      itsQ (killedSessions g') = drop 1000 (itsQ (killedSessions g)) \<and> gc_active g' = gc_active g"
proof -
  from assms have o: "queue_open (userDataCollection g)" "queue_open (wrapperCollection g)"
    "queue_open (killedSessions g)" by (simp_all add: gc_open_def)
  from gcq.pull_upto_takes [OF o(1), of 1000] obtain q1 where
    "pull_upto queue_pull 1000 (userDataCollection g) = Ret (take 1000 (gc_data g), q1)"
    "queue_open q1" "itsQ q1 = drop 1000 (gc_data g)" by blast
  moreover from gcq.pull_upto_takes [OF o(2), of 1000] obtain q2 where
    "pull_upto queue_pull 1000 (wrapperCollection g) = Ret (take 1000 (itsQ (wrapperCollection g)), q2)"
    "queue_open q2" "itsQ q2 = drop 1000 (itsQ (wrapperCollection g))" by blast
  moreover from gcq.pull_upto_takes [OF o(3), of 1000] obtain q3 where
    "pull_upto queue_pull 1000 (killedSessions g) = Ret (take 1000 (itsQ (killedSessions g)), q3)"
    "queue_open q3" "itsQ q3 = drop 1000 (itsQ (killedSessions g))" by blast
  ultimately show ?thesis
    by (simp add: gc_dispose_def releasing_batch_size_def gc_open_def)
qed

section \<open>Properties\<close>



text \<open>
  C24: \<open>disposeAll\<close> returns, empties the three queues and frees every data object and wrapper, in
  order. It deletes the killed sessions that report themselves as cancelled and no other; the
  other killed sessions leave the queue without being deleted.
\<close>

theorem disposeAll_empties:
  assumes "gc_open g"
  shows "\<exists>d g'. gc_disposeAll isCancelled g = Some (d, g') \<and> d_data d = gc_data g \<and>
     d_wrappers d = itsQ (wrapperCollection g) \<and>
     d_sessions d = filter isCancelled (itsQ (killedSessions g)) \<and>
     set (d_sessions d) \<union> set (d_forgotten d) = set (itsQ (killedSessions g)) \<and>
     set (d_sessions d) \<inter> set (d_forgotten d) = {} \<and>
     gc_data g' = [] \<and> itsQ (wrapperCollection g') = [] \<and> itsQ (killedSessions g') = []"
proof -
  from assms have o: "queue_open (userDataCollection g)" "queue_open (wrapperCollection g)"
    "queue_open (killedSessions g)" by (simp_all add: gc_open_def)
  from gcq.pull_all_empties [OF o(1), of "[]"] gcq.pull_all_empties [OF o(2), of "[]"]
    gcq.pull_all_empties [OF o(3), of "[]"]
  show ?thesis by (auto simp: gc_disposeAll_def)
qed

theorem disposeAll_empties_witness:
  "\<exists>d g'. gc_disposeAll (\<lambda>s. False) (gc_cast_session 3 (new_gc :: nat gc)) = Some (d, g') \<and>
     d_sessions d = [] \<and> d_forgotten d \<noteq> [] \<and> itsQ (killedSessions g') = []"
proof -
  let ?g = "gc_cast_session 3 (new_gc :: nat gc)"
  have "gc_open ?g" "itsQ (killedSessions ?g) = [3]"
    by (simp_all add: gc_open_def queue_open_def gc_cast_session_def new_gc_def
        queue_castObject_def i64_max_def size_of_def)
  with disposeAll_empties [of ?g "\<lambda>s. False"] show ?thesis by fastforce
qed

end
