(* ===== verification/BatchingQueue2.thy ===== *)
theory BatchingQueue2
  imports BatchingQueue_Correct GarbageCollector
begin

text \<open>
  \<open>CPPAFKBatchingQueue2<T>\<close> and \<open>CPPAFKBatchingQueue3<T>\<close> (CPPAFKThreadpool.hpp): the batching
  queues behind blocking calls. A batch whose last item was read is deferred: it stays in
  \<open>deferred\<close> until the session releases it. The first class hands out nothing while a batch is
  deferred (\<open>AFK_BC_WAIT_FOR_LAST\<close>), the second goes on with the next batch
  (\<open>AFK_BC_WAIT_FOR_FIRST\<close>).
\<close>

section \<open>State and operations\<close>

record 'a bqueue2 = "'a bqueue" +
  deferred :: "'a wrap_bq list"

definition new_bqueue2 :: "bool \<Rightarrow> 'a bqueue2" where
  "new_bqueue2 blkW = bqueue.extend (new_bqueue\<lparr>q_blockingW := blkW\<rparr>) \<lparr>deferred = []\<rparr>"

text \<open>
  \<open>pullDeferred\<close>: the inner declaration of \<open>t\<close> hides the outer one, so the pointer that is
  returned is null whatever was removed.
\<close>

definition bq2_pullDeferred :: "('a, 'z) bqueue2_scheme \<Rightarrow> 'a wrap_bq option \<times> ('a, 'z) bqueue2_scheme" where
  "bq2_pullDeferred q = (None, case deferred q of [] \<Rightarrow> q | w # ws \<Rightarrow> q\<lparr>deferred := ws\<rparr>)"

text \<open>\<open>flush\<close>: every deferred wrapper, marked as released and discarded, goes to the collector.\<close>

definition bq2_flush ::
  "'p gc \<Rightarrow> ('p option, 'z) bqueue2_scheme \<Rightarrow> 'p gc \<times> ('p option, 'z) bqueue2_scheme" where
  "bq2_flush g q =
     (fold gc_cast_wrapper
        (map (\<lambda>w. w\<lparr>w_condPredW := True, w_discarded := True\<rparr>) (deferred q)) g,
      q\<lparr>deferred := []\<rparr>)"

text \<open>
  The part of \<open>pullAndBatchStatus\<close> that both classes share: one item of the earliest batch; a
  batch that is exhausted is deferred in blocking mode and released otherwise. The results are
  the item (\<open>None\<close>: the default value of the item type) and whether it ended its batch.
\<close>

definition bq2_pull_front ::
  "('a, 'z) bqueue2_scheme \<Rightarrow> 'a option \<times> bool \<times> ('a, 'z) bqueue2_scheme" where
  "bq2_pull_front q =
     (case itsBQ q of
        [] \<Rightarrow> (None, False, q)
      | item # rest \<Rightarrow>
          (case w_many item of
             [] \<Rightarrow> (None, False, q)
           | subitem # others \<Rightarrow>
               (let item1 = item\<lparr>w_many := others\<rparr>; q1 = q\<lparr>netCount := netCount q - 1\<rparr>
                in if others = []
                   then (Some subitem, True,
                         if q_blockingW q
                         then q1\<lparr>itsBQ := rest, deferred := deferred q @ [item1]\<rparr>
                         else bq_sendToRelaxation (item1\<lparr>w_condPredW := True\<rparr>) (q1\<lparr>itsBQ := rest\<rparr>))
                   else (Some subitem, False, q1\<lparr>itsBQ := item1 # rest\<rparr>))))"

text \<open>
  The reference arguments \<open>endBatch\<close> and \<open>success\<close> are results: \<open>endBatch\<close> is cleared first,
  \<open>success\<close> keeps the caller's value unless an item is returned. \<open>CPPAFKBatchingQueue3\<close>
  never writes it.
\<close>

definition bq2_pullAndBatchStatus ::
  "bool \<Rightarrow> ('a, 'z) bqueue2_scheme \<Rightarrow> ('a option \<times> bool \<times> bool) \<times> ('a, 'z) bqueue2_scheme" where
  "bq2_pullAndBatchStatus success q =
     (if deferred q = []
      then (case bq2_pull_front q of
              (r, endBatch, q1) \<Rightarrow> ((r, endBatch, success \<or> r \<noteq> None), q1))
      else ((None, False, success), q))"

definition bq3_pullAndBatchStatus ::
  "bool \<Rightarrow> ('a, 'z) bqueue2_scheme \<Rightarrow> ('a option \<times> bool \<times> bool) \<times> ('a, 'z) bqueue2_scheme" where
  "bq3_pullAndBatchStatus success q =
     (case bq2_pull_front q of (r, endBatch, q1) \<Rightarrow> ((r, endBatch, success), q1))"

text \<open>\<open>castObject\<close> and \<open>castVector\<close>: both add 1 to the item counter.\<close>

definition bq2_castObject :: "'a \<Rightarrow> ('a, 'z) bqueue2_scheme \<Rightarrow> bool \<times> ('a, 'z) bqueue2_scheme" where
  "bq2_castObject item q = (True, push_wrap (new_wrap_bq\<lparr>w_many := [item]\<rparr>) 1 q)"

definition bq2_castVector :: "'a list \<Rightarrow> ('a, 'z) bqueue2_scheme \<Rightarrow> bool \<times> ('a, 'z) bqueue2_scheme" where
  "bq2_castVector items q = (True, push_wrap (new_wrap_bq\<lparr>w_many := items\<rparr>) 1 q)"

definition bq2_callObject :: "'a \<Rightarrow> ('a, 'z) bqueue2_scheme \<Rightarrow> bool \<times> ('a, 'z) bqueue2_scheme" where
  "bq2_callObject item q = (False, q)"

definition bq2_callVector :: "'a list \<Rightarrow> ('a, 'z) bqueue2_scheme \<Rightarrow> bool \<times> ('a, 'z) bqueue2_scheme" where
  "bq2_callVector items q = (False, q)"

definition bq2_releaseFirst :: "('a, 'z) bqueue2_scheme \<Rightarrow> ('a, 'z) bqueue2_scheme" where
  "bq2_releaseFirst q =
     (case deferred q of
        [] \<Rightarrow> q
      | w # ws \<Rightarrow> bq_sendToRelaxation (w\<lparr>w_condPredW := True\<rparr>) (q\<lparr>deferred := ws\<rparr>))"

text \<open>The override of \<open>CPPAFKBatchingQueue3\<close> takes its lock by a guard and does the same.\<close>

definition bq3_releaseFirst :: "('a, 'z) bqueue2_scheme \<Rightarrow> ('a, 'z) bqueue2_scheme" where
  "bq3_releaseFirst q =
     (if deferred q \<noteq> []
      then bq_sendToRelaxation ((hd (deferred q))\<lparr>w_condPredW := True\<rparr>)
             (q\<lparr>deferred := tl (deferred q)\<rparr>)
      else q)"

definition bq2_releaseAll :: "('a, 'z) bqueue2_scheme \<Rightarrow> ('a, 'z) bqueue2_scheme" where
  "bq2_releaseAll q =
     (fold (\<lambda>w. bq_sendToRelaxation (w\<lparr>w_condPredW := True\<rparr>)) (deferred q) q)\<lparr>deferred := []\<rparr>"

section \<open>Facts\<close>

lemma bq3_releaseFirst_eq: "bq3_releaseFirst q = bq2_releaseFirst q"
  by (cases "deferred q") (simp_all add: bq3_releaseFirst_def bq2_releaseFirst_def)

lemma fold_sendToRelaxation:
  "fold (\<lambda>w. bq_sendToRelaxation (w\<lparr>w_condPredW := True\<rparr>)) ws q =
     q\<lparr>itsRelaxingQ := itsRelaxingQ q @ map (\<lambda>w. w\<lparr>w_condPredW := True\<rparr>) ws\<rparr>"
  by (induction ws arbitrary: q) (simp_all add: bq_sendToRelaxation_def)

definition batches_ok :: "('a, 'z) bqueue2_scheme \<Rightarrow> bool" where
  "batches_ok q \<longleftrightarrow> (\<forall>w \<in> set (itsBQ q). w_many w \<noteq> [])"

lemma bq2_pull_front_cons:
  assumes "batches_ok q" and "itsBQ q = w # ws"
  obtains x xs q' where "w_many w = x # xs" and "bq2_pull_front q = (Some x, xs = [], q')"
    and "map w_many (itsBQ q') = (if xs = [] then [] else [xs]) @ map w_many ws"
    and "batches_ok q'" and "netCount q' = netCount q - 1" and "q_blockingW q' = q_blockingW q"
    and "deferred q' = deferred q @
           (if xs = [] \<and> q_blockingW q then [w\<lparr>w_many := []\<rparr>] else [])"
proof -
  from assms obtain x xs where m: "w_many w = x # xs"
    by (cases "w_many w") (auto simp: batches_ok_def)
  show thesis
    by (rule that [OF m, of "snd (snd (bq2_pull_front q))"])
      (use assms m in \<open>auto simp: bq2_pull_front_def Let_def batches_ok_def bq_sendToRelaxation_def\<close>)
qed

text \<open>
  Reading without deferral: the queue of the class in its non-blocking mode satisfies the
  contract of the pull loops, whatever its counter says.
\<close>

definition bq2_deq :: "('a, 'z) bqueue2_scheme \<Rightarrow> ('a option \<times> ('a, 'z) bqueue2_scheme) outcome" where
  "bq2_deq q = (case bq2_pullAndBatchStatus False q of ((r, _, _), q1) \<Rightarrow> Ret (r, q1))"

definition bq2_open :: "('a, 'z) bqueue2_scheme \<Rightarrow> bool" where
  "bq2_open q \<longleftrightarrow> batches_ok q \<and> deferred q = [] \<and> \<not> q_blockingW q"

interpretation b2d: drainable bq2_deq bq_contents bq2_open
proof (unfold_locales, goal_cases)
  case (1 q)
  then have "itsBQ q = []" by (auto simp: bq2_open_def batches_ok_def bq_contents_def)
  with 1 show ?case
    by (simp add: bq2_deq_def bq2_pullAndBatchStatus_def bq2_pull_front_def bq2_open_def)
next
  case (2 q x xs)
  then have ok: "batches_ok q" and d: "deferred q = []" "\<not> q_blockingW q"
    by (simp_all add: bq2_open_def)
  from 2(2) obtain w ws where w: "itsBQ q = w # ws"
    by (cases "itsBQ q") (auto simp: bq_contents_def)
  obtain y ys q' where q': "w_many w = y # ys" "bq2_pull_front q = (Some y, ys = [], q')"
    "map w_many (itsBQ q') = (if ys = [] then [] else [ys]) @ map w_many ws" "batches_ok q'"
    "netCount q' = netCount q - 1" "q_blockingW q' = q_blockingW q"
    "deferred q' = deferred q @ (if ys = [] \<and> q_blockingW q then [w\<lparr>w_many := []\<rparr>] else [])"
    by (rule bq2_pull_front_cons [OF ok w])
  moreover from 2(2) w q' have "y = x" "bq_contents q' = xs"
    by (auto simp: bq_contents_def split: if_splits)
  ultimately show ?case using d
    by (auto simp: bq2_open_def bq2_deq_def bq2_pullAndBatchStatus_def)
qed

section \<open>Properties\<close>

text \<open>
  C32: The wait-for-last protocol. In blocking mode the read of the last item of a batch ends the
  batch and defers it; from then on reads hand out nothing and change nothing, until
  \<open>releaseFirst\<close> moves the batch to the relaxation queue; the next read then gets the first
  item of the next batch.
\<close>

theorem bq2_wait_for_last:
  assumes "batches_ok q" and "q_blockingW q" and "deferred q = []"
    and "itsBQ q = w # v # ws" and "w_many w = [x]"
  shows "\<exists>q1 q2. bq2_pullAndBatchStatus False q = ((Some x, True, True), q1) \<and>
     bq2_pullAndBatchStatus False q1 = ((None, False, False), q1) \<and>
     bq2_releaseFirst q1 = q2 \<and> deferred q2 = [] \<and>
     length (itsRelaxingQ q2) = length (itsRelaxingQ q) + 1 \<and>
     fst (fst (bq2_pullAndBatchStatus False q2)) = Some (hd (w_many v))"
proof -
  from assms obtain y ys where v: "w_many v = y # ys" by (cases "w_many v") (auto simp: batches_ok_def)
  show ?thesis
    using assms v
    by (auto simp: bq2_pullAndBatchStatus_def bq2_pull_front_def bq2_releaseFirst_def Let_def
        bq_sendToRelaxation_def)
qed

theorem bq2_wait_for_last_witness:
  "\<exists>q1 q2. bq2_pullAndBatchStatus False
        (snd (bq2_castObject 8 (snd (bq2_castObject (7::nat) (new_bqueue2 True))))) =
        ((Some 7, True, True), q1) \<and>
     bq2_pullAndBatchStatus False q1 = ((None, False, False), q1) \<and>
     bq2_releaseFirst q1 = q2 \<and> fst (fst (bq2_pullAndBatchStatus False q2)) = Some 8"
proof -
  let ?q = "snd (bq2_castObject 8 (snd (bq2_castObject (7::nat) (new_bqueue2 True))))"
  have "batches_ok ?q" "q_blockingW ?q" "deferred ?q = []"
    "itsBQ ?q = new_wrap_bq\<lparr>w_many := [7]\<rparr> # new_wrap_bq\<lparr>w_many := [8]\<rparr> # []"
    by (simp_all add: bq2_castObject_def push_wrap_def new_bqueue2_def new_bqueue_def
        bq_reset_state_def bq_clearRelaxQ_def batches_ok_def bqueue.extend_def)
  with bq2_wait_for_last [of ?q "new_wrap_bq\<lparr>w_many := [7]\<rparr>" "new_wrap_bq\<lparr>w_many := [8]\<rparr>" "[]" 7]
  show ?thesis by auto
qed

text \<open>
  \<open>castVector\<close> counts a batch of any size as one item. All items of the batch can be read,
  in order; afterwards the size the queue reports is one minus their number, so it is negative
  for every batch of two items or more.
\<close>

lemma bq2_castVector_miscounts:
  assumes "xs \<noteq> []" and "length xs < 2 ^ 62"
  shows "\<exists>q. pull_all bq2_deq [] (snd (bq2_castVector xs (new_bqueue2 False))) = Some (xs, q) \<and>
     sint (fst (bq_size q)) = 1 - int (length xs)"
proof -
  have step: "bq2_open q \<Longrightarrow> bq_contents q = ys \<Longrightarrow> n = netCount q - size_of ys \<Longrightarrow>
      \<exists>q'. pull_all bq2_deq acc q = Some (acc @ ys, q') \<and> netCount q' = n"
    for q :: "'a bqueue2" and ys acc n
  proof (induction ys arbitrary: q acc)
    case Nil
    then have "itsBQ q = []" by (auto simp: bq2_open_def batches_ok_def bq_contents_def)
    with Nil show ?case
      by (subst pull_all.simps)
        (simp add: bq2_deq_def bq2_pullAndBatchStatus_def bq2_pull_front_def bq2_open_def)
  next
    case (Cons y ys)
    obtain q' where q': "bq2_deq q = Ret (Some y, q')" "bq2_open q'" "bq_contents q' = ys"
      using b2d.deq_cons [OF Cons.prems(1,2)] by blast
    have "netCount q' = netCount q - 1"
      using q'(1) Cons.prems(1)
      by (auto simp: bq2_deq_def bq2_pullAndBatchStatus_def bq2_pull_front_def bq2_open_def Let_def
          bq_sendToRelaxation_def split: list.splits if_splits)
    with Cons.prems(3) have "n = netCount q' - size_of ys" by (simp add: size_of_Cons)
    from Cons.IH [OF q'(2,3) this, of "acc @ [y]"] q'(1) show ?case
      by (subst pull_all.simps) simp
  qed
  let ?q = "snd (bq2_castVector xs (new_bqueue2 False))"
  have "bq2_open ?q" "bq_contents ?q = xs" "netCount ?q = 1"
    using assms(1)
    by (simp_all add: bq2_castVector_def push_wrap_def new_bqueue2_def new_bqueue_def
        bq_reset_state_def bq_clearRelaxQ_def batches_ok_def bq2_open_def bq_contents_def
        new_wrap_bq_def bqueue.extend_def)
  with step [of ?q xs "1 - size_of xs" "[]"] obtain q' where
    "pull_all bq2_deq [] ?q = Some (xs, q')" "netCount q' = 1 - size_of xs" by auto
  moreover have "sint (1 - size_of xs :: 64 word) = 1 - int (length xs)"
    using assms(2) by (simp add: sint_word_ariths sint_size_of signed_take_bit_int_eq_self)
  ultimately show ?thesis by (simp add: bq_size_def)
qed

text \<open>
  An empty vector blocks the queue for good: \<open>castVector\<close> accepts it, and from then on every
  read fails and changes nothing, however many batches stand behind it.
\<close>

lemma bq2_empty_batch_blocks:
  assumes "itsBQ q = []" and "deferred q = []"
  shows "fst (bq2_castVector [] q) \<and>
     bq2_deq (fold (\<lambda>xs q. snd (bq2_castVector xs q)) (xss :: 'a list list) (snd (bq2_castVector [] q))) =
       Ret (None, fold (\<lambda>xs q. snd (bq2_castVector xs q)) xss (snd (bq2_castVector [] q)))"
proof -
  have stuck: "itsBQ q' = new_wrap_bq # ws \<Longrightarrow> deferred q' = [] \<Longrightarrow>
      bq2_deq (fold (\<lambda>xs q. snd (bq2_castVector xs q)) xss q') =
        Ret (None, fold (\<lambda>xs q. snd (bq2_castVector xs q)) xss q')"
    for q' :: "('a, 'z) bqueue2_scheme" and ws
  proof (induction xss arbitrary: q' ws)
    case Nil
    then show ?case
      by (simp add: bq2_deq_def bq2_pullAndBatchStatus_def bq2_pull_front_def new_wrap_bq_def)
  next
    case (Cons xs xss)
    then show ?case by (simp add: bq2_castVector_def push_wrap_def)
  qed
  have "itsBQ (snd (bq2_castVector [] q)) = [new_wrap_bq]" "deferred (snd (bq2_castVector [] q)) = []"
    using assms by (simp_all add: bq2_castVector_def push_wrap_def new_wrap_bq_def)
  from stuck [OF this] show ?thesis by (simp add: bq2_castVector_def [of "[]"])
qed

text \<open>
  Emptying the deferred batches through \<open>pullDeferred\<close> never hands one over: each call
  removes the first of them and returns the null pointer, so the wrapper is lost; \<open>flush\<close>
  hands all of them to the collector, in order.
\<close>

lemma bq2_pullDeferred_loses:
  assumes "gc_open g" and "length (itsQ (wrapperCollection g)) + length (deferred q) < 2 ^ 63"
  shows "fst (bq2_pullDeferred q) = None \<and> deferred (snd (bq2_pullDeferred q)) = tl (deferred q) \<and>
     itsRelaxingQ (snd (bq2_pullDeferred q)) = itsRelaxingQ q \<and>
     deferred (snd (bq2_flush g q)) = [] \<and>
     map w_many (itsQ (wrapperCollection (fst (bq2_flush g q)))) =
       map w_many (itsQ (wrapperCollection g)) @ map w_many (deferred q)"
proof -
  have "wrapperCollection (fold gc_cast_wrapper ws g) =
      fold (\<lambda>x q. snd (queue_castObject x q)) ws (wrapperCollection g)" for ws
    by (induction ws arbitrary: g) (simp_all add: gc_cast_wrapper_def)
  with assms gcq.enq_all [of "wrapperCollection g"] show ?thesis
    by (simp add: bq2_pullDeferred_def bq2_flush_def gc_open_def queue_room_def comp_def
        split: list.split)
qed

end
