(* ===== verification/ThreadpoolQueue.thy ===== *)
theory ThreadpoolQueue
  imports BatchingQueue2
begin

text \<open>
  The queues a session keeps its data in: \<open>CPPAFKPriv_QStatusPacket\<close> and
  \<open>CPPAFKThreadpoolQueue\<close> (CPPAFKThreadpoolQueue.hpp), and \<open>CPPAFKThreadpoolQueueHyb\<close>
  (CPPAFKThreadpool.hpp), which routes data to a batching queue and remembers in \<open>qmapper\<close> how
  many items to read from which queue. A reader occupies the queue while items remain.
\<close>

section \<open>The status packet\<close>

record qstat =
  qs_empty :: bool
  qs_endbatch :: bool
  qs_called :: bool
  qs_validrv :: bool

definition new_qstat :: qstat where
  "new_qstat = \<lparr>qs_empty = False, qs_endbatch = False, qs_called = False, qs_validrv = False\<rparr>"

section \<open>The plain queue\<close>

text \<open>
  No constructor sets \<open>occupant\<close>: a new queue has whatever the memory held (\<open>occ\<close>).
\<close>

record 'p tqueue = "'p option queue" +
  deqIndexes :: "i64 list"
  occupant :: i64

definition new_tqueue :: "i64 \<Rightarrow> 'p tqueue" where
  "new_tqueue occ = queue.extend new_queue \<lparr>deqIndexes = [], occupant = occ\<rparr>"

definition occupied_by_other :: "i64 \<Rightarrow> ('p, 'z) tqueue_scheme \<Rightarrow> bool" where
  "occupied_by_other itsid q \<longleftrightarrow> 0 \<le> sint (occupant q) \<and> occupant q \<noteq> itsid"

definition tq_pullAndOccupyWithId ::
  "i64 \<Rightarrow> qstat \<Rightarrow> ('p, 'z) tqueue_scheme \<Rightarrow>
   (('p option \<times> i64 \<times> qstat) \<times> ('p, 'z) tqueue_scheme) outcome" where
  "tq_pullAndOccupyWithId itsid st q =
     (if occupied_by_other itsid q
      then Ret ((None, - 1, st\<lparr>qs_empty := itsQ q = [], qs_validrv := False\<rparr>), q)
      else case itsQ q of
        [] \<Rightarrow> Ret ((None, - 1, st\<lparr>qs_empty := True\<rparr>), q\<lparr>occupant := - 1\<rparr>)
      | item # rest \<Rightarrow>
          (case deqIndexes q of
             [] \<Rightarrow> Fault Front_of_empty
           | i # is \<Rightarrow>
               Ret ((item, i, st\<lparr>qs_validrv := True, qs_empty := rest = []\<rparr>),
                    q\<lparr>deqIndexes := is, itsQ := rest,
                      occupant := if rest = [] then - 1 else itsid\<rparr>)))"

text \<open>\<open>pull\<close>: success means that the pointer returned is not null.\<close>

definition tq_pull ::
  "('p, 'z) tqueue_scheme \<Rightarrow> ('p option \<times> ('p, 'z) tqueue_scheme) outcome" where
  "tq_pull q = obind (tq_pullAndOccupyWithId (- 1) new_qstat q) (\<lambda>((t, _, _), q'). Ret (t, q'))"

definition tq_unoccupyWithId :: "i64 \<Rightarrow> ('p, 'z) tqueue_scheme \<Rightarrow> ('p, 'z) tqueue_scheme" where
  "tq_unoccupyWithId itsid q = (if occupant q = itsid then q\<lparr>occupant := - 1\<rparr> else q)"

definition tq_unoccupy :: "('p, 'z) tqueue_scheme \<Rightarrow> ('p, 'z) tqueue_scheme" where
  "tq_unoccupy q = q\<lparr>occupant := - 1\<rparr>"

text \<open>This \<open>castObject\<close> does not look at the limits of the queue.\<close>

definition tq_castObject ::
  "'p option \<Rightarrow> i64 \<Rightarrow> ('p, 'z) tqueue_scheme \<Rightarrow> bool \<times> ('p, 'z) tqueue_scheme" where
  "tq_castObject item index q =
     (True, q\<lparr>deqIndexes := deqIndexes q @ [index], itsQ := itsQ q @ [item]\<rparr>)"

definition tq_callObject ::
  "'p option \<Rightarrow> i64 \<Rightarrow> ('p, 'z) tqueue_scheme \<Rightarrow> bool \<times> ('p, 'z) tqueue_scheme" where
  "tq_callObject item index q = (False, q)"

text \<open>\<open>castVector\<close> stores an index for every item and then the base class refuses the items.\<close>

definition tq_castVector ::
  "'p option list \<Rightarrow> i64 \<Rightarrow> ('p, 'z) tqueue_scheme \<Rightarrow> bool \<times> ('p, 'z) tqueue_scheme" where
  "tq_castVector items index q =
     queue_castVector items (q\<lparr>deqIndexes := deqIndexes q @ map word_of_nat [0..<length items]\<rparr>)"

definition tq_callVector ::
  "'p option list \<Rightarrow> i64 \<Rightarrow> ('p, 'z) tqueue_scheme \<Rightarrow> bool \<times> ('p, 'z) tqueue_scheme" where
  "tq_callVector items index q = (False, q)"

definition tq_reset :: "('p, 'z) tqueue_scheme \<Rightarrow> ('p, 'z) tqueue_scheme" where
  "tq_reset q = (queue_reset q)\<lparr>deqIndexes := []\<rparr>"

section \<open>The hybrid queue\<close>

datatype eQSpecificity = ASFK_E_QSPEC_NONE | ASFK_E_QSPEC_REG | ASFK_E_QSPEC_BAT

datatype blocking_mode = AFK_BC_NO_BLOCK | AFK_BC_WAIT_FOR_FIRST | AFK_BC_WAIT_FOR_LAST

text \<open>
  \<open>blkQ\<close> is a pointer to \<open>CPPAFKBatchingQueue2\<close> that may point to a \<open>CPPAFKBatchingQueue3\<close>:
  the constructor says which. Only \<open>releaseFirst\<close> is dispatched on it; \<open>pullAndBatchStatus\<close> is
  not virtual, so the one of the static type runs.
\<close>

datatype 'p blk_queue = Batching2 "'p option bqueue2" | Batching3 "'p option bqueue2"

fun blk_inner :: "'p blk_queue \<Rightarrow> 'p option bqueue2" where
  "blk_inner (Batching2 q) = q"
| "blk_inner (Batching3 q) = q"

fun blk_put :: "'p option bqueue2 \<Rightarrow> 'p blk_queue \<Rightarrow> 'p blk_queue" where
  "blk_put q (Batching2 _) = Batching2 q"
| "blk_put q (Batching3 _) = Batching3 q"

fun blk_releaseFirst :: "'p blk_queue \<Rightarrow> 'p blk_queue" where
  "blk_releaseFirst (Batching2 q) = Batching2 (bq2_releaseFirst q)"
| "blk_releaseFirst (Batching3 q) = Batching3 (bq3_releaseFirst q)"

record 'p hyb = "'p tqueue" +
  qmapper :: "(eQSpecificity \<times> i64) list"
  lastItem :: eQSpecificity
  blkQ :: "'p blk_queue option"
  regQ :: "'p option bqueue"

text \<open>The constructor; \<open>occ\<close> is the indeterminate value of the inherited \<open>occupant\<close>.\<close>

definition new_hyb :: "i64 \<Rightarrow> blocking_mode \<Rightarrow> 'p hyb" where
  "new_hyb occ blockingMode =
     tqueue.extend ((new_tqueue occ)\<lparr>q_blockingW := blockingMode \<noteq> AFK_BC_NO_BLOCK\<rparr>)
       \<lparr>qmapper = [], lastItem = ASFK_E_QSPEC_NONE,
        blkQ = (case blockingMode of
                  AFK_BC_WAIT_FOR_LAST \<Rightarrow> Some (Batching2 (new_bqueue2 True))
                | AFK_BC_WAIT_FOR_FIRST \<Rightarrow> Some (Batching3 (new_bqueue2 True))
                | AFK_BC_NO_BLOCK \<Rightarrow> None),
        regQ = new_bqueue\<rparr>"

definition hyb_getResidual :: "'p hyb \<Rightarrow> 'p option wrap_bq option \<times> 'p hyb" where
  "hyb_getResidual h =
     (case blkQ h of
        None \<Rightarrow> (None, h)
      | Some b \<Rightarrow> (case bq2_pullDeferred (blk_inner b) of (t, q) \<Rightarrow> (t, h\<lparr>blkQ := Some (blk_put q b)\<rparr>)))"

definition hyb_releaseBlocked :: "'p hyb \<Rightarrow> 'p hyb" where
  "hyb_releaseBlocked h = h\<lparr>blkQ := map_option blk_releaseFirst (blkQ h)\<rparr>"

definition hyb_releaseBlockedAll :: "'p hyb \<Rightarrow> 'p hyb" where
  "hyb_releaseBlockedAll h =
     h\<lparr>blkQ := map_option (\<lambda>b. blk_put (bq2_releaseAll (blk_inner b)) b) (blkQ h)\<rparr>"

text \<open>\<open>_size\<close>: reading a size also gives each queue a turn of its relaxation queue.\<close>

definition hyb_size_raw :: "'p hyb \<Rightarrow> i64 \<times> 'p hyb" where
  "hyb_size_raw h =
     (let (r0, h1) =
            (case blkQ h of
               None \<Rightarrow> (0, h)
             | Some b \<Rightarrow> (case bq_size (blk_inner b) of (n, q) \<Rightarrow> (n, h\<lparr>blkQ := Some (blk_put q b)\<rparr>)));
          (r1, q1) = bq_size (regQ h1)
      in (r1 + r0, h1\<lparr>regQ := q1\<rparr>))"

definition hyb_size :: "'p hyb \<Rightarrow> i64 \<times> 'p hyb" where
  "hyb_size h = hyb_size_raw h"

definition hyb_castObject :: "'p option \<Rightarrow> i64 \<Rightarrow> 'p hyb \<Rightarrow> bool \<times> 'p hyb" where
  "hyb_castObject item index h =
     (True, h\<lparr>deqIndexes := deqIndexes h @ [index], qmapper := qmapper h @ [(ASFK_E_QSPEC_REG, 1)],
              regQ := snd (bq_castObject item (regQ h))\<rparr>)"

definition hyb_castVector :: "'p option list \<Rightarrow> i64 \<Rightarrow> 'p hyb \<Rightarrow> bool \<times> 'p hyb" where
  "hyb_castVector items index h =
     (if items \<noteq> []
      then (True, h\<lparr>qmapper := qmapper h @ [(ASFK_E_QSPEC_REG, size_of items)],
                    regQ := snd (bq_castVector items (regQ h))\<rparr>)
      else (True, h))"

definition hyb_callObject :: "'p option \<Rightarrow> i64 \<Rightarrow> 'p hyb \<Rightarrow> bool \<times> 'p hyb" where
  "hyb_callObject item index h = (False, h)"

definition hyb_callVector :: "'p option list \<Rightarrow> i64 \<Rightarrow> 'p hyb \<Rightarrow> bool \<times> 'p hyb" where
  "hyb_callVector items index h = (False, h)"

text \<open>
  After a successful read, the count of the first entry of \<open>qmapper\<close> goes down by one and the
  entry goes away when no count is left.
\<close>

definition qmapper_consume :: "eQSpecificity \<Rightarrow> i64 \<Rightarrow> 'p hyb \<Rightarrow> 'p hyb" where
  "qmapper_consume spec n h =
     (if sint (n - 1) > 0 then h\<lparr>qmapper := (spec, n - 1) # tl (qmapper h)\<rparr>
      else h\<lparr>qmapper := tl (qmapper h)\<rparr>)"

text \<open>The two ways to get an item for a non-empty \<open>qmapper\<close>: from the regular queue \<dots>\<close>

definition hyb_pull_reg ::
  "i64 \<Rightarrow> qstat \<Rightarrow> 'p hyb \<Rightarrow> (('p option \<times> i64 \<times> qstat) \<times> 'p hyb) outcome" where
  "hyb_pull_reg n st h =
     (let h1 = h\<lparr>lastItem := ASFK_E_QSPEC_REG\<rparr>; (sz, q0) = bq_size (regQ h1); h2 = h1\<lparr>regQ := q0\<rparr>
      in if sint sz > 0
         then obind (bq_pull (regQ h2)) (\<lambda>(r, q1).
                case r of
                  None \<Rightarrow> Ret ((None, - 1, st), h2\<lparr>regQ := q1\<rparr>)
                | Some item \<Rightarrow>
                    Ret ((item, n, st\<lparr>qs_validrv := True\<rparr>),
                         qmapper_consume ASFK_E_QSPEC_REG n (h2\<lparr>regQ := q1\<rparr>)))
         else Ret ((None, - 1, st), h2))"

text \<open>\<dots> and from the queue of blocking calls, if there is one.\<close>

definition hyb_pull_blk ::
  "eQSpecificity \<Rightarrow> i64 \<Rightarrow> qstat \<Rightarrow> 'p hyb \<Rightarrow> ('p option \<times> i64 \<times> qstat) \<times> 'p hyb" where
  "hyb_pull_blk spec n st h =
     (case blkQ h of
        None \<Rightarrow> ((None, - 1, st), h)
      | Some b \<Rightarrow>
          (case bq2_pullAndBatchStatus False (blk_inner b) of
             ((r, endb, success), q) \<Rightarrow>
               (let h1 = h\<lparr>lastItem := ASFK_E_QSPEC_BAT, blkQ := Some (blk_put q b)\<rparr>;
                    item = (case r of None \<Rightarrow> None | Some p \<Rightarrow> p)
                in if success
                   then ((item, n, st\<lparr>qs_validrv := True, qs_called := True, qs_endbatch := endb\<rparr>),
                         qmapper_consume spec n h1)
                   else ((item, - 1, st\<lparr>qs_endbatch := endb\<rparr>), h1))))"

text \<open>The occupancy is settled after the read.\<close>

definition hyb_settle ::
  "i64 \<Rightarrow> ('p option \<times> i64 \<times> qstat) \<times> 'p hyb \<Rightarrow> ('p option \<times> i64 \<times> qstat) \<times> 'p hyb" where
  "hyb_settle itsid r =
     (case r of ((item, i, st), h) \<Rightarrow>
        if qs_validrv st
        then (let (left, h1) = hyb_size_raw h
              in if sint left > 0
                 then ((item, i, st\<lparr>qs_empty := False\<rparr>), h1\<lparr>occupant := itsid\<rparr>)
                 else ((item, i, st\<lparr>qs_empty := True, qs_endbatch := True\<rparr>), h1\<lparr>occupant := - 1\<rparr>))
        else ((item, i, st\<lparr>qs_empty := True, qs_endbatch := True\<rparr>), h\<lparr>occupant := - 1\<rparr>))"

definition hyb_pullAndOccupyWithId ::
  "i64 \<Rightarrow> qstat \<Rightarrow> 'p hyb \<Rightarrow> (('p option \<times> i64 \<times> qstat) \<times> 'p hyb) outcome" where
  "hyb_pullAndOccupyWithId itsid st0 h =
     (let st = st0\<lparr>qs_endbatch := False, qs_validrv := False\<rparr>
      in if occupied_by_other itsid h
         then (let (n, h1) = hyb_size_raw h
               in Ret ((None, - 1, st\<lparr>qs_empty := \<not> sint n > 0\<rparr>), h1))
         else case qmapper h of
                [] \<Rightarrow> Ret ((None, - 1, st\<lparr>qs_empty := True, qs_endbatch := True\<rparr>),
                           h\<lparr>lastItem := ASFK_E_QSPEC_NONE\<rparr>)
              | (spec, n) # _ \<Rightarrow>
                  if spec = ASFK_E_QSPEC_REG
                  then obind (hyb_pull_reg n st h) (\<lambda>r. Ret (hyb_settle itsid r))
                  else Ret (hyb_settle itsid (hyb_pull_blk spec n st h)))"

text \<open>\<open>pull\<close> is inherited from \<open>CPPAFKThreadpoolQueue\<close> and calls the override above.\<close>

definition hyb_pull :: "'p hyb \<Rightarrow> ('p option \<times> 'p hyb) outcome" where
  "hyb_pull h = obind (hyb_pullAndOccupyWithId (- 1) new_qstat h) (\<lambda>((t, _, _), h'). Ret (t, h'))"

text \<open>\<open>reset\<close> is inherited; the \<open>_reset\<close> it calls is the override, which keeps the data.\<close>

definition hyb_reset :: "'p hyb \<Rightarrow> 'p hyb" where
  "hyb_reset h = (hyb_releaseBlockedAll h)\<lparr>deqIndexes := []\<rparr>"

text \<open>
  The destructor resets both inner queues and deletes them, then the base class destructor
  runs; what was queued is dropped. The result says whether it runs through.
\<close>

definition hyb_destroy :: "'p hyb \<Rightarrow> unit outcome" where
  "hyb_destroy h =
     obind (case blkQ h of None \<Rightarrow> Ret () | Some b \<Rightarrow> obind (bq_reset (blk_inner b)) (\<lambda>_. Ret ()))
       (\<lambda>_. obind (bq_reset (regQ h)) (\<lambda>_. Ret ()))"

end
