(* ===== verification/ThreadpoolQueue_Correct.thy ===== *)
theory ThreadpoolQueue_Correct
  imports ThreadpoolQueue
begin

text \<open>
  The session queues hand out what was put into them, in order: the invariant between
  \<open>qmapper\<close> and the queues behind it, the exact behaviour of \<open>pullAndOccupyWithId\<close>, and the
  contract of the pull loops for both queues.
\<close>

section \<open>The plain queue\<close>

definition tq_open :: "('p, 'z) tqueue_scheme \<Rightarrow> bool" where
  "tq_open q \<longleftrightarrow> (\<forall>p \<in> set (itsQ q). p \<noteq> None) \<and> length (itsQ q) \<le> length (deqIndexes q) \<and>
     sint (occupant q) < 0"

definition tq_contents :: "('p, 'z) tqueue_scheme \<Rightarrow> 'p list" where
  "tq_contents q = map the (itsQ q)"

lemma not_occupied: "sint (occupant q) < 0 \<Longrightarrow> \<not> occupied_by_other i q"
  by (simp add: occupied_by_other_def)

definition tq_ok :: "('p, 'z) tqueue_scheme \<Rightarrow> bool" where
  "tq_ok q \<longleftrightarrow> length (itsQ q) \<le> length (deqIndexes q) \<and> sint (occupant q) < 0"

lemma tq_open_ok: "tq_open q \<longleftrightarrow> tq_ok q \<and> (\<forall>p \<in> set (itsQ q). p \<noteq> None)"
  by (auto simp: tq_open_def tq_ok_def)

interpretation tqp: pointer_queue tq_pull itsQ tq_ok
proof (unfold_locales, goal_cases)
  case (1 q)
  then show ?case
    by (simp add: tq_pull_def tq_pullAndOccupyWithId_def not_occupied tq_ok_def)
next
  case (2 q x xs)
  then obtain i rest where "deqIndexes q = i # rest"
    by (cases "deqIndexes q") (auto simp: tq_ok_def)
  with 2 show ?case
    by (simp add: tq_pull_def tq_pullAndOccupyWithId_def not_occupied tq_ok_def)
qed

interpretation tqf: fifo tq_pull tq_contents tq_open "\<lambda>p q. snd (tq_castObject (Some p) 0 q)" "\<lambda>_ _. True"
  unfolding tq_contents_def tq_open_ok
  by unfold_locales (auto simp: tq_castObject_def tq_ok_def)

section \<open>The hybrid queue: invariant\<close>

definition hyb_data :: "'p hyb \<Rightarrow> 'p option list" where
  "hyb_data h = bq_contents (regQ h)"

text \<open>
  The queue of blocking calls holds nothing: the operations that would fill it are not available
  in this version.
\<close>

lemma blk_inner_put [simp]: "blk_inner (blk_put q b) = q"
  by (cases b) simp_all

definition blk_idle :: "'p hyb \<Rightarrow> bool" where
  "blk_idle h \<longleftrightarrow>
     (\<forall>b. blkQ h = Some b \<longrightarrow>
        netCount (blk_inner b) = 0 \<and> itsBQ (blk_inner b) = [] \<and> deferred (blk_inner b) = [])"

definition qm_total :: "(eQSpecificity \<times> i64) list \<Rightarrow> int" where
  "qm_total ms = sum_list (map (\<lambda>(s, n). sint n) ms)"

text \<open>
  All entries of \<open>qmapper\<close> point to the regular queue with a positive count, and together they
  promise at least as many items as there are.
\<close>

definition hyb_inv :: "'p hyb \<Rightarrow> bool" where
  "hyb_inv h \<longleftrightarrow> bq_open (regQ h) \<and> blk_idle h \<and>
     (\<forall>(s, n) \<in> set (qmapper h). s = ASFK_E_QSPEC_REG \<and> 0 < sint n) \<and>
     int (length (hyb_data h)) \<le> qm_total (qmapper h)"

lemma bq_open_clear [simp]: "bq_open (bq_clearRelaxQ q) \<longleftrightarrow> bq_open q"
  by (simp add: bq_open_def)

lemma hyb_size_raw_eq:
  assumes "hyb_inv h"
  obtains h1 where "hyb_size_raw h = (netCount (regQ h), h1)" and "hyb_inv h1"
    and "hyb_data h1 = hyb_data h" and "qmapper h1 = qmapper h" and "occupant h1 = occupant h"
proof -
  define h1 where "h1 = h\<lparr>blkQ := map_option (\<lambda>b. blk_put (bq_clearRelaxQ (blk_inner b)) b) (blkQ h),
      regQ := bq_clearRelaxQ (regQ h)\<rparr>"
  have raw: "hyb_size_raw h = (netCount (regQ h), h1)"
    using assms
    by (cases h)
      (auto simp: hyb_size_raw_def bq_size_def Let_def hyb_inv_def blk_idle_def h1_def
        split: option.splits)
  have "blk_idle h1"
    using assms by (auto simp: hyb_inv_def blk_idle_def h1_def bq_clearRelaxQ_def)
  with that [OF raw] assms show thesis
    by (simp add: hyb_inv_def hyb_data_def h1_def)
qed

lemma hyb_inv_sizes:
  "hyb_inv h \<Longrightarrow> sint (netCount (regQ h)) = int (length (hyb_data h))"
  by (simp add: hyb_inv_def bq_open_def hyb_data_def bq_inv_netCount)

lemma hyb_inv_new: "hyb_inv (new_hyb occ mode)"
  by (cases mode)
    (simp_all add: new_hyb_def hyb_inv_def blk_idle_def hyb_data_def bq_contents_def qm_total_def
      tqueue.extend_def new_tqueue_def queue.extend_def new_bqueue2_def bqueue.extend_def
      new_bqueue_def bq_reset_state_def bq_clearRelaxQ_def bq_open_def bq_inv_def bq_items_def
      new_wrap_bq_def)

lemma hyb_data_new [simp]: "hyb_data (new_hyb occ mode) = []"
  by (simp add: new_hyb_def hyb_data_def bq_contents_def tqueue.extend_def
      new_bqueue_def bq_reset_state_def bq_clearRelaxQ_def)

text \<open>A queue in order can be destroyed: no lock is taken twice.\<close>

lemma bq_purge_runs: "\<not> q_blockingW q \<or> itsBQ q = [] \<Longrightarrow> \<exists>q'. bq_purge q = Ret q'"
  by (auto simp: bq_purge_def Let_def)

lemma hyb_destroy_runs:
  assumes "hyb_inv h"
  shows "hyb_destroy (hyb_reset h) = Ret ()"
proof -
  obtain q where q: "bq_reset (regQ h) = Ret q"
    using assms bq_purge_runs [of "regQ h"] by (auto simp: hyb_inv_def bq_open_def bq_reset_def)
  have "\<exists>q. bq_reset (blk_inner b) = Ret q" if "blkQ (hyb_reset h) = Some b" for b
  proof -
    from that assms have "itsBQ (blk_inner b) = []"
      by (auto simp: hyb_reset_def hyb_releaseBlockedAll_def hyb_inv_def blk_idle_def
          bq2_releaseAll_def)
    then show ?thesis using bq_purge_runs [of "blk_inner b"] by (auto simp: bq_reset_def)
  qed
  then show ?thesis using q
    by (cases "blkQ (hyb_reset h)")
      (auto simp: hyb_destroy_def hyb_reset_def hyb_releaseBlockedAll_def)
qed

text \<open>Operations that touch neither the data nor the map keep the invariant.\<close>

lemma hyb_inv_frame [simp]:
  "hyb_inv (h\<lparr>occupant := i\<rparr>) = hyb_inv h" "hyb_inv (h\<lparr>lastItem := l\<rparr>) = hyb_inv h"
  "hyb_data (h\<lparr>occupant := i\<rparr>) = hyb_data h" "hyb_data (h\<lparr>lastItem := l\<rparr>) = hyb_data h"
  by (simp_all add: hyb_inv_def hyb_data_def blk_idle_def)

lemma hyb_unoccupy_inv [simp]:
  "hyb_inv (tq_unoccupy h) = hyb_inv h" "hyb_data (tq_unoccupy h) = hyb_data h"
  "occupant (tq_unoccupy h) = - 1"
  by (simp_all add: tq_unoccupy_def)

definition hyb_room :: "nat \<Rightarrow> 'p hyb \<Rightarrow> bool" where
  "hyb_room n h \<longleftrightarrow> bq_room n (regQ h)"

lemma hyb_castObject_inv:
  assumes "hyb_inv h" and "hyb_room 1 h"
  shows "hyb_inv (snd (hyb_castObject p i h))"
    and "hyb_data (snd (hyb_castObject p i h)) = hyb_data h @ [p]"
    and "occupant (snd (hyb_castObject p i h)) = occupant h"
proof -
  from assms have o: "bq_open (regQ h)" "bq_room (Suc 0) (regQ h)"
    by (simp_all add: hyb_inv_def hyb_room_def)
  show "hyb_data (snd (hyb_castObject p i h)) = hyb_data h @ [p]"
    using bqf.enq_contents [OF o] by (simp add: hyb_castObject_def hyb_data_def)
  then show "hyb_inv (snd (hyb_castObject p i h))"
    using assms bqf.enq_inv [OF o, of p]
    by (auto simp: hyb_inv_def hyb_castObject_def blk_idle_def qm_total_def)
  show "occupant (snd (hyb_castObject p i h)) = occupant h" by (simp add: hyb_castObject_def)
qed

lemma hyb_castVector_inv:
  assumes "hyb_inv h" and "length items < 2 ^ 63"
  shows "hyb_inv (snd (hyb_castVector items i h))"
    and "hyb_data (snd (hyb_castVector items i h)) = hyb_data h"
  using assms sint_size_of [of items]
  by (auto simp: hyb_castVector_def bq_castVector_def hyb_inv_def hyb_data_def blk_idle_def
      qm_total_def)

section \<open>Reading\<close>

lemma qmapper_consume_inv:
  assumes "bq_open (regQ h)" and "blk_idle h" and "qmapper h = (ASFK_E_QSPEC_REG, n) # ms"
    and "\<forall>(s, n) \<in> set (qmapper h). s = ASFK_E_QSPEC_REG \<and> 0 < sint n"
    and "int (length (hyb_data h)) + 1 \<le> qm_total (qmapper h)"
  shows "hyb_inv (qmapper_consume ASFK_E_QSPEC_REG n h)"
proof -
  have "0 < sint n" using assms(3,4) by auto
  then have "sint (n - 1) = sint n - 1" by (simp add: sint64_dec)
  with assms show ?thesis
    by (auto simp: qmapper_consume_def hyb_inv_def blk_idle_def hyb_data_def qm_total_def)
qed

lemma qmapper_consume_frame [simp]:
  "hyb_data (qmapper_consume s n h) = hyb_data h" "occupant (qmapper_consume s n h) = occupant h"
  "regQ (qmapper_consume s n h) = regQ h"
  by (simp_all add: qmapper_consume_def hyb_data_def)

lemma hyb_pull_reg_cons:
  assumes inv: "hyb_inv h" and d: "hyb_data h = x # xs"
    and m: "qmapper h = (ASFK_E_QSPEC_REG, n) # ms"
  shows "\<exists>h'. hyb_pull_reg n st h = Ret ((x, n, st\<lparr>qs_validrv := True\<rparr>), h') \<and> hyb_inv h' \<and>
           hyb_data h' = xs"
proof -
  have o: "bq_open (bq_clearRelaxQ (regQ h))" "bq_contents (bq_clearRelaxQ (regQ h)) = x # xs"
    using inv d by (simp_all add: hyb_inv_def hyb_data_def)
  from bqf.deq_cons [OF o] obtain q' where q':
    "bq_pull (bq_clearRelaxQ (regQ h)) = Ret (Some x, q')" "bq_open q'" "bq_contents q' = xs" by blast
  have pos: "0 < sint (netCount (regQ h))" using hyb_inv_sizes [OF inv] d by simp
  define h1 where "h1 = h\<lparr>lastItem := ASFK_E_QSPEC_REG, regQ := q'\<rparr>"
  have "hyb_inv (qmapper_consume ASFK_E_QSPEC_REG n h1)"
    using inv d m q' by (intro qmapper_consume_inv [where ms = ms])
      (auto simp: h1_def hyb_inv_def blk_idle_def hyb_data_def)
  then show ?thesis
    using q' pos
    by (auto simp: hyb_pull_reg_def bq_size_def Let_def h1_def hyb_data_def
        intro!: exI [of _ "qmapper_consume ASFK_E_QSPEC_REG n h1"])
qed

lemma hyb_pull_reg_empty:
  assumes inv: "hyb_inv h" and d: "hyb_data h = []"
  shows "\<exists>h'. hyb_pull_reg n st h = Ret ((None, - 1, st), h') \<and> hyb_inv h' \<and> hyb_data h' = []"
  using hyb_inv_sizes [OF inv] assms
  by (auto simp: hyb_pull_reg_def bq_size_def Let_def hyb_inv_def hyb_data_def blk_idle_def)

text \<open>Reading from a queue that another reader does not occupy.\<close>

lemma hyb_pullAndOccupy_cons:
  assumes inv: "hyb_inv h" and free: "\<not> occupied_by_other itsid h" and d: "hyb_data h = x # xs"
  shows "\<exists>i h'. hyb_pullAndOccupyWithId itsid st h =
           Ret ((x, i, st\<lparr>qs_validrv := True, qs_empty := xs = [], qs_endbatch := xs = []\<rparr>), h') \<and>
         hyb_inv h' \<and> hyb_data h' = xs \<and> occupant h' = (if xs = [] then - 1 else itsid)"
proof -
  from inv d obtain s n ms where m: "qmapper h = (s, n) # ms"
    by (cases "qmapper h") (auto simp: hyb_inv_def qm_total_def)
  with inv have s: "s = ASFK_E_QSPEC_REG" by (auto simp: hyb_inv_def)
  obtain h1 where h1: "hyb_pull_reg n (st\<lparr>qs_endbatch := False, qs_validrv := False\<rparr>) h =
      Ret ((x, n, st\<lparr>qs_endbatch := False, qs_validrv := True\<rparr>), h1)" "hyb_inv h1" "hyb_data h1 = xs"
    using hyb_pull_reg_cons [OF inv d m [unfolded s], of "st\<lparr>qs_endbatch := False, qs_validrv := False\<rparr>"]
    by auto
  obtain h2 where h2: "hyb_size_raw h1 = (netCount (regQ h1), h2)" "hyb_inv h2" "hyb_data h2 = xs"
    using hyb_size_raw_eq [OF h1(2)] h1(3) by metis
  have "sint (netCount (regQ h1)) = int (length xs)" using hyb_inv_sizes [OF h1(2)] h1(3) by simp
  with free m s h1 h2 show ?thesis
    by (auto simp: hyb_pullAndOccupyWithId_def Let_def hyb_settle_def)
qed

lemma hyb_pullAndOccupy_empty:
  assumes inv: "hyb_inv h" and free: "\<not> occupied_by_other itsid h" and d: "hyb_data h = []"
  shows "\<exists>h'. hyb_pullAndOccupyWithId itsid st h =
           Ret ((None, - 1, st\<lparr>qs_validrv := False, qs_empty := True, qs_endbatch := True\<rparr>), h') \<and>
         hyb_inv h' \<and> hyb_data h' = [] \<and> occupant h' \<in> {occupant h, - 1}"
proof (cases "qmapper h")
  case Nil
  with assms show ?thesis by (simp add: hyb_pullAndOccupyWithId_def Let_def)
next
  case (Cons e ms)
  with inv obtain n where e: "e = (ASFK_E_QSPEC_REG, n)" by (cases e) (auto simp: hyb_inv_def)
  obtain h' where "hyb_pull_reg n (st\<lparr>qs_endbatch := False, qs_validrv := False\<rparr>) h =
      Ret ((None, - 1, st\<lparr>qs_endbatch := False, qs_validrv := False\<rparr>), h')" "hyb_inv h'"
    "hyb_data h' = []"
    using hyb_pull_reg_empty [OF inv d] by blast
  then show ?thesis using free Cons e by (simp add: hyb_pullAndOccupyWithId_def Let_def hyb_settle_def)
qed

lemma hyb_pullAndOccupy_busy:
  assumes inv: "hyb_inv h" and occ: "occupied_by_other itsid h"
  shows "\<exists>h'. hyb_pullAndOccupyWithId itsid st h =
           Ret ((None, - 1, st\<lparr>qs_validrv := False, qs_empty := hyb_data h = [], qs_endbatch := False\<rparr>), h') \<and>
         hyb_inv h' \<and> hyb_data h' = hyb_data h \<and> occupant h' = occupant h"
proof -
  obtain h1 where h1: "hyb_size_raw h = (netCount (regQ h), h1)" "hyb_inv h1"
    "hyb_data h1 = hyb_data h" "occupant h1 = occupant h"
    using hyb_size_raw_eq [OF inv] by metis
  with occ hyb_inv_sizes [OF inv] show ?thesis
    by (auto simp: hyb_pullAndOccupyWithId_def Let_def)
qed

section \<open>The hybrid queue drains in order\<close>

definition hyb_open :: "'p hyb \<Rightarrow> bool" where
  "hyb_open h \<longleftrightarrow> hyb_inv h \<and> sint (occupant h) < 0 \<and> (\<forall>p \<in> set (hyb_data h). p \<noteq> None)"

definition hyb_contents :: "'p hyb \<Rightarrow> 'p list" where
  "hyb_contents h = map the (hyb_data h)"

definition hyb_free :: "'p hyb \<Rightarrow> bool" where
  "hyb_free h \<longleftrightarrow> hyb_inv h \<and> sint (occupant h) < 0"

lemma hyb_open_free: "hyb_open h \<longleftrightarrow> hyb_free h \<and> (\<forall>p \<in> set (hyb_data h). p \<noteq> None)"
  by (auto simp: hyb_open_def hyb_free_def)

interpretation hybp: pointer_queue hyb_pull hyb_data hyb_free
proof (unfold_locales, goal_cases)
  case (1 h)
  then show ?case
    using hyb_pullAndOccupy_empty [of h "- 1" new_qstat]
    by (auto simp: hyb_pull_def hyb_free_def not_occupied)
next
  case (2 h x xs)
  then show ?case
    using hyb_pullAndOccupy_cons [of h "- 1" x xs new_qstat]
    by (auto simp: hyb_pull_def hyb_free_def not_occupied split: if_splits)
qed

interpretation hybf: fifo hyb_pull hyb_contents hyb_open
  "\<lambda>p h. snd (hyb_castObject (Some p) 0 h)" hyb_room
  unfolding hyb_contents_def hyb_open_free
proof (unfold_locales, goal_cases)
  case (1 h n x)
  then show ?case
    using hyb_castObject_inv(2) [of h "Some x" 0] by (simp add: hyb_free_def hyb_room_def bq_room_def)
next
  case (2 h n x)
  then show ?case
    using hyb_castObject_inv [of h "Some x" 0] by (auto simp: hyb_free_def hyb_room_def bq_room_def)
next
  case (3 h n x)
  then have "bq_open (regQ h)" "bq_room (Suc n) (regQ h)"
    by (simp_all add: hyb_free_def hyb_inv_def hyb_room_def)
  from bqf.enq_room [OF this] show ?case by (simp add: hyb_room_def hyb_castObject_def)
qed

section \<open>Properties\<close>

text \<open>
  C14: Reading a session queue. A reader with its own identifier gets the oldest item, keeps the
  queue occupied while items remain and gives it up with the last one; on an empty queue it gets
  nothing and the packet says so; while another reader occupies the queue it gets nothing, and
  the packet tells it whether to try again. The invariant is kept on every branch.
\<close>

theorem hyb_pullAndOccupy_cases:
  assumes "hyb_inv h"
  shows "\<exists>item i st' h'. hyb_pullAndOccupyWithId itsid st h = Ret ((item, i, st'), h') \<and> hyb_inv h' \<and>
     (if occupied_by_other itsid h
      then item = None \<and> \<not> qs_validrv st' \<and> qs_empty st' = (hyb_data h = []) \<and>
           hyb_data h' = hyb_data h \<and> occupant h' = occupant h
      else if hyb_data h = []
      then item = None \<and> \<not> qs_validrv st' \<and> qs_empty st' \<and> hyb_data h' = []
      else item = hd (hyb_data h) \<and> qs_validrv st' \<and> hyb_data h' = tl (hyb_data h) \<and>
           qs_empty st' = (tl (hyb_data h) = []) \<and>
           occupant h' = (if tl (hyb_data h) = [] then - 1 else itsid))"
proof (cases "occupied_by_other itsid h")
  case True
  from hyb_pullAndOccupy_busy [OF assms this, of st] True show ?thesis by fastforce
next
  case False
  show ?thesis
  proof (cases "hyb_data h")
    case Nil
    from hyb_pullAndOccupy_empty [OF assms False Nil, of st] False Nil show ?thesis by fastforce
  next
    case (Cons x xs)
    from hyb_pullAndOccupy_cons [OF assms False Cons, of st] False Cons show ?thesis by fastforce
  qed
qed

theorem hyb_pullAndOccupy_cases_witness:
  "\<exists>item i st' h'. hyb_pullAndOccupyWithId 2 new_qstat
       (snd (hyb_castObject (Some (7::nat)) 0 (new_hyb (- 1) AFK_BC_NO_BLOCK))) = Ret ((item, i, st'), h') \<and>
     item = Some 7 \<and> qs_empty st' \<and> hyb_data h' = []"
proof -
  let ?h = "snd (hyb_castObject (Some (7::nat)) 0 (new_hyb (- 1) AFK_BC_NO_BLOCK))"
  have room: "hyb_room 1 (new_hyb (- 1) AFK_BC_NO_BLOCK :: nat hyb)"
    by (simp add: hyb_room_def bq_room_def new_hyb_def tqueue.extend_def new_bqueue_def
        bq_reset_state_def bq_clearRelaxQ_def bq_items_def bq_contents_def new_wrap_bq_def)
  note h = hyb_castObject_inv [OF hyb_inv_new room, of "Some 7" 0]
  have "\<not> occupied_by_other 2 ?h"
    using h(3) by (simp add: occupied_by_other_def new_hyb_def tqueue.extend_def new_tqueue_def
        queue.extend_def)
  with hyb_pullAndOccupy_cases [OF h(1), of 2 new_qstat] h(2) show ?thesis by auto
qed

text \<open>
  C19: What is posted item by item comes back in order: posting any list of objects to a session
  queue and then pulling until a pull fails returns what was there followed by the list.
\<close>

theorem hyb_post_drain_roundtrip:
  assumes "hyb_open h" and "hyb_room (length ps) h"
  shows "\<exists>h'. pull_all hyb_pull [] (fold (\<lambda>p h. snd (hyb_castObject (Some p) 0 h)) ps h) =
           Some (hyb_contents h @ ps, h') \<and> hyb_contents h' = []"
  using assms by (rule hybf.enq_then_drain)

theorem hyb_post_drain_roundtrip_witness:
  "\<exists>h'. pull_all hyb_pull [] (fold (\<lambda>p h. snd (hyb_castObject (Some p) 0 h)) [3, 1, 2 :: nat]
        (new_hyb (- 1) AFK_BC_WAIT_FOR_LAST)) = Some ([3, 1, 2], h') \<and> hyb_contents h' = []"
proof -
  let ?h = "new_hyb (- 1) AFK_BC_WAIT_FOR_LAST :: nat hyb"
  have "hyb_open ?h" "hyb_room (length [3, 1, 2 :: nat]) ?h" "hyb_contents ?h = []"
    by (simp_all add: hyb_open_def hyb_inv_new hyb_contents_def)
      (simp_all add: new_hyb_def tqueue.extend_def new_tqueue_def queue.extend_def hyb_room_def
        bq_room_def new_bqueue_def bq_reset_state_def bq_clearRelaxQ_def bq_items_def
        bq_contents_def new_wrap_bq_def)
  with hyb_post_drain_roundtrip [of ?h "[3, 1, 2]"] show ?thesis by simp
qed

text \<open>
  Posting a vector reports success and posts nothing: \<open>castVector\<close> of the session queue
  returns true for every vector, and the data of the queue stays what it was.
\<close>

lemma hyb_castVector_drops:
  assumes "hyb_inv h" and "length items < 2 ^ 63"
  shows "fst (hyb_castVector items i h) \<and> hyb_data (snd (hyb_castVector items i h)) = hyb_data h \<and>
     hyb_inv (snd (hyb_castVector items i h))"
  using hyb_castVector_inv [OF assms] by (simp add: hyb_castVector_def)

end
