(* ===== verification/ControlBlock.thy ===== *)
theory ControlBlock
  imports Prelude "HOL-Library.AList"
begin

text \<open>
  \<open>CPPAFKControlBlock\<close> (CPPAFKBase.hpp, CPPAFKControlBlock.cpp): the flags through which a
  session, its routines and the threadpool tell each other about cancellation, flushing and
  pausing; and the registry of control blocks that \<open>CPPAFKBase\<close> keeps (CPPAFKBase.cpp), with
  its lock and the heap its pointers point into.
\<close>

section \<open>The control block\<close>

text \<open>
  Identifiers: the union \<open>uCPPAFKNumId\<close>, of which the code reads the 64 bits \<open>num64\<close> only. The
  default constructor makes the identifier 0. \<open>cmpNumericalId64\<close> orders them for the registry.
\<close>

datatype num_id = NumId (num64 : u64)

definition new_num_id :: num_id where
  "new_num_id = NumId 0"

definition cmpNumericalId64 :: "num_id \<Rightarrow> num_id \<Rightarrow> bool" where
  "cmpNumericalId64 a b \<longleftrightarrow> num64 a < num64 b"

instantiation num_id :: linorder
begin

definition less_num_id :: "num_id \<Rightarrow> num_id \<Rightarrow> bool" where
  "less_num_id a b \<longleftrightarrow> cmpNumericalId64 a b"

definition less_eq_num_id :: "num_id \<Rightarrow> num_id \<Rightarrow> bool" where
  "less_eq_num_id a b \<longleftrightarrow> \<not> cmpNumericalId64 b a"

instance
  by standard
    (auto simp: less_num_id_def less_eq_num_id_def cmpNumericalId64_def intro: num_id.expand)

end

text \<open>A progress routine is known by a handle; \<open>None\<close> is the empty \<open>std::function\<close>.\<close>

type_synonym handle = nat

record control_block =
  cb_itsProgressProc :: "handle option"
  cb_parentId :: num_id
  cb_sessionPrimId :: num_id
  cb_sessionSecId :: num_id
  cb_paused :: bool
  cb_flushed :: bool
  abortByCallback :: bool
  abortByCaller :: bool
  abortByInternal :: bool

text \<open>
  The constructors set the identifiers only: the flags keep what the memory held (\<open>raw\<close>). The
  default constructor draws the three identifiers from \<open>createRandomNum\<close>, given as arguments.
\<close>

definition new_control_block ::
  "control_block \<Rightarrow> num_id \<Rightarrow> num_id \<Rightarrow> num_id \<Rightarrow> control_block" where
  "new_control_block raw parent prim sec =
     raw\<lparr>cb_itsProgressProc := None, cb_parentId := parent, cb_sessionPrimId := prim,
         cb_sessionSecId := sec\<rparr>"

definition cb_getSessionId :: "control_block \<Rightarrow> num_id" where
  "cb_getSessionId cb = cb_sessionPrimId cb"

definition cb_cancel :: "control_block \<Rightarrow> control_block" where
  "cb_cancel cb = cb\<lparr>abortByCaller := True\<rparr>"

definition cb_set_flushRequested :: "bool \<Rightarrow> control_block \<Rightarrow> control_block" where
  "cb_set_flushRequested flush cb = cb\<lparr>cb_flushed := flush\<rparr>"

definition cb_flushRequested :: "control_block \<Rightarrow> bool" where
  "cb_flushRequested cb = cb_flushed cb"

definition cb_cancellationRequestedByStarter :: "control_block \<Rightarrow> bool" where
  "cb_cancellationRequestedByStarter cb = abortByCaller cb"

definition cb_cancellationRequestedByCallback :: "control_block \<Rightarrow> bool" where
  "cb_cancellationRequestedByCallback cb = abortByCallback cb"

definition cb_setPaused :: "bool \<Rightarrow> control_block \<Rightarrow> control_block" where
  "cb_setPaused yesno cb = cb\<lparr>cb_paused := yesno\<rparr>"

definition cb_isPaused :: "control_block \<Rightarrow> bool" where
  "cb_isPaused cb = cb_paused cb"

definition cb_setProgressRoutine :: "handle option \<Rightarrow> control_block \<Rightarrow> bool \<times> control_block" where
  "cb_setProgressRoutine progress cb =
     (case progress of
        Some p \<Rightarrow> (True, cb\<lparr>cb_itsProgressProc := Some p\<rparr>)
      | None \<Rightarrow> (False, cb))"

definition cb_getProgressRoutine :: "control_block \<Rightarrow> handle option" where
  "cb_getProgressRoutine cb = cb_itsProgressProc cb"

definition cb_reset :: "control_block \<Rightarrow> control_block" where
  "cb_reset cb = cb\<lparr>abortByCallback := False, abortByCaller := False\<rparr>"

definition cb_cancellationRequested :: "control_block \<Rightarrow> bool" where
  "cb_cancellationRequested cb \<longleftrightarrow> abortByCallback cb \<or> abortByCaller cb"

definition cb_getParentObjectId :: "control_block \<Rightarrow> num_id" where
  "cb_getParentObjectId cb = cb_parentId cb"

definition cb_stop :: "control_block \<Rightarrow> control_block" where
  "cb_stop cb = cb\<lparr>abortByCallback := True\<rparr>"

named_theorems cb_defs

lemmas cb_all_defs [cb_defs] =
  cb_getSessionId_def cb_cancel_def cb_set_flushRequested_def cb_flushRequested_def
  cb_cancellationRequestedByStarter_def cb_cancellationRequestedByCallback_def cb_setPaused_def
  cb_isPaused_def cb_reset_def cb_cancellationRequested_def cb_stop_def

text \<open>The public operations a user routine may perform on the block it is handed.\<close>

datatype cb_op = CbCancel | CbStop | CbFlush bool | CbPause bool | CbReset

fun cb_apply :: "cb_op \<Rightarrow> control_block \<Rightarrow> control_block" where
  "cb_apply CbCancel = cb_cancel"
| "cb_apply CbStop = cb_stop"
| "cb_apply (CbFlush b) = cb_set_flushRequested b"
| "cb_apply (CbPause b) = cb_setPaused b"
| "cb_apply CbReset = cb_reset"

text \<open>
  A cancellation request lasts: after \<open>cancel\<close> or \<open>stop\<close> the block reports a
  cancellation through any sequence of further operations that has no \<open>reset\<close>, and the last
  \<open>reset\<close> is the only thing that withdraws it.
\<close>

lemma cb_cancellation_sticky:
  "cb_cancellationRequested (fold cb_apply ops cb) \<longleftrightarrow>
     (if CbReset \<in> set ops
      then (let later = takeWhile (\<lambda>op. op \<noteq> CbReset) (rev ops) in
              CbCancel \<in> set later \<or> CbStop \<in> set later)
      else cb_cancellationRequested cb \<or> CbCancel \<in> set ops \<or> CbStop \<in> set ops)"
proof (induction ops rule: rev_induct)
  case Nil
  then show ?case by simp
next
  case (snoc op ops)
  then show ?case by (cases op) (auto simp: cb_defs Let_def)
qed

section \<open>The registry of control blocks\<close>

text \<open>
  A \<open>std::map\<close> is the list of its entries in the order of the keys, which is the order in which
  an iterator visits them; \<open>map_assign\<close> is the assignment \<open>m[k] = v\<close>.
\<close>

fun map_assign :: "'k :: linorder \<Rightarrow> 'v \<Rightarrow> ('k \<times> 'v) list \<Rightarrow> ('k \<times> 'v) list" where
  "map_assign k v [] = [(k, v)]"
| "map_assign k v ((k', v') # m) =
     (if k < k' then (k, v) # (k', v') # m
      else if k' < k then (k', v') # map_assign k v m
      else (k, v) # m)"

abbreviation sorted_map :: "('k :: linorder \<times> 'v) list \<Rightarrow> bool" where
  "sorted_map m \<equiv> sorted_wrt (<) (map fst m)"

text \<open>
  \<open>itsCtrlBlocks\<close> maps a session identifier to a pointer; \<open>cb_heap\<close> says which pointers point
  to a block that is allocated, \<open>cb_next\<close> is the address the next \<open>new\<close> returns. The lock
  \<open>lkNonLocal\<close> is a flag: an operation that finds it set waits for ever.
\<close>

record registry =
  reg_itsNumId :: num_id
  reg_itsCtrlBlocks :: "(num_id \<times> nat) list"
  reg_lkNonLocal :: bool
  cb_heap :: "nat \<Rightarrow> control_block option"
  cb_next :: nat

definition reg_locked :: "registry \<Rightarrow> (registry \<Rightarrow> 'r outcome) \<Rightarrow> 'r outcome" where
  "reg_locked r body = (if reg_lkNonLocal r then Blocked else body r)"

text \<open>Two methods of \<open>CPPAFKBase\<close> that nothing overrides: stubs, with the answers of stubs.\<close>

definition base_isCancellationRequested :: "registry \<Rightarrow> bool" where
  "base_isCancellationRequested r = True"

definition base_refreshCancellationData :: "registry \<Rightarrow> nat option" where
  "base_refreshCancellationData r = None"

definition base_registerCtrlBlock :: "nat option \<Rightarrow> registry \<Rightarrow> registry outcome" where
  "base_registerCtrlBlock cblk r =
     (case cblk of
        None \<Rightarrow> Ret r
      | Some p \<Rightarrow> reg_locked r (\<lambda>r.
          case cb_heap r p of
            None \<Rightarrow> Fault Use_after_free
          | Some cb \<Rightarrow> Ret (r\<lparr>reg_itsCtrlBlocks :=
                          map_assign (cb_getSessionId cb) p (reg_itsCtrlBlocks r)\<rparr>)))"

text \<open>\<open>newCtrlBlock\<close>: the two overloads differ in where the identifiers come from.\<close>

definition base_newCtrlBlock ::
  "control_block \<Rightarrow> num_id \<Rightarrow> num_id \<Rightarrow> registry \<Rightarrow> (nat \<times> registry) outcome" where
  "base_newCtrlBlock raw sessionId subId r =
     (let p = cb_next r;
          b = new_control_block raw (reg_itsNumId r) sessionId subId;
          r1 = r\<lparr>cb_heap := (cb_heap r)(p := Some b), cb_next := Suc p\<rparr>
      in obind (base_registerCtrlBlock (Some p) r1) (\<lambda>r2. Ret (p, r2)))"

definition cb_delete :: "nat \<Rightarrow> registry \<Rightarrow> registry outcome" where
  "cb_delete p r =
     (case cb_heap r p of
        None \<Rightarrow> Fault Double_free
      | Some _ \<Rightarrow> Ret (r\<lparr>cb_heap := (cb_heap r)(p := None)\<rparr>))"

fun cb_delete_all :: "nat list \<Rightarrow> registry \<Rightarrow> registry outcome" where
  "cb_delete_all [] r = Ret r"
| "cb_delete_all (p # ps) r = obind (cb_delete p r) (cb_delete_all ps)"

definition base_forgetAllCtrlBlocks :: "registry \<Rightarrow> registry outcome" where
  "base_forgetAllCtrlBlocks r = reg_locked r (\<lambda>r.
     obind (cb_delete_all (map snd (reg_itsCtrlBlocks r)) r)
       (\<lambda>r'. Ret (r'\<lparr>reg_itsCtrlBlocks := []\<rparr>)))"

text \<open>\<open>forgetCtrlBlock\<close> of a pointer deletes the block and leaves the map as it is.\<close>

definition base_forgetCtrlBlock_ptr :: "nat option \<Rightarrow> registry \<Rightarrow> registry outcome" where
  "base_forgetCtrlBlock_ptr cb r =
     (case cb of
        None \<Rightarrow> Ret r
      | Some p \<Rightarrow> reg_locked r (cb_delete p))"

definition base_forgetCtrlBlock_id :: "num_id \<Rightarrow> registry \<Rightarrow> registry outcome" where
  "base_forgetCtrlBlock_id sessionId r = reg_locked r (\<lambda>r.
     case map_of (reg_itsCtrlBlocks r) sessionId of
       Some p \<Rightarrow> cb_delete p (r\<lparr>reg_itsCtrlBlocks := AList.delete sessionId (reg_itsCtrlBlocks r)\<rparr>)
     | None \<Rightarrow> Ret r)"

text \<open>\<open>getControlBlockWithId\<close> unlocks on the path that finds the block, and only there.\<close>

definition base_getControlBlockWithId :: "num_id \<Rightarrow> registry \<Rightarrow> (nat option \<times> registry) outcome" where
  "base_getControlBlockWithId blkId r = reg_locked r (\<lambda>r.
     case map_of (reg_itsCtrlBlocks r) blkId of
       Some p \<Rightarrow> Ret (Some p, r)
     | None \<Rightarrow> Ret (None, r\<lparr>reg_lkNonLocal := True\<rparr>))"

definition new_registry :: "num_id \<Rightarrow> registry" where
  "new_registry i = \<lparr>reg_itsNumId = i, reg_itsCtrlBlocks = [], reg_lkNonLocal = False,
     cb_heap = (\<lambda>_. None), cb_next = 0\<rparr>"

text \<open>
  The entries are in order, every pointer of the registry points to an allocated block, no two entries share one, and no
  address at or above \<open>cb_next\<close> is in use.
\<close>

definition registry_inv :: "registry \<Rightarrow> bool" where
  "registry_inv r \<longleftrightarrow>
     sorted_map (reg_itsCtrlBlocks r) \<and> distinct (map snd (reg_itsCtrlBlocks r)) \<and>
     (\<forall>(i, p) \<in> set (reg_itsCtrlBlocks r). cb_heap r p \<noteq> None) \<and>
     (\<forall>p. cb_heap r p \<noteq> None \<longrightarrow> p < cb_next r)"

lemma cb_delete_all_Ret:
  "distinct ps \<Longrightarrow> \<forall>p \<in> set ps. cb_heap r p \<noteq> None \<Longrightarrow>
   cb_delete_all ps r = Ret (r\<lparr>cb_heap := (\<lambda>p. if p \<in> set ps then None else cb_heap r p)\<rparr>)"
proof (induction ps arbitrary: r)
  case Nil
  then show ?case by simp
next
  case (Cons p ps)
  define r1 where "r1 = r\<lparr>cb_heap := (cb_heap r)(p := None)\<rparr>"
  from Cons.prems have d: "cb_delete p r = Ret r1" by (auto simp: cb_delete_def r1_def)
  from Cons.prems have "cb_delete_all ps r1 =
      Ret (r1\<lparr>cb_heap := (\<lambda>p. if p \<in> set ps then None else cb_heap r1 p)\<rparr>)"
    by (intro Cons.IH) (auto simp: r1_def)
  with d show ?case by (simp add: r1_def fun_eq_iff)
qed

lemma cb_delete_all_freed:
  "cb_heap s p = None \<Longrightarrow> p \<in> set ps \<Longrightarrow> \<forall>q \<in> set ps. q \<noteq> p \<longrightarrow> cb_heap s q \<noteq> None \<Longrightarrow>
   distinct ps \<Longrightarrow> cb_delete_all ps s = Fault Double_free"
proof (induction ps arbitrary: s)
  case Nil
  then show ?case by simp
next
  case (Cons x ps)
  show ?case
  proof (cases "x = p")
    case True
    with Cons.prems show ?thesis by (simp add: cb_delete_def)
  next
    case False
    with Cons.prems obtain c where "cb_heap s x = Some c" by auto
    moreover have "cb_delete_all ps (s\<lparr>cb_heap := (cb_heap s)(x := None)\<rparr>) = Fault Double_free"
      using Cons.prems False by (intro Cons.IH) auto
    ultimately show ?thesis by (simp add: cb_delete_def)
  qed
qed

lemma map_of_assign: "map_of (map_assign k v m) = (map_of m)(k \<mapsto> v)"
  by (induction m) (auto simp: fun_eq_iff)

lemma set_map_assign: "set (map_assign k v m) \<subseteq> insert (k, v) (set m)"
  by (induction m) (auto split: if_splits)

lemma sorted_map_assign: "sorted_map m \<Longrightarrow> sorted_map (map_assign k v m)"
proof (induction m)
  case Nil
  then show ?case by simp
next
  case (Cons e m)
  then show ?case using set_map_assign [of k v m] by (cases e) (fastforce simp: not_less)
qed

lemma distinct_map_assign:
  "distinct (map snd m) \<Longrightarrow> v \<notin> snd ` set m \<Longrightarrow> distinct (map snd (map_assign k v m))"
proof (induction m)
  case Nil
  then show ?case by simp
next
  case (Cons e m)
  then show ?case using set_map_assign [of k v m] by (cases e) force
qed

lemma registry_inv_new: "registry_inv (new_registry i)"
  by (simp add: registry_inv_def new_registry_def)

lemma sorted_map_delete: "sorted_map m \<Longrightarrow> sorted_map (AList.delete k m)"
  by (simp add: AList.delete_eq sorted_wrt_map sorted_wrt_filter)

lemma distinct_map_delete: "distinct (map snd m) \<Longrightarrow> distinct (map snd (AList.delete k m))"
  by (simp add: AList.delete_eq distinct_map_filter)

text \<open>Removing a registered block by its identifier.\<close>

lemma forget_id_runs:
  assumes "registry_inv r" and "\<not> reg_lkNonLocal r" and "map_of (reg_itsCtrlBlocks r) i = Some p"
  obtains r' where "base_forgetCtrlBlock_id i r = Ret r'" and "registry_inv r'"
    and "map_of (reg_itsCtrlBlocks r') i = None" and "cb_heap r' p = None" and "\<not> reg_lkNonLocal r'"
proof -
  define r' where "r' = r\<lparr>reg_itsCtrlBlocks := AList.delete i (reg_itsCtrlBlocks r),
      cb_heap := (cb_heap r)(p := None)\<rparr>"
  from map_of_SomeD [OF assms(3)] have ip: "(i, p) \<in> set (reg_itsCtrlBlocks r)" .
  with assms(1) obtain cb where "cb_heap r p = Some cb" by (fastforce simp: registry_inv_def)
  with assms(2,3) have "base_forgetCtrlBlock_id i r = Ret r'"
    by (simp add: base_forgetCtrlBlock_id_def reg_locked_def cb_delete_def r'_def)
  moreover have "q \<noteq> p" if "(j, q) \<in> set (reg_itsCtrlBlocks r)" "j \<noteq> i" for j q
    using assms(1) ip that inj_onD [of snd "set (reg_itsCtrlBlocks r)" "(i, p)" "(j, q)"]
    by (auto simp: registry_inv_def distinct_map)
  then have "registry_inv r'"
    using assms(1) sorted_map_delete [of "reg_itsCtrlBlocks r" i]
      distinct_map_delete [of "reg_itsCtrlBlocks r" i]
    by (auto simp: registry_inv_def r'_def AList.delete_eq)
  ultimately show thesis using assms(2) by (intro that [of r']) (simp_all add: r'_def AList.delete_conv)
qed

text \<open>
  C31: In a consistent registry that is not locked, \<open>newCtrlBlock\<close> succeeds, keeps the registry
  consistent, and a lookup of the identifier gives back the new block. \<open>forgetCtrlBlock\<close> with
  that identifier then deletes the block and takes it out of the registry, which stays consistent
  and unlocked.
\<close>

theorem newCtrlBlock_lookup:
  assumes "registry_inv r" and "\<not> reg_lkNonLocal r"
  shows "\<exists>p r'. base_newCtrlBlock raw i j r = Ret (p, r') \<and> registry_inv r' \<and>
           base_getControlBlockWithId i r' = Ret (Some p, r') \<and>
           (\<exists>cb. cb_heap r' p = Some cb \<and> cb_getSessionId cb = i) \<and>
           (\<exists>r''. base_forgetCtrlBlock_id i r' = Ret r'' \<and> registry_inv r'' \<and>
              map_of (reg_itsCtrlBlocks r'') i = None \<and> cb_heap r'' p = None \<and> \<not> reg_lkNonLocal r'')"
proof -
  define b where "b = new_control_block raw (reg_itsNumId r) i j"
  define r' where "r' = r\<lparr>cb_heap := (cb_heap r)(cb_next r := Some b), cb_next := Suc (cb_next r),
      reg_itsCtrlBlocks := map_assign i (cb_next r) (reg_itsCtrlBlocks r)\<rparr>"
  have id: "cb_getSessionId b = i" by (simp add: b_def new_control_block_def cb_getSessionId_def)
  have "base_newCtrlBlock raw i j r = Ret (cb_next r, r')"
    using assms(2) id
    by (simp add: base_newCtrlBlock_def base_registerCtrlBlock_def reg_locked_def Let_def r'_def b_def)
  moreover have inv: "registry_inv r'"
  proof -
    have "cb_next r \<notin> snd ` set (reg_itsCtrlBlocks r)"
      using assms(1) by (fastforce simp: registry_inv_def)
    moreover have "\<forall>(k, p) \<in> set (reg_itsCtrlBlocks r'). cb_heap r' p \<noteq> None"
      using assms(1) set_map_assign [of i "cb_next r" "reg_itsCtrlBlocks r"]
      by (fastforce simp: registry_inv_def r'_def)
    ultimately show ?thesis
      using assms(1) distinct_map_assign [of "reg_itsCtrlBlocks r" "cb_next r" i]
        sorted_map_assign [of "reg_itsCtrlBlocks r" i "cb_next r"]
      by (auto simp: registry_inv_def r'_def less_Suc_eq split: if_splits)
  qed
  moreover have find: "map_of (reg_itsCtrlBlocks r') i = Some (cb_next r)" "\<not> reg_lkNonLocal r'"
    using assms(2) by (simp_all add: r'_def map_of_assign)
  moreover obtain r'' where "base_forgetCtrlBlock_id i r' = Ret r''" "registry_inv r''"
    "map_of (reg_itsCtrlBlocks r'') i = None" "cb_heap r'' (cb_next r) = None" "\<not> reg_lkNonLocal r''"
    by (rule forget_id_runs [OF inv find(2,1)])
  moreover have "cb_heap r' (cb_next r) = Some b" by (simp add: r'_def)
  ultimately show ?thesis using id by (auto simp: base_getControlBlockWithId_def reg_locked_def)
qed

theorem newCtrlBlock_lookup_witness:
  "\<exists>raw p r'. base_newCtrlBlock raw (NumId 5) (NumId 6) (new_registry (NumId 1)) = Ret (p, r') \<and>
     registry_inv r' \<and> base_getControlBlockWithId (NumId 5) r' = Ret (Some p, r') \<and>
     (\<exists>r''. base_forgetCtrlBlock_id (NumId 5) r' = Ret r'' \<and> cb_heap r'' p = None)"
  using newCtrlBlock_lookup [OF registry_inv_new, of "NumId 1" undefined "NumId 5" "NumId 6"]
  by (auto simp: new_registry_def)

text \<open>
  A lookup of an unknown identifier leaves the registry locked: it returns a null pointer,
  and every later operation on the registry, a registration, a lookup or a removal, waits for
  ever.
\<close>

lemma getControlBlockWithId_miss_locks:
  assumes "\<not> reg_lkNonLocal r" and "map_of (reg_itsCtrlBlocks r) i = None"
  shows "\<exists>r'. base_getControlBlockWithId i r = Ret (None, r') \<and>
     base_getControlBlockWithId j r' = Blocked \<and> base_registerCtrlBlock (Some p) r' = Blocked \<and>
     base_forgetCtrlBlock_id j r' = Blocked \<and> base_forgetCtrlBlock_ptr (Some p) r' = Blocked \<and>
     base_forgetAllCtrlBlocks r' = Blocked"
  using assms
  by (simp add: base_getControlBlockWithId_def base_registerCtrlBlock_def base_forgetCtrlBlock_id_def
      base_forgetCtrlBlock_ptr_def base_forgetAllCtrlBlocks_def reg_locked_def)

text \<open>
  C37: In a consistent, unlocked registry \<open>forgetAllCtrlBlocks\<close> frees every registered block
  exactly once and leaves the registry empty and consistent. After \<open>forgetCtrlBlock\<close> has been
  called with a pointer to a registered block, the same call frees that block a second time.
\<close>

theorem forgetAll_frees_once:
  assumes "registry_inv r" and "\<not> reg_lkNonLocal r"
  shows "(\<exists>r'. base_forgetAllCtrlBlocks r = Ret r' \<and> registry_inv r' \<and> reg_itsCtrlBlocks r' = [] \<and>
            (\<forall>p \<in> snd ` set (reg_itsCtrlBlocks r). cb_heap r' p = None)) \<and>
         (\<forall>p \<in> snd ` set (reg_itsCtrlBlocks r). \<exists>r'.
            base_forgetCtrlBlock_ptr (Some p) r = Ret r' \<and>
            base_forgetAllCtrlBlocks r' = Fault Double_free)"
  (is "?once \<and> ?twice")
proof
  let ?ps = "map snd (reg_itsCtrlBlocks r)"
  have "cb_delete_all ?ps r =
      Ret (r\<lparr>cb_heap := (\<lambda>p. if p \<in> set ?ps then None else cb_heap r p)\<rparr>)"
    using assms(1) by (intro cb_delete_all_Ret) (auto simp: registry_inv_def)
  then show ?once
    using assms by (auto simp: base_forgetAllCtrlBlocks_def reg_locked_def registry_inv_def)
  show ?twice
  proof
    fix p
    assume p: "p \<in> snd ` set (reg_itsCtrlBlocks r)"
    with assms(1) obtain c where c: "cb_heap r p = Some c" by (fastforce simp: registry_inv_def)
    define r' where "r' = r\<lparr>cb_heap := (cb_heap r)(p := None)\<rparr>"
    have "base_forgetCtrlBlock_ptr (Some p) r = Ret r'"
      using assms(2) c
      by (simp add: base_forgetCtrlBlock_ptr_def reg_locked_def cb_delete_def r'_def)
    moreover have "cb_delete_all ?ps r' = Fault Double_free"
      using assms(1) p by (intro cb_delete_all_freed [of _ p]) (auto simp: registry_inv_def r'_def)
    ultimately show "\<exists>r'. base_forgetCtrlBlock_ptr (Some p) r = Ret r' \<and>
        base_forgetAllCtrlBlocks r' = Fault Double_free"
      using assms(2) by (auto simp: base_forgetAllCtrlBlocks_def reg_locked_def r'_def)
  qed
qed

theorem forgetAll_frees_once_witness:
  "\<exists>r :: registry. registry_inv r \<and> \<not> reg_lkNonLocal r \<and> reg_itsCtrlBlocks r \<noteq> [] \<and>
    (\<exists>r'. base_forgetAllCtrlBlocks r = Ret r' \<and> reg_itsCtrlBlocks r' = [])"
proof -
  define r where "r = \<lparr>reg_itsNumId = NumId 1, reg_itsCtrlBlocks = [(NumId 7, 0)], reg_lkNonLocal = False,
     cb_heap = (\<lambda>p. if p = 0 then Some undefined else None), cb_next = 1\<rparr>"
  have "registry_inv r" "\<not> reg_lkNonLocal r" by (auto simp: r_def registry_inv_def split: if_splits)
  with forgetAll_frees_once [of r] show ?thesis by (auto simp: r_def)
qed

end
