(* ===== verification/Session.thy ===== *)
theory Session
  imports ThreadpoolQueue_Correct ControlBlock
begin

text \<open>
  \<open>CPPAFKThreadpoolSession\<close> (CPPAFKThreadpool.hpp, CPPAFKThreadpoolSession.cpp): the state of a
  session, its setters with hot replacement of handlers, and what it does with the data posted
  before its queues exist.

  Routines are functions of the library's user: a routine gets a data pointer, the session's
  control block and the session's identifier, and gives back a pointer and the control block
  (on which it may call any operation). Handlers that return nothing are known by a handle, and
  calling one is an event. The expiration condition comes from \<open>CPPAFKCondition.hpp\<close>, which is
  not part of the repository: its three operations are a parameter (\<open>'x expcond\<close>).
\<close>

section \<open>Routines, conditions, events\<close>

type_synonym 'p routine = "'p option \<Rightarrow> control_block \<Rightarrow> num_id \<Rightarrow> 'p option \<times> control_block"

record 'p exec_unit =
  runL :: "'p routine option"

text \<open>
  \<open>runM\<close> is virtual, but a session stores execution units by value, so what runs is the base
  class's: it returns the null pointer.
\<close>

definition runM :: "'p exec_unit \<Rightarrow> 'p routine" where
  "runM u = (\<lambda>inp cb sessionId. (None, cb))"

record 'x expcond =
  setSample :: "i64 \<Rightarrow> 'x \<Rightarrow> 'x"
  allConditionsMet :: "'x \<Rightarrow> bool \<times> 'x"
  someConditionsMet :: "'x \<Rightarrow> bool \<times> 'x"

datatype run_prio_ML =
  AFK_RUN_METHOD_ONLY | AFK_RUN_LAMBDA_ONLY | AFK_RUN_LAMBDA_THEN_METHOD | AFK_RUN_METHOD_THEN_LAMBDA

datatype run_prio_DOR =
  AFK_RUNR_STORED_ROUTINE_ONLY | AFK_RUNR_DATAOBJ_ONLY | AFK_RUNR_ROUTINE_THEN_DATAOBJ |
  AFK_RUNR_DATAOBJ_THEN_ROUTINE

datatype exec_status =
  eAFK_ES_HAS_NONE | eAFK_ES_HAS_MORE | eAFK_ES_WAS_CANCELLED | eAFK_ES_SKIPPED_MAINT

text \<open>The calls of user handlers that return nothing, and the arguments of the summary routine.\<close>

datatype 'p event =
  Cancellation_called handle num_id | Expiration_called handle | Internal_called handle num_id |
  Summary_called "'p option"

section \<open>State\<close>

text \<open>
  What the priority queue of a session holds, and the comparison it is given. The queue is pushed
  to and emptied and never read, so that it is the list of what was pushed. The comparison holds
  between an item and itself, which no ordering of a \<open>std::priority_queue\<close> may do.
\<close>

record prio_item =
  pi_priority :: i64
  pi_queueId :: i64

definition compare_priorities :: "prio_item \<Rightarrow> prio_item \<Rightarrow> bool" where
  "compare_priorities pq1 pq2 \<longleftrightarrow> sint (pi_priority pq1) \<le> sint (pi_priority pq2)"

lemma compare_priorities_not_strict: "compare_priorities x x"
  by (simp add: compare_priorities_def)

record ('p, 'x) session =
  s_pq :: "prio_item list"
  busyCount :: i64
  hotCancR :: u64
  hotCancW :: u64
  hotRoutR :: u64
  hotRoutW :: u64
  hotSumR :: u64
  hotSumW :: u64
  cancelHnds :: "handle option list"
  routinesHnds :: "'p exec_unit list list"
  sumHnds :: "'p routine option list"
  queueZero :: "'p tqueue"
  dataQueues :: "'p hyb list"
  internalCancellationHandler :: "handle option"
  expirationSummary :: "handle option"
  excond :: "'x option"
  s_cblk :: control_block
  cancelHndReload :: bool
  routinesHndReload :: bool
  sumHndReload :: bool
  s_paused :: bool
  s_isStopped :: bool
  s_cancelled :: bool
  runprioML :: run_prio_ML
  runprioDOR :: run_prio_DOR
  s_autodelete :: bool
  callMode :: blocking_mode

text \<open>
  The constructor; \<open>cb\<close> is the control block it allocates and \<open>occ\<close> what the memory held where
  \<open>queueZero\<close> keeps its \<open>occupant\<close>. \<open>CPPAFK_HRI_PRIMARY\<close> is 0, \<open>CPPAFK_HRI_SECONDARY\<close> is 1.
\<close>

definition new_session :: "control_block \<Rightarrow> i64 \<Rightarrow> bool \<Rightarrow> ('p, 'x) session" where
  "new_session cb occ autodel = \<lparr>s_pq = [], busyCount = 0, hotCancR = 1, hotCancW = 0,
     hotRoutR = 1, hotRoutW = 0, hotSumR = 1, hotSumW = 0, cancelHnds = [None, None],
     routinesHnds = [[], []], sumHnds = [None, None], queueZero = new_tqueue occ, dataQueues = [],
     internalCancellationHandler = None, expirationSummary = None, excond = None, s_cblk = cb,
     cancelHndReload = False, routinesHndReload = False, sumHndReload = False, s_paused = False,
     s_isStopped = False, s_cancelled = False, runprioML = AFK_RUN_LAMBDA_ONLY,
     runprioDOR = AFK_RUNR_STORED_ROUTINE_ONLY, s_autodelete = autodel,
     callMode = AFK_BC_NO_BLOCK\<rparr>"

section \<open>Operations\<close>

definition session_resetPriorityQueue :: "('p, 'x, 'z) session_scheme \<Rightarrow> ('p, 'x, 'z) session_scheme" where
  "session_resetPriorityQueue s = s\<lparr>s_pq := []\<rparr>"

definition session_cancellationRequested :: "('p, 'x, 'z) session_scheme \<Rightarrow> bool" where
  "session_cancellationRequested s = cb_cancellationRequested (s_cblk s)"

definition session_cancellationRequestedByCallback :: "('p, 'x, 'z) session_scheme \<Rightarrow> bool" where
  "session_cancellationRequestedByCallback s = cb_cancellationRequestedByCallback (s_cblk s)"

definition session_cancellationRequestedByStarter :: "('p, 'x, 'z) session_scheme \<Rightarrow> bool" where
  "session_cancellationRequestedByStarter s = cb_cancellationRequestedByStarter (s_cblk s)"

text \<open>
  The \<open>flush\<close> of the base class, which runs when the base part of a session is destroyed. The
  transfer it asks for is not available and returns false; the result is not looked at.
\<close>

definition session_flush :: "('p, 'x, 'z) session_scheme \<Rightarrow> ('p, 'x, 'z) session_scheme" where
  "session_flush s =
     (let s1 = s\<lparr>s_cblk := cb_set_flushRequested True (s_cblk s)\<rparr>
      in if sint (queue_size (queueZero s1)) > 0 \<and> dataQueues s1 \<noteq> []
         then s1\<lparr>queueZero := tq_reset (queueZero s1)\<rparr>
         else s1)"

definition session_pause :: "('p, 'x, 'z) session_scheme \<Rightarrow> ('p, 'x, 'z) session_scheme" where
  "session_pause s = s\<lparr>s_cblk := cb_setPaused True (s_cblk s), s_paused := True\<rparr>"

definition session_resume :: "('p, 'x, 'z) session_scheme \<Rightarrow> ('p, 'x, 'z) session_scheme" where
  "session_resume s = s\<lparr>s_cblk := cb_setPaused False (s_cblk s), s_paused := False\<rparr>"

definition session_isPaused :: "('p, 'x, 'z) session_scheme \<Rightarrow> bool" where
  "session_isPaused s = s_paused s"

definition session_getDataItemsCount :: "('p, 'x, 'z) session_scheme \<Rightarrow> i64" where
  "session_getDataItemsCount s = 0"

definition session_getControlBlock :: "('p, 'x, 'z) session_scheme \<Rightarrow> control_block" where
  "session_getControlBlock s = s_cblk s"

definition session_isBusy :: "('p, 'x, 'z) session_scheme \<Rightarrow> bool" where
  "session_isBusy s \<longleftrightarrow> sint (busyCount s) > 0"

definition session_isCancelled :: "('p, 'x, 'z) session_scheme \<Rightarrow> bool" where
  "session_isCancelled s = s_cancelled s"

text \<open>
  \<open>_adoptDataFromZeroQueue\<close>: \<open>queueFromQueue\<close> is not available and transfers nothing; then the
  queue of early data is reset.
\<close>

definition session_adoptDataFromZeroQueue ::
  "('p, 'x, 'z) session_scheme \<Rightarrow> ('p, 'x, 'z) session_scheme" where
  "session_adoptDataFromZeroQueue s =
     (if sint (queue_size (queueZero s)) > 0 \<and> dataQueues s \<noteq> []
      then (let prio = queue_size (queueZero s);
                s1 = (if sint prio > 0 then s\<lparr>s_pq := s_pq s @ [\<lparr>pi_priority = prio, pi_queueId = 0\<rparr>]\<rparr> else s)
            in s1\<lparr>queueZero := tq_reset (queueZero s1)\<rparr>)
      else s)"

subsection \<open>Swapping the slots\<close>

text \<open>The results are whether a swap took place and the index to read from.\<close>

definition session_switchRoutinesHandlers ::
  "('p, 'x, 'z) session_scheme \<Rightarrow> (bool \<times> u64) \<times> ('p, 'x, 'z) session_scheme" where
  "session_switchRoutinesHandlers s =
     (if routinesHndReload s
      then (let s1 = s\<lparr>hotRoutW := (hotRoutW s + 1) mod 2, hotRoutR := (hotRoutR s + 1) mod 2,
                       routinesHndReload := False\<rparr>
            in ((True, hotRoutR s1), s1))
      else ((False, hotRoutR s), s))"

definition session_switchSummaryHandlers ::
  "('p, 'x, 'z) session_scheme \<Rightarrow> (bool \<times> u64) \<times> ('p, 'x, 'z) session_scheme" where
  "session_switchSummaryHandlers s =
     (if sumHndReload s
      then (let s1 = s\<lparr>hotSumW := (hotSumW s + 1) mod 2, hotSumR := (hotSumR s + 1) mod 2,
                       sumHndReload := False\<rparr>
            in ((True, hotSumR s1), s1))
      else ((False, hotSumR s), s))"

definition session_switchCancellationHandlers ::
  "('p, 'x, 'z) session_scheme \<Rightarrow> (bool \<times> u64) \<times> ('p, 'x, 'z) session_scheme" where
  "session_switchCancellationHandlers s =
     (if cancelHndReload s
      then (let s1 = s\<lparr>hotCancW := (hotCancW s + 1) mod 2, hotCancR := (hotCancR s + 1) mod 2,
                       cancelHndReload := False\<rparr>
            in ((True, hotCancR s1), s1))
      else ((False, hotCancR s), s))"

subsection \<open>Setters\<close>

definition session_setRoutines_raw ::
  "'p exec_unit list \<Rightarrow> ('p, 'x, 'z) session_scheme \<Rightarrow> bool \<times> ('p, 'x, 'z) session_scheme" where
  "session_setRoutines_raw ps s =
     (ps \<noteq> [], s\<lparr>routinesHnds := (routinesHnds s)[unat (hotRoutW s) := ps], routinesHndReload := True\<rparr>)"

definition session_setCancellationHandler ::
  "handle option \<Rightarrow> ('p, 'x, 'z) session_scheme \<Rightarrow> bool \<times> ('p, 'x, 'z) session_scheme" where
  "session_setCancellationHandler cru s =
     (case cru of
        Some h \<Rightarrow> (True, s\<lparr>cancelHnds := (cancelHnds s)[unat (hotCancW s) := Some h],
                           cancelHndReload := True\<rparr>)
      | None \<Rightarrow> (False, s))"

definition session_setInternalCancellationHandler ::
  "handle option \<Rightarrow> ('p, 'x, 'z) session_scheme \<Rightarrow> ('p, 'x, 'z) session_scheme" where
  "session_setInternalCancellationHandler cru s =
     (case cru of Some h \<Rightarrow> s\<lparr>internalCancellationHandler := Some h\<rparr> | None \<Rightarrow> s)"

definition session_setExpirationCondition ::
  "'x option \<Rightarrow> ('p, 'x, 'z) session_scheme \<Rightarrow> ('p, 'x, 'z) session_scheme" where
  "session_setExpirationCondition trop s =
     (case trop of Some x \<Rightarrow> s\<lparr>excond := Some x\<rparr> | None \<Rightarrow> s)"

definition session_setSummary ::
  "'p routine option \<Rightarrow> ('p, 'x, 'z) session_scheme \<Rightarrow> bool \<times> ('p, 'x, 'z) session_scheme" where
  "session_setSummary summ s =
     (case summ of
        Some f \<Rightarrow> (True, s\<lparr>sumHnds := (sumHnds s)[unat (hotSumW s) := Some f], sumHndReload := True\<rparr>)
      | None \<Rightarrow> (False, s))"

definition session_setRoutines ::
  "'p exec_unit list \<Rightarrow> ('p, 'x, 'z) session_scheme \<Rightarrow> bool \<times> ('p, 'x, 'z) session_scheme" where
  "session_setRoutines ps s = session_setRoutines_raw ps s"

definition session_setProgressRoutine ::
  "handle option \<Rightarrow> ('p, 'x, 'z) session_scheme \<Rightarrow> bool \<times> ('p, 'x, 'z) session_scheme" where
  "session_setProgressRoutine progress s =
     (case progress of
        Some h \<Rightarrow> (True, s\<lparr>s_cblk := snd (cb_setProgressRoutine progress (s_cblk s))\<rparr>)
      | None \<Rightarrow> (False, s))"

definition session_setExpirationSummary ::
  "handle option \<Rightarrow> ('p, 'x, 'z) session_scheme \<Rightarrow> bool \<times> ('p, 'x, 'z) session_scheme" where
  "session_setExpirationSummary summ s =
     (case summ of Some h \<Rightarrow> (True, s\<lparr>expirationSummary := Some h\<rparr>) | None \<Rightarrow> (False, s))"

definition session_setRunPriorityML ::
  "run_prio_ML \<Rightarrow> ('p, 'x, 'z) session_scheme \<Rightarrow> ('p, 'x, 'z) session_scheme" where
  "session_setRunPriorityML rp s = s\<lparr>runprioML := rp\<rparr>"

text \<open>An overload of the same name in the code.\<close>

definition session_setRunPriorityDOR ::
  "run_prio_DOR \<Rightarrow> ('p, 'x, 'z) session_scheme \<Rightarrow> ('p, 'x, 'z) session_scheme" where
  "session_setRunPriorityDOR rp s = s\<lparr>runprioDOR := rp\<rparr>"

text \<open>
  \<open>_invokeCancellationHandler\<close> of the base class: only the first call reaches the handler. The
  composing session hides it with a version that has no such test.
\<close>

definition session_invokeCancellationHandler ::
  "handle \<Rightarrow> num_id \<Rightarrow> ('p, 'x, 'z) session_scheme \<Rightarrow> 'p event list \<times> ('p, 'x, 'z) session_scheme" where
  "session_invokeCancellationHandler cru identity s =
     (if s_cancelled s then ([], s) else ([Cancellation_called cru identity], s\<lparr>s_cancelled := True\<rparr>))"

section \<open>The slots are a double buffer\<close>

definition slots_ok :: "u64 \<Rightarrow> u64 \<Rightarrow> 'a list \<Rightarrow> bool" where
  "slots_ok r w hnds \<longleftrightarrow> (r = 0 \<and> w = 1 \<or> r = 1 \<and> w = 0) \<and> length hnds = 2"

definition session_slots_ok :: "('p, 'x, 'z) session_scheme \<Rightarrow> bool" where
  "session_slots_ok s \<longleftrightarrow> slots_ok (hotCancR s) (hotCancW s) (cancelHnds s) \<and>
     slots_ok (hotRoutR s) (hotRoutW s) (routinesHnds s) \<and>
     slots_ok (hotSumR s) (hotSumW s) (sumHnds s)"

lemma session_slots_ok_new [simp]: "session_slots_ok (new_session cb occ ad)"
  by (simp add: session_slots_ok_def slots_ok_def new_session_def)

lemmas session_switch_defs = session_switchRoutinesHandlers_def session_switchSummaryHandlers_def
  session_switchCancellationHandlers_def

lemmas session_setter_defs = session_setRoutines_raw_def session_setCancellationHandler_def
  session_setSummary_def session_setRoutines_def

lemma mod2_word [simp]: "(1 + 1 :: 64 word) mod 2 = 0" "(0 + 1 :: 64 word) mod 2 = 1"
  by simp_all

interpretation routines_slot: hot_slot
  "\<lambda>ps s. snd (session_setRoutines_raw ps s)"
  "\<lambda>s. case session_switchRoutinesHandlers s of ((_, i), s') \<Rightarrow> (i, s')"
  "\<lambda>s i. routinesHnds s ! unat i" "\<lambda>ps. ps"
  "\<lambda>s. routinesHnds s ! unat (hotRoutR s)"
  "\<lambda>s. if routinesHndReload s then Some (routinesHnds s ! unat (hotRoutW s)) else None"
  session_slots_ok
  by unfold_locales
    (auto simp: session_slots_ok_def slots_ok_def session_switch_defs session_setter_defs Let_def)

interpretation cancellation_slot: hot_slot
  "\<lambda>h s. snd (session_setCancellationHandler (Some h) s)"
  "\<lambda>s. case session_switchCancellationHandlers s of ((_, i), s') \<Rightarrow> (i, s')"
  "\<lambda>s i. cancelHnds s ! unat i" Some
  "\<lambda>s. cancelHnds s ! unat (hotCancR s)"
  "\<lambda>s. if cancelHndReload s then Some (cancelHnds s ! unat (hotCancW s)) else None"
  session_slots_ok
  by unfold_locales
    (auto simp: session_slots_ok_def slots_ok_def session_switch_defs session_setter_defs Let_def)

interpretation summary_slot: hot_slot
  "\<lambda>f s. snd (session_setSummary (Some f) s)"
  "\<lambda>s. case session_switchSummaryHandlers s of ((_, i), s') \<Rightarrow> (i, s')"
  "\<lambda>s i. sumHnds s ! unat i" Some
  "\<lambda>s. sumHnds s ! unat (hotSumR s)"
  "\<lambda>s. if sumHndReload s then Some (sumHnds s ! unat (hotSumW s)) else None"
  session_slots_ok
  by unfold_locales
    (auto simp: session_slots_ok_def slots_ok_def session_switch_defs session_setter_defs Let_def)

end
