(* ===== verification/ComposingSession.thy ===== *)
theory ComposingSession
  imports Session
begin

text \<open>
  \<open>CPPAFKComposingSession\<close> (CPPAFKComposition.hpp, CPPAFKComposingSession.cpp): posting data,
  flushing, and \<open>select\<close>, the work a thread does for a session: it takes items from the session's
  queue one by one, runs the routines over each and hands the result to the summary routine.

  A run of the session is the session, the garbage collector it shares with the pool, and the
  handlers called so far. \<open>select\<close> runs as one sequence here: what other threads may do to the
  session between its critical sections is the subject of SessionTurns.
\<close>

section \<open>State\<close>

record ('p, 'x) csession = "('p, 'x) session" +
  datamode :: bool
  cs_itsName :: string

definition new_csession ::
  "blocking_mode \<Rightarrow> bool \<Rightarrow> bool \<Rightarrow> string \<Rightarrow> control_block \<Rightarrow> i64 \<Rightarrow> ('p, 'x) csession" where
  "new_csession blkmode datamodeOn autodel name cb occ =
     session.extend ((new_session cb occ autodel)\<lparr>callMode := blkmode\<rparr>)
       \<lparr>datamode = datamodeOn, cs_itsName = name\<rparr>"

record ('p, 'x) run =
  r_session :: "('p, 'x) csession"
  r_gc :: "'p gc"
  r_events :: "'p event list"

definition log_event :: "'p event \<Rightarrow> ('p, 'x) run \<Rightarrow> ('p, 'x) run" where
  "log_event e r = r\<lparr>r_events := r_events r @ [e]\<rparr>"

text \<open>A loop that does not come back, as an outcome.\<close>

definition returns :: "'a option \<Rightarrow> 'a outcome" where
  "returns x = (case x of None \<Rightarrow> Blocked | Some a \<Rightarrow> Ret a)"

section \<open>Queues\<close>

text \<open>
  \<open>_reconfigureDataqueues\<close>: the queues are reset and deleted with what they hold; if the
  routines in use are not empty, there is one new queue. \<open>occ\<close> is the indeterminate \<open>occupant\<close>.
\<close>

fun destroy_queues :: "'p hyb list \<Rightarrow> unit outcome" where
  "destroy_queues [] = Ret ()"
| "destroy_queues (h # hs) = obind (hyb_destroy (hyb_reset h)) (\<lambda>_. destroy_queues hs)"

definition composing_reconfigureDataqueues ::
  "i64 \<Rightarrow> ('p, 'x) csession \<Rightarrow> ('p, 'x) csession outcome" where
  "composing_reconfigureDataqueues occ s =
     obind (destroy_queues (dataQueues s)) (\<lambda>_.
       Ret (if routinesHnds s ! unat (hotRoutR s) \<noteq> []
            then s\<lparr>dataQueues := [new_hyb occ (callMode s)]\<rparr>
            else s\<lparr>dataQueues := []\<rparr>))"

text \<open>\<open>deploy\<close> of the base class, with the virtual function it calls.\<close>

definition composing_deploy :: "i64 \<Rightarrow> ('p, 'x) csession \<Rightarrow> ('p, 'x) csession outcome" where
  "composing_deploy occ s = composing_reconfigureDataqueues occ s"

text \<open>
  The destructor: the routines are cleared, the base class flushes in its own way, and the control
  block goes. The queues are pointers that nobody deletes: the result is what is left of them.
\<close>

definition composing_destroy :: "('p, 'x) csession \<Rightarrow> 'p hyb list" where
  "composing_destroy s = dataQueues (session_flush (s\<lparr>routinesHnds := [[], []]\<rparr>))"

lemma destroy_leaks_queues: "composing_destroy s = dataQueues s"
  by (simp add: composing_destroy_def session_flush_def Let_def)

definition composing_getRoutinesCount :: "('p, 'x) csession \<Rightarrow> u64" where
  "composing_getRoutinesCount s = 0"

text \<open>
  \<open>_flush\<close>: the early data and every queue are pulled empty; what comes out goes to the
  collector if the session owns its data. The two inner loops over a queue are \<open>pull_all\<close>, the
  second one over the deferred batches.
\<close>

definition discard :: "bool \<Rightarrow> 'p list \<Rightarrow> 'p gc \<Rightarrow> 'p gc" where
  "discard autodelete ts g = (if autodelete then fold (\<lambda>t. gc_cast_data (Some t)) ts g else g)"

fun flush_queues ::
  "bool \<Rightarrow> 'p hyb list \<Rightarrow> i64 \<Rightarrow> 'p gc \<Rightarrow> ('p hyb list \<times> i64 \<times> 'p gc) option" where
  "flush_queues autodelete [] busy g = Some ([], busy, g)"
| "flush_queues autodelete (h # hs) busy g =
     Option.bind (pull_all hyb_pull [] h) (\<lambda>(ts, h1).
     Option.bind (pull_all (\<lambda>q. Ret (hyb_getResidual q)) [] h1) (\<lambda>(ws, h2).
     Option.bind
       (flush_queues autodelete hs (busy - word_of_nat (length ts))
          (fold gc_cast_wrapper ws (discard autodelete ts g))) (\<lambda>(hs', busy', g').
       Some (tq_unoccupy h2 # hs', busy', g'))))"

definition composing_flush_locked ::
  "('p, 'x) csession \<Rightarrow> 'p gc \<Rightarrow> (('p, 'x) csession \<times> 'p gc) option" where
  "composing_flush_locked s g =
     Option.bind (pull_all tq_pull [] (queueZero s)) (\<lambda>(ts, q0).
     Option.bind
       (flush_queues (s_autodelete s) (dataQueues s) (busyCount s) (discard (s_autodelete s) ts g))
       (\<lambda>(hs, busy, g').
       Some (s\<lparr>queueZero := q0, dataQueues := hs, busyCount := busy,
               s_cblk := cb_set_flushRequested False (s_cblk s)\<rparr>, g')))"

definition composing_flush ::
  "('p, 'x) csession \<Rightarrow> 'p gc \<Rightarrow> (('p, 'x) csession \<times> 'p gc) option" where
  "composing_flush s g =
     composing_flush_locked (s\<lparr>s_cblk := cb_set_flushRequested True (s_cblk s)\<rparr>) g"

definition composing_cancel :: "('p, 'x) csession \<Rightarrow> ('p, 'x) csession" where
  "composing_cancel s = s\<lparr>s_cblk := cb_cancel (s_cblk s)\<rparr>"

fun queues_size :: "'p hyb list \<Rightarrow> i64 \<times> 'p hyb list" where
  "queues_size [] = (0, [])"
| "queues_size (h # hs) =
     (let (n, h1) = hyb_size h; (m, hs1) = queues_size hs in (n + m, h1 # hs1))"

definition composing_getDataItemsCount :: "('p, 'x) csession \<Rightarrow> i64 \<times> ('p, 'x) csession" where
  "composing_getDataItemsCount s =
     (let (m, hs) = queues_size (dataQueues s)
      in (queue_size (queueZero s) + m, s\<lparr>dataQueues := hs\<rparr>))"

definition composing_isBusy :: "('p, 'x) csession \<Rightarrow> bool" where
  "composing_isBusy s \<longleftrightarrow> sint (busyCount s) > 0"

definition composing_setRoutines ::
  "'p exec_unit list \<Rightarrow> ('p, 'x) csession \<Rightarrow> bool \<times> ('p, 'x) csession" where
  "composing_setRoutines ps s = (True, snd (session_setRoutines_raw ps s))"

section \<open>Posting\<close>

definition composing_postData :: "'p option \<Rightarrow> ('p, 'x) csession \<Rightarrow> bool \<times> ('p, 'x) csession" where
  "composing_postData data s =
     (if cb_flushRequested (s_cblk s) then (False, s)
      else case dataQueues s of
        [] \<Rightarrow> (False, s\<lparr>queueZero := snd (tq_castObject data 0 (queueZero s)),
                        s_cblk := cb_set_flushRequested False (s_cblk s)\<rparr>)
      | h # hs \<Rightarrow> (case hyb_castObject data 0 h of (res, h1) \<Rightarrow> (res, s\<lparr>dataQueues := h1 # hs\<rparr>)))"

definition composing_postDataAsVector ::
  "'p option list \<Rightarrow> ('p, 'x) csession \<Rightarrow> bool \<times> ('p, 'x) csession" where
  "composing_postDataAsVector data s =
     (if cb_flushRequested (s_cblk s) then (False, s)
      else if data = [] then (False, s\<lparr>s_cblk := cb_set_flushRequested False (s_cblk s)\<rparr>)
      else case dataQueues s of
        [] \<Rightarrow> (False, s\<lparr>queueZero := snd (tq_castVector data 0 (queueZero s))\<rparr>)
      | h # hs \<Rightarrow> (case hyb_castVector data 0 h of (res, h1) \<Rightarrow> (res, s\<lparr>dataQueues := h1 # hs\<rparr>)))"

section \<open>Running the routines over one item\<close>

text \<open>
  The variables of the loop over the routines: \<open>r0\<close> is the argument of the next routine,
  \<open>result\<close> what the last one returned.
\<close>

record 'p work =
  w_r0 :: "'p option"
  w_result :: "'p option"
  w_cb :: control_block
  w_gc :: "'p gc"

text \<open>
  One call. Only a session that owns its data (\<open>autodelete\<close>) moves on to the result: a new
  pointer replaces the argument, which goes to the collector.
\<close>

definition call_routine :: "bool \<Rightarrow> num_id \<Rightarrow> 'p routine \<Rightarrow> 'p work \<Rightarrow> 'p work" where
  "call_routine autodelete sid f w =
     (case f (w_r0 w) (w_cb w) sid of
        (result, cb) \<Rightarrow>
          (let w1 = w\<lparr>w_result := result, w_cb := cb\<rparr>
           in if autodelete \<and> result \<noteq> w_r0 w
              then w1\<lparr>w_gc := (if w_r0 w \<noteq> None then gc_cast_data (w_r0 w) (w_gc w) else w_gc w),
                      w_r0 := result\<rparr>
              else w1))"

text \<open>
  Calling an empty \<open>std::function\<close> throws: the test in the code looks at the address of the
  member, which is never null.
\<close>

definition call_lambda :: "bool \<Rightarrow> num_id \<Rightarrow> 'p exec_unit \<Rightarrow> 'p work \<Rightarrow> 'p work outcome" where
  "call_lambda autodelete sid u w =
     (case runL u of
        None \<Rightarrow> Fault Bad_function_call
      | Some f \<Rightarrow> Ret (call_routine autodelete sid f w))"

definition call_method :: "bool \<Rightarrow> num_id \<Rightarrow> 'p exec_unit \<Rightarrow> 'p work \<Rightarrow> 'p work outcome" where
  "call_method autodelete sid u w = Ret (call_routine autodelete sid (runM u) w)"

fun run_unit :: "run_prio_ML \<Rightarrow> bool \<Rightarrow> num_id \<Rightarrow> 'p exec_unit \<Rightarrow> 'p work \<Rightarrow> 'p work outcome" where
  "run_unit AFK_RUN_LAMBDA_ONLY ad sid u w = call_lambda ad sid u w"
| "run_unit AFK_RUN_METHOD_ONLY ad sid u w = call_method ad sid u w"
| "run_unit AFK_RUN_LAMBDA_THEN_METHOD ad sid u w =
     obind (call_lambda ad sid u w) (call_method ad sid u)"
| "run_unit AFK_RUN_METHOD_THEN_LAMBDA ad sid u w =
     obind (call_method ad sid u w) (call_lambda ad sid u)"

text \<open>The loop stops after the first routine that leaves a cancellation request behind.\<close>

fun run_routines ::
  "run_prio_ML \<Rightarrow> bool \<Rightarrow> num_id \<Rightarrow> 'p exec_unit list \<Rightarrow> 'p work \<Rightarrow> (bool \<times> 'p work) outcome" where
  "run_routines prio ad sid [] w = Ret (False, w)"
| "run_routines prio ad sid (u # us) w =
     obind (run_unit prio ad sid u w) (\<lambda>w1.
       if cb_cancellationRequestedByCallback (w_cb w1) \<or> cb_cancellationRequestedByStarter (w_cb w1)
       then Ret (True, w1)
       else run_routines prio ad sid us w1)"

section \<open>The parts of select\<close>

definition session_sid :: "('p, 'x) csession \<Rightarrow> num_id" where
  "session_sid s = cb_getSessionId (s_cblk s)"

definition cancel_requested :: "('p, 'x) csession \<Rightarrow> bool" where
  "cancel_requested s \<longleftrightarrow>
     session_cancellationRequestedByCallback s \<or> session_cancellationRequestedByStarter s"

definition on_session ::
  "(('p, 'x) csession \<Rightarrow> ('p, 'x) csession) \<Rightarrow> ('p, 'x) run \<Rightarrow> ('p, 'x) run" where
  "on_session f r = r\<lparr>r_session := f (r_session r)\<rparr>"

definition run_flush ::
  "(('p, 'x) csession \<Rightarrow> 'p gc \<Rightarrow> (('p, 'x) csession \<times> 'p gc) option) \<Rightarrow> ('p, 'x) run \<Rightarrow>
   ('p, 'x) run outcome" where
  "run_flush f r =
     returns (map_option (\<lambda>(s, g). r\<lparr>r_session := s, r_gc := g\<rparr>) (f (r_session r) (r_gc r)))"

text \<open>Giving a pointer to the collector when the session owns its data and it is not null.\<close>

definition dispose_result :: "'p option \<Rightarrow> ('p, 'x) run \<Rightarrow> ('p, 'x) run" where
  "dispose_result result r =
     (if s_autodelete (r_session r) \<and> result \<noteq> None then r\<lparr>r_gc := gc_cast_data result (r_gc r)\<rparr> else r)"

text \<open>The cancellation handler, if one is set; \<open>_invokeCancellationHandler\<close> also marks the session.\<close>

definition call_cancel_handler :: "handle option \<Rightarrow> ('p, 'x) run \<Rightarrow> ('p, 'x) run" where
  "call_cancel_handler h r =
     (case h of None \<Rightarrow> r | Some c \<Rightarrow> log_event (Cancellation_called c (session_sid (r_session r))) r)"

definition composing_invokeCancellationHandler :: "handle option \<Rightarrow> ('p, 'x) run \<Rightarrow> ('p, 'x) run" where
  "composing_invokeCancellationHandler h r =
     on_session (\<lambda>s. s\<lparr>s_cancelled := True\<rparr>) (call_cancel_handler h r)"

text \<open>
  What the four cancellation paths share: swap the handlers, flush, cancel; \<open>finish\<close> is what
  the path does with the handler.
\<close>

definition cancel_path ::
  "(handle option \<Rightarrow> ('p, 'x) run \<Rightarrow> ('p, 'x) run) \<Rightarrow> ('p, 'x) run \<Rightarrow> ('p, 'x) run outcome" where
  "cancel_path finish r =
     (case session_switchCancellationHandlers (r_session r) of
        ((_, ind), s1) \<Rightarrow>
          obind (run_flush composing_flush (r\<lparr>r_session := s1\<rparr>)) (\<lambda>r1.
            (let r2 = on_session composing_cancel r1
             in Ret (finish (cancelHnds (r_session r2) ! unat ind) r2))))"

text \<open>Expiry: flush, cancel, call the expiration routine and the internal handler.\<close>

definition expire_path :: "('p, 'x) run \<Rightarrow> ('p, 'x) run outcome" where
  "expire_path r =
     obind (run_flush composing_flush r) (\<lambda>r1.
       (let r2 = on_session composing_cancel r1;
            r3 = (case expirationSummary (r_session r2) of
                    None \<Rightarrow> r2 | Some e \<Rightarrow> log_event (Expiration_called e) r2)
        in case internalCancellationHandler (r_session r3) of
             None \<Rightarrow> Fault Bad_function_call
           | Some i \<Rightarrow> Ret (log_event (Internal_called i (session_sid (r_session r3))) r3)))"

text \<open>
  The head of \<open>select\<close>, up to the loop: the result is \<open>None\<close> to go on or the status to return.
\<close>

definition check_expiration ::
  "('x expcond \<Rightarrow> 'x \<Rightarrow> bool \<times> 'x) \<Rightarrow> 'x expcond \<Rightarrow> ('p, 'x) csession \<Rightarrow> bool \<times> ('p, 'x) csession" where
  "check_expiration met X s =
     (case excond s of
        None \<Rightarrow> (False, s)
      | Some x \<Rightarrow> (case met X (setSample X (busyCount s) x) of (b, x') \<Rightarrow> (b, s\<lparr>excond := Some x'\<rparr>)))"

definition select_head ::
  "'x expcond \<Rightarrow> ('p, 'x) run \<Rightarrow> (exec_status option \<times> ('p, 'x) run) outcome" where
  "select_head X r =
     (let s0 = r_session r;
          s1 = (if s_paused s0
                then s0\<lparr>s_paused := False, dataQueues := map tq_unoccupy (dataQueues s0)\<rparr>
                else s0);
          s2 = session_adoptDataFromZeroQueue s1;
          r2 = r\<lparr>r_session := s2\<rparr>
      in if s_isStopped s2 then Ret (Some eAFK_ES_WAS_CANCELLED, r2)
         else if cancel_requested s2
           then obind (cancel_path composing_invokeCancellationHandler
                         (on_session session_resetPriorityQueue r2))
                  (\<lambda>r3. Ret (Some eAFK_ES_WAS_CANCELLED, r3))
         else if sint (busyCount s2) \<le> 0
           then (case check_expiration allConditionsMet X s2 of
                   (met, s3) \<Rightarrow>
                     if met
                     then obind (expire_path (r2\<lparr>r_session := s3\<rparr>))
                            (\<lambda>r4. Ret (Some eAFK_ES_WAS_CANCELLED, r4))
                     else Ret (None, r2\<lparr>r_session := s3\<rparr>))
         else Ret (None, r2))"

text \<open>The queue of the session: \<open>q\<close> in the code is the pointer to the first one.\<close>

definition on_queue :: "('p hyb \<Rightarrow> 'p hyb) \<Rightarrow> ('p, 'x) csession \<Rightarrow> ('p, 'x) csession" where
  "on_queue f s = (case dataQueues s of [] \<Rightarrow> s | h # hs \<Rightarrow> s\<lparr>dataQueues := f h # hs\<rparr>)"

text \<open>After the routines: flush on request, then the summary routine and the collector.\<close>

definition flush_if_requested ::
  "'p option \<Rightarrow> ('p, 'x) run \<Rightarrow> ('p option \<times> ('p, 'x) run) outcome" where
  "flush_if_requested result r =
     (if cb_flushRequested (s_cblk (r_session r))
      then (let ad = s_autodelete (r_session r);
                r1 = dispose_result result r;
                result1 = (if ad then None else result)
            in obind (run_flush composing_flush_locked (on_session (on_queue tq_unoccupy) r1))
                 (\<lambda>r2. Ret (result1, r2)))
      else Ret (result, r))"

definition summarise :: "'p option \<Rightarrow> ('p, 'x) run \<Rightarrow> ('p, 'x) run" where
  "summarise r0 r =
     (case session_switchSummaryHandlers (r_session r) of
        ((_, ind), s1) \<Rightarrow>
          (let r1 = r\<lparr>r_session := s1\<rparr>
           in case sumHnds s1 ! unat ind of
                None \<Rightarrow> dispose_result r0 r1
              | Some f \<Rightarrow>
                  (case f r0 (s_cblk s1) (session_sid s1) of
                     (result, cb) \<Rightarrow>
                       (let r2 = log_event (Summary_called r0)
                                   (on_session (\<lambda>s. s\<lparr>s_cblk := cb\<rparr>) r1)
                        in if result = r0 then dispose_result r0 r2
                           else dispose_result result (dispose_result r0 r2)))))"

text \<open>
  One item that was pulled: the result is the status to return, if the item ended the call, and
  the run after it. \<open>st\<close> is the status packet of the pull.
\<close>

definition process_item ::
  "'x expcond \<Rightarrow> u64 \<Rightarrow> 'p option \<Rightarrow> qstat \<Rightarrow> ('p, 'x) run \<Rightarrow>
   (exec_status option \<times> ('p, 'x) run) outcome" where
  "process_item X indR item st r =
     (let s = on_queue tq_unoccupy (r_session r)
      in obind (run_routines (runprioML s) (s_autodelete s) (session_sid s)
                  (routinesHnds s ! unat indR)
                  \<lparr>w_r0 = item, w_result = item, w_cb = s_cblk s, w_gc = r_gc r\<rparr>)
         (\<lambda>(stopped, w).
           (let r1 = r\<lparr>r_session := s\<lparr>s_cblk := w_cb w\<rparr>, r_gc := w_gc w\<rparr>
            in if stopped
               then obind (cancel_path call_cancel_handler (dispose_result (w_result w) r1))
                      (\<lambda>r2. Ret (Some eAFK_ES_WAS_CANCELLED,
                                 on_session (\<lambda>s. s\<lparr>busyCount := 0\<rparr>) r2))
               else if cancel_requested (r_session r1)
                 then obind (cancel_path
                               (\<lambda>h r. call_cancel_handler h (composing_invokeCancellationHandler h r))
                               (on_session (\<lambda>s. on_queue tq_unoccupy (session_resetPriorityQueue s))
                                  (dispose_result (w_result w) r1)))
                        (\<lambda>r2. Ret (Some eAFK_ES_HAS_NONE, r2))
               else obind (flush_if_requested (w_result w) r1) (\<lambda>(result, r2).
                 (let r3 = on_session (\<lambda>s. s\<lparr>busyCount := busyCount s - 1\<rparr>) (summarise result r2);
                      r4 = (if qs_endbatch st \<and> qs_called st
                            then on_session (on_queue hyb_releaseBlocked) r3 else r3)
                  in case check_expiration someConditionsMet X (r_session r4) of
                       (met, s5) \<Rightarrow>
                         if met
                         then obind (expire_path (r4\<lparr>r_session := s5\<rparr>))
                                (\<lambda>r6. Ret (Some eAFK_ES_HAS_NONE, r6))
                         else Ret (None, r4\<lparr>r_session := s5\<rparr>))))))"

text \<open>
  One turn of the loop: cancellation, flush request, swap of the routines (which replaces the
  queue), then a pull by reader \<open>ii\<close>. A pull without an item ends the call when the queue is
  empty; when another reader occupies it, the loop goes on.
\<close>

definition select_turn ::
  "'x expcond \<Rightarrow> i64 \<Rightarrow> i64 \<Rightarrow> ('p, 'x) run \<Rightarrow> (exec_status option \<times> ('p, 'x) run) outcome" where
  "select_turn X occ ii r =
     (if cancel_requested (r_session r)
      then obind (cancel_path composing_invokeCancellationHandler
                    (on_session session_resetPriorityQueue r))
             (\<lambda>r1. Ret (Some eAFK_ES_HAS_NONE, r1))
      else
        obind (if cb_flushRequested (s_cblk (r_session r))
               then run_flush composing_flush_locked r else Ret r) (\<lambda>r1.
          case session_switchRoutinesHandlers (r_session r1) of
            ((switched, indR), s1) \<Rightarrow>
              obind (if switched
                     then obind (composing_reconfigureDataqueues occ s1)
                            (\<lambda>s. Ret (session_resetPriorityQueue s))
                     else Ret s1) (\<lambda>s2.
                case dataQueues s2 of
                  [] \<Rightarrow> Ret (Some eAFK_ES_HAS_NONE, r1\<lparr>r_session := s2\<rparr>)
                | h # hs \<Rightarrow>
                    obind (hyb_pullAndOccupyWithId ii new_qstat h) (\<lambda>((item, _, st), h1).
                      (let r2 = r1\<lparr>r_session := s2\<lparr>dataQueues := h1 # hs\<rparr>\<rparr>
                       in if qs_validrv st then process_item X indR item st r2
                          else if qs_empty st then Ret (Some eAFK_ES_HAS_NONE, r2)
                          else Ret (None, r2))))))"

text \<open>
  The loop with fuel: \<open>None\<close> says that it has not come back after that many turns.
\<close>

fun select_loop ::
  "nat \<Rightarrow> 'x expcond \<Rightarrow> i64 \<Rightarrow> i64 \<Rightarrow> ('p, 'x) run \<Rightarrow> (exec_status \<times> ('p, 'x) run) outcome option" where
  "select_loop 0 X occ ii r = None"
| "select_loop (Suc fuel) X occ ii r =
     (case select_turn X occ ii r of
        Ret (Some status, r1) \<Rightarrow> Some (Ret (status, r1))
      | Ret (None, r1) \<Rightarrow> select_loop fuel X occ ii r1
      | Blocked \<Rightarrow> Some Blocked
      | Fault e \<Rightarrow> Some (Fault e))"

definition composing_select ::
  "nat \<Rightarrow> 'x expcond \<Rightarrow> i64 \<Rightarrow> i64 \<Rightarrow> ('p, 'x) run \<Rightarrow> (exec_status \<times> ('p, 'x) run) outcome option" where
  "composing_select fuel X occ ii r =
     (case select_head X r of
        Ret (Some status, r1) \<Rightarrow> Some (Ret (status, r1))
      | Ret (None, r1) \<Rightarrow> select_loop fuel X occ ii r1
      | Blocked \<Rightarrow> Some Blocked
      | Fault e \<Rightarrow> Some (Fault e))"

end
