(* ===== verification/ComposingSession_Correct.thy ===== *)
theory ComposingSession_Correct
  imports ComposingSession
begin

text \<open>
  What a composing session does with its data. For routines that leave the control block alone,
  \<open>select\<close> is given a closed form: which results the summary routine sees, in which order, and
  which pointers go to the collector. Then flushing, the cancellation paths, and the ways in
  which data never reach a routine.
\<close>

section \<open>Routines without side effects on the control block\<close>

definition pure_routine :: "('p option \<Rightarrow> 'p option) \<Rightarrow> 'p routine" where
  "pure_routine g = (\<lambda>inp cb sid. (g inp, cb))"

definition lambda_unit :: "('p option \<Rightarrow> 'p option) \<Rightarrow> 'p exec_unit" where
  "lambda_unit g = \<lparr>runL = Some (pure_routine g)\<rparr>"

text \<open>
  The result of a list of routines: the composition of all of them when the session owns its
  data, and otherwise the last routine applied to the item itself.
\<close>

definition composed :: "bool \<Rightarrow> ('p option \<Rightarrow> 'p option) list \<Rightarrow> 'p option \<Rightarrow> 'p option" where
  "composed autodelete gs x =
     (if autodelete then fold (\<lambda>g y. g y) gs x else if gs = [] then x else last gs x)"

text \<open>The pointers that are replaced on the way, which the session hands to the collector.\<close>

fun replaced :: "('p option \<Rightarrow> 'p option) list \<Rightarrow> 'p option \<Rightarrow> 'p option list" where
  "replaced [] x = []"
| "replaced (g # gs) x = (if g x \<noteq> x \<and> x \<noteq> None then [x] else []) @ replaced gs (g x)"

definition garbage ::
  "bool \<Rightarrow> ('p option \<Rightarrow> 'p option) list \<Rightarrow> ('p option \<Rightarrow> 'p option) \<Rightarrow> 'p option \<Rightarrow> 'p option list" where
  "garbage autodelete gs f x =
     (if autodelete
      then replaced gs x @
        (let y = composed True gs x
         in filter (\<lambda>p. p \<noteq> None) (if f y = y then [y] else [y, f y]))
      else [])"

lemma run_routines_pure:
  assumes "\<not> abortByCallback (w_cb w)" and "\<not> abortByCaller (w_cb w)"
  shows "run_routines AFK_RUN_LAMBDA_ONLY ad sid (map lambda_unit gs) w =
     Ret (False, w\<lparr>w_r0 := (if ad then fold (\<lambda>g y. g y) gs (w_r0 w) else w_r0 w),
                   w_result := (if gs = [] then w_result w else composed ad gs (w_r0 w)),
                   w_gc := (if ad then fold gc_cast_data (replaced gs (w_r0 w)) (w_gc w) else w_gc w)\<rparr>)"
  using assms
proof (induction gs arbitrary: w)
  case Nil
  then show ?case by simp
next
  case (Cons g gs)
  then show ?case
    by (cases gs)
      (auto simp: call_lambda_def lambda_unit_def call_routine_def pure_routine_def cb_defs
        composed_def Let_def)
qed

section \<open>One turn of select\<close>

text \<open>
  A session at work: no cancellation or flush request, no handler waiting to be swapped in, no
  expiration condition, one queue, routines and summary routine without side effects.
\<close>

definition serving ::
  "('p option \<Rightarrow> 'p option) list \<Rightarrow> ('p option \<Rightarrow> 'p option) \<Rightarrow> 'p hyb \<Rightarrow> ('p, 'x) csession \<Rightarrow> bool" where
  "serving gs f h s \<longleftrightarrow>
     \<not> abortByCallback (s_cblk s) \<and> \<not> abortByCaller (s_cblk s) \<and> \<not> cb_flushed (s_cblk s) \<and>
     \<not> routinesHndReload s \<and> \<not> sumHndReload s \<and> excond s = None \<and>
     runprioML s = AFK_RUN_LAMBDA_ONLY \<and> dataQueues s = [h] \<and> hyb_inv h \<and>
     routinesHnds s ! unat (hotRoutR s) = map lambda_unit gs \<and>
     sumHnds s ! unat (hotSumR s) = Some (pure_routine f)"

lemma serving_not_cancelled: "serving gs f h s \<Longrightarrow> \<not> cancel_requested s"
  by (simp add: serving_def cancel_requested_def session_cancellationRequestedByCallback_def
      session_cancellationRequestedByStarter_def cb_defs)

lemma fold_gc_cast_dispose:
  "fold gc_cast_data (filter (\<lambda>p. p \<noteq> None) [y]) g = (if y \<noteq> None then gc_cast_data y g else g)"
  by simp

lemma process_item_serving:
  assumes s: "serving gs f h (r_session r)" and st: "\<not> qs_called st"
  shows "process_item X (hotRoutR (r_session r)) x st r =
     Ret (None, r\<lparr>r_session := (r_session r)\<lparr>dataQueues := [tq_unoccupy h],
                      busyCount := busyCount (r_session r) - 1\<rparr>,
                  r_gc := fold gc_cast_data (garbage (s_autodelete (r_session r)) gs f x) (r_gc r),
                  r_events := r_events r @
                    [Summary_called (composed (s_autodelete (r_session r)) gs x)]\<rparr>)"
proof -
  let ?s = "r_session r"
  let ?s1 = "?s\<lparr>dataQueues := [tq_unoccupy h]\<rparr>"
  have q: "on_queue tq_unoccupy ?s = ?s1" using s by (simp add: on_queue_def serving_def)
  have run: "run_routines (runprioML ?s1) (s_autodelete ?s1) (session_sid ?s1)
      (routinesHnds ?s1 ! unat (hotRoutR ?s)) \<lparr>w_r0 = x, w_result = x, w_cb = s_cblk ?s1, w_gc = r_gc r\<rparr> =
    Ret (False, \<lparr>w_r0 = (if s_autodelete ?s then fold (\<lambda>g y. g y) gs x else x),
      w_result = composed (s_autodelete ?s) gs x, w_cb = s_cblk ?s,
      w_gc = (if s_autodelete ?s then fold gc_cast_data (replaced gs x) (r_gc r) else r_gc r)\<rparr>)"
    using s run_routines_pure [of "\<lparr>w_r0 = x, w_result = x, w_cb = s_cblk ?s, w_gc = r_gc r\<rparr>"
        "s_autodelete ?s" "session_sid ?s1" gs]
    by (simp add: serving_def composed_def)
  define s2 where "s2 = ?s1"
  define r2 where "r2 = r\<lparr>r_session := s2,
      r_gc := (if s_autodelete ?s then fold gc_cast_data (replaced gs x) (r_gc r) else r_gc r)\<rparr>"
  have nc: "\<not> cancel_requested s2" using serving_not_cancelled [OF s]
    by (simp add: s2_def cancel_requested_def session_cancellationRequestedByCallback_def
      session_cancellationRequestedByStarter_def)
  have flags: "\<not> cb_flushed (s_cblk s2)" "\<not> sumHndReload s2" "excond s2 = None"
    "sumHnds s2 ! unat (hotSumR s2) = Some (pure_routine f)" "s_autodelete s2 = s_autodelete ?s"
    "busyCount s2 = busyCount ?s"
    using s by (simp_all add: serving_def s2_def)
  have summ: "summarise (composed (s_autodelete ?s) gs x) r2 =
      r2\<lparr>r_gc := fold gc_cast_data (garbage (s_autodelete ?s) gs f x) (r_gc r),
        r_events := r_events r @ [Summary_called (composed (s_autodelete ?s) gs x)]\<rparr>"
    using flags
    by (cases "s_autodelete ?s")
      (auto simp: summarise_def session_switchSummaryHandlers_def pure_routine_def r2_def
        on_session_def log_event_def dispose_result_def garbage_def Let_def)
  have start: "r\<lparr>r_session := ?s1\<lparr>s_cblk := s_cblk ?s\<rparr>,
      r_gc := if s_autodelete ?s then fold gc_cast_data (replaced gs x) (r_gc r) else r_gc r\<rparr> = r2"
    by (simp add: r2_def s2_def)
  have fl: "flush_if_requested (composed (s_autodelete ?s) gs x) r2 =
      Ret (composed (s_autodelete ?s) gs x, r2)"
    using flags(1) by (simp add: flush_if_requested_def r2_def cb_flushRequested_def)
  have r2: "r_session r2 = s2" by (simp add: r2_def)
  have fin: "r2\<lparr>r_gc := a, r_events := b, r_session := c\<rparr> = r\<lparr>r_session := c, r_gc := a, r_events := b\<rparr>"
    for a b c by (simp add: r2_def)
  show ?thesis
    unfolding process_item_def Let_def q run obind.simps prod.case work.select_convs if_False
      start fl summ
    using nc flags st r2 by (simp add: on_session_def check_expiration_def fin) (simp add: s2_def)
qed

lemma select_turn_item:
  assumes s: "serving gs f h (r_session r)" and free: "\<not> occupied_by_other ii h"
    and d: "hyb_data h = x # xs"
  shows "\<exists>h'. select_turn X occ ii r =
     Ret (None, r\<lparr>r_session := (r_session r)\<lparr>dataQueues := [h'], busyCount := busyCount (r_session r) - 1\<rparr>,
                  r_gc := fold gc_cast_data (garbage (s_autodelete (r_session r)) gs f x) (r_gc r),
                  r_events := r_events r @
                    [Summary_called (composed (s_autodelete (r_session r)) gs x)]\<rparr>) \<and>
     hyb_inv h' \<and> hyb_data h' = xs \<and> occupant h' = - 1"
proof -
  let ?s = "r_session r"
  have inv: "hyb_inv h" using s by (simp add: serving_def)
  from hyb_pullAndOccupy_cons [OF inv free d, of new_qstat] obtain i h1 st where
    p: "hyb_pullAndOccupyWithId ii new_qstat h = Ret ((x, i, st), h1)" "qs_validrv st"
      "\<not> qs_called st" "hyb_inv h1" "hyb_data h1 = xs"
    by (auto simp: new_qstat_def)
  let ?r1 = "r\<lparr>r_session := ?s\<lparr>dataQueues := [h1]\<rparr>\<rparr>"
  have "serving gs f h1 (r_session ?r1)" using s p(4) by (simp add: serving_def)
  from process_item_serving [OF this p(3), of X x]
  have pi: "process_item X (hotRoutR ?s) x st ?r1 =
      Ret (None, r\<lparr>r_session := ?s\<lparr>dataQueues := [tq_unoccupy h1], busyCount := busyCount ?s - 1\<rparr>,
        r_gc := fold gc_cast_data (garbage (s_autodelete ?s) gs f x) (r_gc r),
        r_events := r_events r @ [Summary_called (composed (s_autodelete ?s) gs x)]\<rparr>)"
    by simp
  have "select_turn X occ ii r = process_item X (hotRoutR ?s) x st ?r1"
    using s serving_not_cancelled [OF s] p(1,2)
    by (simp add: select_turn_def serving_def cb_flushRequested_def
        session_switchRoutinesHandlers_def Let_def)
  with pi p(4,5) show ?thesis by auto
qed

lemma select_turn_end:
  assumes s: "serving gs f h (r_session r)" and free: "\<not> occupied_by_other ii h"
    and d: "hyb_data h = []"
  shows "\<exists>h'. select_turn X occ ii r =
     Ret (Some eAFK_ES_HAS_NONE, r\<lparr>r_session := (r_session r)\<lparr>dataQueues := [h']\<rparr>\<rparr>) \<and>
     hyb_inv h' \<and> hyb_data h' = []"
proof -
  have inv: "hyb_inv h" using s by (simp add: serving_def)
  from hyb_pullAndOccupy_empty [OF inv free d, of new_qstat] obtain h1 st where
    p: "hyb_pullAndOccupyWithId ii new_qstat h = Ret ((None, - 1, st), h1)" "\<not> qs_validrv st"
      "qs_empty st" "hyb_inv h1" "hyb_data h1 = []"
    by auto
  have "select_turn X occ ii r =
      Ret (Some eAFK_ES_HAS_NONE, r\<lparr>r_session := (r_session r)\<lparr>dataQueues := [h1]\<rparr>\<rparr>)"
    using s serving_not_cancelled [OF s] p(1-3)
    by (simp add: select_turn_def serving_def cb_flushRequested_def
        session_switchRoutinesHandlers_def Let_def)
  with p(4,5) show ?thesis by auto
qed

text \<open>The run after the items \<open>xs\<close> have been processed and \<open>h\<close> is what is left of the queue.\<close>

definition processed ::
  "('p option \<Rightarrow> 'p option) list \<Rightarrow> ('p option \<Rightarrow> 'p option) \<Rightarrow> 'p option list \<Rightarrow> 'p hyb \<Rightarrow>
   ('p, 'x) run \<Rightarrow> ('p, 'x) run" where
  "processed gs f xs h r =
     r\<lparr>r_session := (r_session r)\<lparr>dataQueues := [h],
                      busyCount := busyCount (r_session r) - word_of_nat (length xs)\<rparr>,
       r_gc := fold gc_cast_data
                 (concat (map (garbage (s_autodelete (r_session r)) gs f) xs)) (r_gc r),
       r_events := r_events r @
                 map (\<lambda>x. Summary_called (composed (s_autodelete (r_session r)) gs x)) xs\<rparr>"

lemma select_loop_serves:
  "serving gs f h (r_session r) \<Longrightarrow> \<not> occupied_by_other ii h \<Longrightarrow> length (hyb_data h) < fuel \<Longrightarrow>
   \<exists>h'. select_loop fuel X occ ii r =
          Some (Ret (eAFK_ES_HAS_NONE, processed gs f (hyb_data h) h' r)) \<and>
        hyb_inv h' \<and> hyb_data h' = []"
proof (induction "hyb_data h" arbitrary: h r fuel)
  case Nil
  then obtain n where n: "fuel = Suc n" by (cases fuel) auto
  obtain h' where "select_turn X occ ii r =
      Ret (Some eAFK_ES_HAS_NONE, r\<lparr>r_session := (r_session r)\<lparr>dataQueues := [h']\<rparr>\<rparr>)"
    "hyb_inv h'" "hyb_data h' = []"
    using select_turn_end [OF Nil.prems(1,2)] Nil.hyps by metis
  with n show ?case by (auto simp: processed_def simp flip: Nil.hyps intro!: exI [of _ h'])
next
  case (Cons x xs)
  then obtain n where n: "fuel = Suc n" by (cases fuel) auto
  obtain h1 where t: "select_turn X occ ii r =
     Ret (None, r\<lparr>r_session := (r_session r)\<lparr>dataQueues := [h1], busyCount := busyCount (r_session r) - 1\<rparr>,
                  r_gc := fold gc_cast_data (garbage (s_autodelete (r_session r)) gs f x) (r_gc r),
                  r_events := r_events r @
                    [Summary_called (composed (s_autodelete (r_session r)) gs x)]\<rparr>)"
    (is "_ = Ret (None, ?r1)")
    and h1: "hyb_inv h1" "hyb_data h1 = xs" "occupant h1 = - 1"
    using select_turn_item [OF Cons.prems(1,2) Cons.hyps(2) [symmetric]] by metis
  have "serving gs f h1 (r_session ?r1)" using Cons.prems(1) h1 by (simp add: serving_def)
  moreover have "\<not> occupied_by_other ii h1" using h1 by (simp add: not_occupied)
  moreover have "length (hyb_data h1) < n" using Cons.prems(3) n h1 by (simp flip: Cons.hyps(2))
  ultimately obtain h' where
    "select_loop n X occ ii ?r1 = Some (Ret (eAFK_ES_HAS_NONE, processed gs f xs h' ?r1))"
    "hyb_inv h'" "hyb_data h' = []"
    using Cons.hyps(1) [OF h1(2) [symmetric], of ?r1 n] h1(2) by metis
  moreover have "processed gs f xs h' ?r1 = processed gs f (x # xs) h' r"
    by (simp add: processed_def algebra_simps)
  ultimately show ?case using t n by (auto simp flip: Cons.hyps(2))
qed

section \<open>Emptying a session\<close>

lemma hyb_getResidual_idle: "blk_idle h \<Longrightarrow> hyb_getResidual h = (None, h)"
proof (cases "blkQ h")
  case None
  then show ?thesis by (simp add: hyb_getResidual_def)
next
  case (Some b)
  assume "blk_idle h"
  with Some have "deferred (blk_inner b) = []" by (simp add: blk_idle_def)
  moreover have "blk_put (blk_inner b) b = b" by (cases b) simp_all
  moreover have "h\<lparr>blkQ := Some b\<rparr> = h" using Some by (cases h) simp
  ultimately show ?thesis using Some by (simp add: hyb_getResidual_def bq2_pullDeferred_def)
qed

lemma pull_residual_idle:
  "blk_idle h \<Longrightarrow> pull_all (\<lambda>q. Ret (hyb_getResidual q)) [] h = Some ([], h)"
  by (subst pull_all.simps) (simp add: hyb_getResidual_idle)

lemma discard_append: "discard ad (xs @ ys) g = discard ad ys (discard ad xs g)"
  by (simp add: discard_def)

lemma flush_queues_empties:
  "\<forall>h \<in> set hs. hyb_open h \<Longrightarrow>
   \<exists>hs'. flush_queues ad hs busy g =
        Some (hs', busy - word_of_nat (length (concat (map hyb_contents hs))),
              discard ad (concat (map hyb_contents hs)) g) \<and>
      length hs' = length hs \<and>
      (\<forall>h \<in> set hs'. hyb_open h \<and> hyb_data h = [] \<and> occupant h = - 1)"
proof (induction hs arbitrary: busy g)
  case Nil
  then show ?case by (simp add: discard_def)
next
  case (Cons h hs)
  then obtain h1 where h1: "pull_all hyb_pull [] h = Some (hyb_contents h, h1)" "hyb_open h1"
    "hyb_contents h1 = []"
    using hybf.pull_all_empties [of h "[]"] by auto
  then have idle: "blk_idle h1" and d: "hyb_data h1 = []"
    by (simp_all add: hyb_open_def hyb_inv_def hyb_contents_def)
  obtain hs' where hs': "flush_queues ad hs (busy - word_of_nat (length (hyb_contents h)))
      (discard ad (hyb_contents h) g) =
    Some (hs', busy - word_of_nat (length (hyb_contents h)) -
        word_of_nat (length (concat (map hyb_contents hs))),
      discard ad (concat (map hyb_contents hs)) (discard ad (hyb_contents h) g))"
    "length hs' = length hs" "\<forall>h \<in> set hs'. hyb_open h \<and> hyb_data h = [] \<and> occupant h = - 1"
    using Cons.IH Cons.prems by (meson list.set_intros(2))
  have "hyb_open (tq_unoccupy h1)" using h1 d by (simp add: hyb_open_def)
  with h1 hs' d pull_residual_idle [OF idle] show ?case
    by (simp add: discard_append diff_diff_eq)
qed

text \<open>
  A session whose queues can be pulled empty: no null pointers in them, nobody occupies them.
\<close>

definition drainable_session :: "('p, 'x) csession \<Rightarrow> bool" where
  "drainable_session s \<longleftrightarrow> tq_open (queueZero s) \<and> (\<forall>h \<in> set (dataQueues s). hyb_open h)"

definition pending_data :: "('p, 'x) csession \<Rightarrow> 'p list" where
  "pending_data s = tq_contents (queueZero s) @ concat (map hyb_contents (dataQueues s))"

lemma flush_locked_empties:
  assumes "drainable_session s"
  shows "\<exists>q0 hs. composing_flush_locked s g =
      Some (s\<lparr>queueZero := q0, dataQueues := hs,
              busyCount := busyCount s - word_of_nat (length (concat (map hyb_contents (dataQueues s)))),
              s_cblk := cb_set_flushRequested False (s_cblk s)\<rparr>,
            discard (s_autodelete s) (pending_data s) g) \<and>
      tq_open q0 \<and> tq_contents q0 = [] \<and> length hs = length (dataQueues s) \<and>
      (\<forall>h \<in> set hs. hyb_open h \<and> hyb_data h = [] \<and> occupant h = - 1)"
proof -
  from assms obtain q0 where q0: "pull_all tq_pull [] (queueZero s) = Some (tq_contents (queueZero s), q0)"
    "tq_open q0" "tq_contents q0 = []"
    using tqf.pull_all_empties [of "queueZero s" "[]"] by (auto simp: drainable_session_def)
  with flush_queues_empties [of "dataQueues s" "s_autodelete s" "busyCount s"
      "discard (s_autodelete s) (tq_contents (queueZero s)) g"] assms
  show ?thesis
    by (fastforce simp: composing_flush_locked_def drainable_session_def pending_data_def
        discard_append)
qed

section \<open>A session for the examples\<close>

definition quiet_block :: control_block where
  "quiet_block = \<lparr>cb_itsProgressProc = None, cb_parentId = NumId 1, cb_sessionPrimId = NumId 7,
     cb_sessionSecId = NumId 2, cb_paused = False, cb_flushed = False, abortByCallback = False,
     abortByCaller = False, abortByInternal = False\<rparr>"

definition demo_hyb :: "'p list \<Rightarrow> 'p hyb" where
  "demo_hyb ps = fold (\<lambda>p h. snd (hyb_castObject (Some p) 0 h)) ps (new_hyb (- 1) AFK_BC_NO_BLOCK)"

definition demo_cond :: "'x expcond" where
  "demo_cond = \<lparr>setSample = (\<lambda>_ x. x), allConditionsMet = Pair False, someConditionsMet = Pair False\<rparr>"

definition demo_session ::
  "bool \<Rightarrow> ('p option \<Rightarrow> 'p option) list \<Rightarrow> ('p option \<Rightarrow> 'p option) \<Rightarrow> 'p list \<Rightarrow> ('p, 'x) csession" where
  "demo_session ad gs f ps = (new_csession AFK_BC_NO_BLOCK True ad ''demo'' quiet_block (- 1))
     \<lparr>dataQueues := [demo_hyb ps], routinesHnds := [[], map lambda_unit gs],
      sumHnds := [None, Some (pure_routine f)], cancelHnds := [None, Some 9]\<rparr>"

definition demo_run ::
  "bool \<Rightarrow> ('p option \<Rightarrow> 'p option) list \<Rightarrow> ('p option \<Rightarrow> 'p option) \<Rightarrow> 'p list \<Rightarrow> ('p, 'x) run" where
  "demo_run ad gs f ps = \<lparr>r_session = demo_session ad gs f ps, r_gc = new_gc, r_events = []\<rparr>"

lemma map_the_eq: "map the xs = ps \<Longrightarrow> None \<notin> set xs \<Longrightarrow> xs = map Some ps"
  by (induction xs arbitrary: ps) auto

lemma new_hyb_open:
  "hyb_open (new_hyb (- 1) mode)" "hyb_contents (new_hyb occ mode) = []"
  "n < 2 ^ 63 \<Longrightarrow> hyb_room n (new_hyb occ mode)"
  by (simp_all add: hyb_open_def hyb_inv_new hyb_contents_def)
    (simp_all add: new_hyb_def tqueue.extend_def new_tqueue_def queue.extend_def hyb_room_def
      bq_room_def new_bqueue_def bq_reset_state_def bq_clearRelaxQ_def bq_items_def
      bq_contents_def new_wrap_bq_def)

lemma demo_hyb_data:
  assumes "length ps < 2 ^ 62"
  shows "hyb_open (demo_hyb ps)" and "hyb_data (demo_hyb ps) = map Some ps"
    and "n < 2 ^ 62 \<Longrightarrow> hyb_room n (demo_hyb ps)"
proof -
  let ?h = "new_hyb (- 1) AFK_BC_NO_BLOCK :: 'a hyb"
  have room: "hyb_room (length ps) ?h" using assms by (simp add: new_hyb_open)
  from hybf.enq_all [OF new_hyb_open(1) this]
  have r: "hyb_open (demo_hyb ps)" "hyb_contents (demo_hyb ps) = ps"
    by (simp_all add: demo_hyb_def new_hyb_open)
  then show "hyb_open (demo_hyb ps)" by simp
  from r show "hyb_data (demo_hyb ps) = map Some ps"
    by (auto simp: hyb_contents_def hyb_open_def intro!: map_the_eq)
  show "hyb_room n (demo_hyb ps)" if "n < 2 ^ 62"
    unfolding demo_hyb_def
    by (rule hybf.enq_all_room) (use that assms in \<open>simp_all add: new_hyb_open\<close>)
qed

lemma demo_run_fields [simp]:
  "r_session (demo_run ad gs f ps) = demo_session ad gs f ps"
  "r_gc (demo_run ad gs f ps) = new_gc" "r_events (demo_run ad gs f ps) = []"
  "s_autodelete (demo_session ad gs f ps) = ad" "\<not> s_paused (demo_session ad gs f ps)"
  "\<not> s_isStopped (demo_session ad gs f ps)" "dataQueues (demo_session ad gs f ps) = [demo_hyb ps]"
  "s_cblk (demo_session ad gs f ps) = quiet_block" "queueZero (demo_session ad gs f ps) = new_tqueue (- 1)"
  "busyCount (demo_session ad gs f ps) = 0"
  by (simp_all add: demo_run_def demo_session_def new_csession_def session.extend_def
      new_session_def new_gc_def)

lemma demo_serving:
  "length ps < 2 ^ 62 \<Longrightarrow> serving gs f (demo_hyb ps) (demo_session ad gs f ps)"
  using demo_hyb_data [of ps]
  by (simp add: serving_def quiet_block_def hyb_open_def)
    (simp add: demo_session_def new_csession_def session.extend_def new_session_def)

section \<open>Properties: processing data\<close>

lemma select_head_serving:
  assumes s: "serving gs f h (r_session r)" and "\<not> s_paused (r_session r)"
    and "\<not> s_isStopped (r_session r)"
  shows "select_head X r = Ret (None, on_session session_adoptDataFromZeroQueue r)"
proof -
  define s2 where "s2 = session_adoptDataFromZeroQueue (r_session r)"
  have "\<not> s_isStopped s2" "\<not> cancel_requested s2" "excond s2 = None"
    using assms serving_not_cancelled [OF s]
    by (auto simp: s2_def session_adoptDataFromZeroQueue_def Let_def serving_def cancel_requested_def
        session_cancellationRequestedByCallback_def session_cancellationRequestedByStarter_def)
  with assms(2) show ?thesis
    by (simp add: select_head_def Let_def on_session_def check_expiration_def flip: s2_def)
qed

lemma serving_adopt:
  "serving gs f h s \<Longrightarrow> serving gs f h (session_adoptDataFromZeroQueue s)"
  by (simp add: serving_def session_adoptDataFromZeroQueue_def Let_def)

lemma adopt_frame [simp]:
  "s_autodelete (session_adoptDataFromZeroQueue s) = s_autodelete s"
  "busyCount (session_adoptDataFromZeroQueue s) = busyCount s"
  by (simp_all add: session_adoptDataFromZeroQueue_def Let_def)

lemma select_serves:
  assumes "serving gs f h (r_session r)" and "\<not> occupied_by_other ii h"
    and "\<not> s_paused (r_session r)" and "\<not> s_isStopped (r_session r)"
    and "length (hyb_data h) < fuel"
  shows "\<exists>h'. composing_select fuel X occ ii r =
     Some (Ret (eAFK_ES_HAS_NONE,
       processed gs f (hyb_data h) h' (on_session session_adoptDataFromZeroQueue r))) \<and>
     hyb_inv h' \<and> hyb_data h' = []"
proof -
  let ?r = "on_session session_adoptDataFromZeroQueue r"
  have "serving gs f h (r_session ?r)" using serving_adopt [OF assms(1)] by (simp add: on_session_def)
  from select_loop_serves [OF this assms(2,5), of X occ] select_head_serving [OF assms(1,3,4), of X]
  show ?thesis by (simp add: composing_select_def)
qed

text \<open>
  C1: What a session computes. For routines that leave the control block alone, \<open>select\<close> comes
  back after as many turns as there are items and one more; it hands to the summary routine, for
  every item and in the order of posting, the composition of all routines applied to the item if
  the session owns its data, and the last routine applied to the unprocessed item if it does
  not; the queue is empty afterwards and the busy counter has gone down by one for every item.
\<close>

theorem select_composes:
  assumes "serving gs f h (r_session r)" and "\<not> occupied_by_other ii h"
    and "\<not> s_paused (r_session r)" and "\<not> s_isStopped (r_session r)"
    and "length (hyb_data h) < fuel" and "gs \<noteq> []"
  shows "\<exists>r' h'. composing_select fuel X occ ii r = Some (Ret (eAFK_ES_HAS_NONE, r')) \<and>
     r_events r' = r_events r @
       map (\<lambda>x. Summary_called
                  (if s_autodelete (r_session r) then fold (\<lambda>g y. g y) gs x else last gs x))
           (hyb_data h) \<and>
     dataQueues (r_session r') = [h'] \<and> hyb_data h' = [] \<and>
     busyCount (r_session r') = busyCount (r_session r) - word_of_nat (length (hyb_data h))"
  using select_serves [OF assms(1-5), of X occ] assms(6)
  by (auto simp: processed_def composed_def on_session_def)

theorem select_composes_witness:
  "\<exists>r' h'. composing_select 3 demo_cond 0 0 (demo_run True [map_option Suc, map_option ((*) 2)] id [3, 4 :: nat]) =
       Some (Ret (eAFK_ES_HAS_NONE, r')) \<and>
     r_events r' = [Summary_called (Some 8), Summary_called (Some 10)] \<and>
     dataQueues (r_session r') = [h'] \<and> hyb_data h' = []"
proof -
  let ?r = "demo_run True [map_option Suc, map_option ((*) 2)] id [3, 4 :: nat]"
  note d = demo_hyb_data [of "[3, 4 :: nat]", simplified]
  have "serving [map_option Suc, map_option ((*) 2)] id (demo_hyb [3, 4]) (r_session ?r)"
    using demo_serving [of "[3, 4 :: nat]"] by simp
  moreover have "\<not> occupied_by_other 0 (demo_hyb [3, 4 :: nat])"
    using d(1) by (simp add: hyb_open_def not_occupied)
  ultimately show ?thesis
    using select_composes [of "[map_option Suc, map_option ((*) 2)]" id "demo_hyb [3, 4 :: nat]" ?r 0 3 demo_cond 0] d
    by (auto simp: o_def)
qed

text \<open>
  A session that does not own its data, the default, does not compose its routines: the
  summary routine gets the last routine's result for the unprocessed item, whatever the other
  routines are, and nothing goes to the collector.
\<close>

corollary select_without_autodelete:
  assumes "serving (gs @ [g]) f h (r_session r)" and "\<not> occupied_by_other ii h"
    and "\<not> s_paused (r_session r)" and "\<not> s_isStopped (r_session r)"
    and "length (hyb_data h) < fuel" and "\<not> s_autodelete (r_session r)"
  shows "\<exists>r'. composing_select fuel X occ ii r = Some (Ret (eAFK_ES_HAS_NONE, r')) \<and>
     r_events r' = r_events r @ map (\<lambda>x. Summary_called (g x)) (hyb_data h) \<and> r_gc r' = r_gc r"
proof -
  have none: "concat (map (garbage False (gs @ [g]) f) xs) = []" for xs
    by (induction xs) (simp_all add: garbage_def)
  show ?thesis
    using select_serves [OF assms(1-5), of X occ] assms(6)
    by (auto simp: processed_def composed_def on_session_def none)
qed

text \<open>The life of an item: what each routine, and at last the summary routine, makes of it.\<close>

fun trajectory :: "('p option \<Rightarrow> 'p option) list \<Rightarrow> 'p option \<Rightarrow> 'p option list" where
  "trajectory [] x = [x]"
| "trajectory (g # gs) x = x # trajectory gs (g x)"

lemma trajectory_Cons: "\<exists>ys. trajectory gs x = x # ys"
  by (cases gs) auto

lemma garbage_trajectory:
  "garbage True gs f x = filter (\<lambda>p. p \<noteq> None) (remdups_adj (trajectory (gs @ [f]) x))"
proof (induction gs arbitrary: x)
  case Nil
  then show ?case by (auto simp: garbage_def composed_def Let_def)
next
  case (Cons g gs)
  obtain ys where ys: "trajectory (gs @ [f]) (g x) = g x # ys" using trajectory_Cons by blast
  from Cons [of "g x"] ys show ?case
    by (auto simp: garbage_def composed_def Let_def)
qed

lemma discard_data:
  assumes "gc_open g" and "length (gc_data g) + length ps < 2 ^ 63"
  shows "gc_data (fold gc_cast_data ps g) = gc_data g @ ps"
  using assms
proof (induction ps arbitrary: g)
  case Nil
  then show ?case by simp
next
  case (Cons p ps)
  then show ?case using gc_cast_data_open [of g p] by simp
qed

text \<open>
  C22: The collector gets every pointer of a processed item exactly once: if no routine and no
  summary routine brings back a pointer that was given up before, then the pointers a session
  that owns its data hands over while it processes an item are, without repetition, all the non-null pointers
  the item went through, from the posted one to the result of the summary routine.
\<close>

theorem item_disposed_once:
  assumes "serving gs f h (r_session r)" and "s_autodelete (r_session r)" and "\<not> qs_called st"
    and "distinct (remdups_adj (trajectory (gs @ [f]) x))" and "gc_open (r_gc r)"
    and "length (gc_data (r_gc r)) + length (garbage True gs f x) < 2 ^ 63"
  shows "\<exists>r' ps. process_item X (hotRoutR (r_session r)) x st r = Ret (None, r') \<and>
     gc_data (r_gc r') = gc_data (r_gc r) @ ps \<and> distinct ps \<and> set ps = set (trajectory (gs @ [f]) x) - {None}"
  using process_item_serving [OF assms(1,3), of X x] discard_data [OF assms(5,6)] assms(2,4)
  by (auto simp: garbage_trajectory)

theorem item_disposed_once_witness:
  "\<exists>(r' :: (nat, unit) run) ps. process_item demo_cond 1 (Some 3) new_qstat
       (demo_run True [map_option Suc, id] (\<lambda>_. None) [4]) = Ret (None, r') \<and>
     gc_data (r_gc r') = ps \<and> distinct ps \<and> set ps = {Some 3, Some 4}"
proof -
  let ?r = "demo_run True [map_option Suc, id] (\<lambda>_. None) [4] :: (nat, unit) run"
  have "serving [map_option Suc, id] (\<lambda>_. None) (demo_hyb [4]) (r_session ?r)"
    using demo_serving [of "[4 :: nat]"] by simp
  moreover have "gc_data (r_gc ?r) = []" "gc_open (r_gc ?r)" by (simp_all add: demo_run_def new_gc_def gc_open_def)
  moreover have "s_autodelete (r_session ?r)" "hotRoutR (r_session ?r) = 1"
    by (simp_all add: demo_run_def demo_session_def new_csession_def session.extend_def new_session_def)
  ultimately show ?thesis
    using item_disposed_once [of "[map_option Suc, id]" "\<lambda>_. None" "demo_hyb [4]" ?r new_qstat "Some 3" demo_cond]
    by (auto simp: garbage_trajectory insert_commute new_qstat_def)
qed

end
