(* ===== verification/ComposingSession_Paths.thy ===== *)
theory ComposingSession_Paths
  imports ComposingSession_Correct
begin

text \<open>
  The paths of a composing session other than plain service: posting from outside, flushing,
  the cancellation paths, a routine that stops its session, and the ways in which data never
  reach a routine.
\<close>

section \<open>Queues when new and when reset\<close>

lemma tq_new [simp]: "tq_open (new_tqueue (- 1))" "tq_contents (new_tqueue occ) = []"
  by (simp_all add: tq_open_def tq_contents_def new_tqueue_def queue.extend_def)

lemma tq_reset_open [simp]: "tq_open q \<Longrightarrow> tq_open (tq_reset q)" "tq_contents (tq_reset q) = []"
  by (simp_all add: tq_open_def tq_contents_def tq_reset_def queue_reset_def queue_releaseAll_def queue_init_def Let_def)

lemma hyb_room_less: "hyb_room (Suc n) h \<Longrightarrow> hyb_room n h"
  by (simp add: hyb_room_def bq_room_def)

lemma hyb_castObject_room:
  "hyb_inv h \<Longrightarrow> hyb_room (Suc n) h \<Longrightarrow> hyb_room n (snd (hyb_castObject p i h))"
  using bqf.enq_room [of "regQ h" n p]
  by (simp add: hyb_room_def hyb_inv_def hyb_castObject_def)

section \<open>Flushing\<close>

text \<open>
  C20: \<open>flush\<close> comes back for every session whose queues are free and hold no null pointers. It
  leaves all queues empty and free, lowers the flush flag, takes from the busy counter one for
  every item of the data queues (the early data were never counted), and gives every pending
  pointer to the collector, early data first and then queue by queue, if and only if the session
  owns its data.
\<close>

theorem flush_empties:
  assumes "drainable_session s"
  shows "\<exists>s' g'. composing_flush s g = Some (s', g') \<and>
     g' = discard (s_autodelete s) (pending_data s) g \<and>
     drainable_session s' \<and> pending_data s' = [] \<and> \<not> cb_flushRequested (s_cblk s') \<and>
     busyCount s' = busyCount s - word_of_nat (length (pending_data s) - length (tq_contents (queueZero s))) \<and>
     length (dataQueues s') = length (dataQueues s)"
proof -
  let ?s = "s\<lparr>s_cblk := cb_set_flushRequested True (s_cblk s)\<rparr>"
  have "drainable_session ?s" using assms by (simp add: drainable_session_def)
  from flush_locked_empties [OF this, of g] show ?thesis
    by (auto simp: composing_flush_def pending_data_def drainable_session_def hyb_contents_def
        cb_flushRequested_def cb_set_flushRequested_def)
qed

theorem flush_empties_witness:
  "\<exists>s'. composing_flush (demo_session True [] id [3, 4 :: nat]) new_gc =
       Some (s', discard True [3, 4] new_gc) \<and> pending_data s' = []"
  (is "\<exists>s'. composing_flush ?s _ = _ \<and> _")
proof -
  note d = demo_hyb_data [of "[3, 4 :: nat]", simplified]
  have "drainable_session ?s" using d(1) by (simp add: drainable_session_def)
  moreover have "pending_data ?s = [3, 4]" using d(2) by (simp add: pending_data_def hyb_contents_def)
  ultimately show ?thesis using flush_empties [of ?s new_gc] by auto
qed

text \<open>
  A null pointer in the middle of the queue stops the flush of that queue: what was posted
  after it stays behind, while the flush flag goes down as if the session were empty.
\<close>

lemma flush_stops_at_null:
  assumes "tq_open (queueZero s)" and "dataQueues s = [h]" and "hyb_free h"
    and "hyb_data h = map Some xs @ None # rest"
  shows "\<exists>s' h'. composing_flush s g =
       Some (s', discard (s_autodelete s) (tq_contents (queueZero s) @ xs) g) \<and>
     dataQueues s' = [h'] \<and> hyb_data h' = rest \<and> \<not> cb_flushRequested (s_cblk s')"
proof -
  obtain q0 where q0: "pull_all tq_pull [] (queueZero s) = Some (tq_contents (queueZero s), q0)"
    using tqf.pull_all_empties [OF assms(1), of "[]"] by auto
  obtain h1 where h1: "pull_all hyb_pull [] h = Some (xs, h1)" "hyb_free h1" "hyb_data h1 = rest"
    using hybp.pull_all_stops_at_null [OF assms(3), of "[]"] assms(4)
    by (auto simp: takeWhile_append dropWhile_append o_def)
  then have "blk_idle h1" by (simp add: hyb_free_def hyb_inv_def)
  with q0 h1 assms(2) pull_residual_idle [of h1] show ?thesis
    by (simp add: composing_flush_def composing_flush_locked_def discard_append
        cb_flushRequested_def cb_set_flushRequested_def)
qed

section \<open>Cancellation\<close>

text \<open>The handler that a cancellation finds: the one stored last.\<close>

definition cancel_handler :: "('p, 'x) csession \<Rightarrow> handle option" where
  "cancel_handler s = cancelHnds s ! unat (if cancelHndReload s then hotCancW s else hotCancR s)"

definition cancel_events :: "('p, 'x) csession \<Rightarrow> 'p event list" where
  "cancel_events s = (case cancel_handler s of
     None \<Rightarrow> [] | Some c \<Rightarrow> [Cancellation_called c (session_sid s)])"

lemma dataQueues_frame [simp]:
  "cancel_handler (s\<lparr>dataQueues := hs\<rparr>) = cancel_handler s"
  "session_sid (s\<lparr>dataQueues := hs\<rparr>) = session_sid s"
  "cancel_requested (s\<lparr>dataQueues := hs\<rparr>) = cancel_requested s"
  "cancel_events (s\<lparr>dataQueues := hs\<rparr>) = cancel_events s"
  by (simp_all add: cancel_handler_def session_sid_def cancel_requested_def cancel_events_def
      session_cancellationRequestedByStarter_def session_cancellationRequestedByCallback_def
      split: option.split)

lemma run_swap: "r\<lparr>r_gc := g, r_session := s\<rparr> = r\<lparr>r_session := s, r_gc := g\<rparr>"
  by simp

lemma cancel_path_drains:
  assumes d: "drainable_session (r_session r)" and ok: "session_slots_ok (r_session r)"
  shows "\<exists>s'. cancel_path finish r =
       Ret (finish (cancel_handler (r_session r))
         (r\<lparr>r_session := s', r_gc := discard (s_autodelete (r_session r)) (pending_data (r_session r)) (r_gc r)\<rparr>)) \<and>
     drainable_session s' \<and> pending_data s' = [] \<and> session_sid s' = session_sid (r_session r) \<and>
     s_cancelled s' = s_cancelled (r_session r) \<and> cancel_requested s' \<and> session_slots_ok s'"
proof -
  obtain sw ind s1 where sw: "session_switchCancellationHandlers (r_session r) = ((sw, ind), s1)"
    by (metis prod.exhaust)
  have s1: "cancelHnds s1 ! unat ind = cancel_handler (r_session r)"
    "queueZero s1 = queueZero (r_session r)" "dataQueues s1 = dataQueues (r_session r)"
    "s_autodelete s1 = s_autodelete (r_session r)" "s_cblk s1 = s_cblk (r_session r)"
    "s_cancelled s1 = s_cancelled (r_session r)" "session_slots_ok s1"
    using sw ok
    by (auto simp: session_switchCancellationHandlers_def cancel_handler_def session_slots_ok_def
        slots_ok_def Let_def split: if_splits)
  let ?s2 = "s1\<lparr>s_cblk := cb_set_flushRequested True (s_cblk s1)\<rparr>"
  have "drainable_session ?s2" "pending_data ?s2 = pending_data (r_session r)"
    using d s1 by (simp_all add: drainable_session_def pending_data_def)
  with flush_locked_empties [of ?s2 "r_gc r"] s1 obtain q0 hs busy where f:
    "composing_flush s1 (r_gc r) = Some (?s2\<lparr>queueZero := q0, dataQueues := hs, busyCount := busy,
        s_cblk := cb_set_flushRequested False (s_cblk ?s2)\<rparr>,
       discard (s_autodelete (r_session r)) (pending_data (r_session r)) (r_gc r))"
    "tq_open q0" "tq_contents q0 = []" "\<forall>h \<in> set hs. hyb_open h \<and> hyb_data h = []"
    by (auto simp: composing_flush_def)
  let ?s3 = "composing_cancel (?s2\<lparr>queueZero := q0, dataQueues := hs, busyCount := busy,
        s_cblk := cb_set_flushRequested False (s_cblk ?s2)\<rparr>)"
  have "drainable_session ?s3" "pending_data ?s3 = []" "cancel_requested ?s3"
    "session_sid ?s3 = session_sid (r_session r)" "s_cancelled ?s3 = s_cancelled (r_session r)"
    "cancelHnds ?s3 = cancelHnds s1" "session_slots_ok ?s3"
    using f(2-) s1 by (auto simp: session_slots_ok_def drainable_session_def pending_data_def hyb_contents_def
        composing_cancel_def session_sid_def cancel_requested_def
        session_cancellationRequestedByStarter_def cb_defs)
  moreover have "cancel_path finish r = Ret (finish (cancel_handler (r_session r))
      (r\<lparr>r_session := ?s3, r_gc := discard (s_autodelete (r_session r)) (pending_data (r_session r)) (r_gc r)\<rparr>))"
    using f(1) s1(1)
    by (simp add: cancel_path_def sw run_flush_def returns_def on_session_def composing_cancel_def run_swap)
  ultimately show ?thesis by blast
qed

lemma adopt_drainable:
  assumes "drainable_session s"
  shows "drainable_session (session_adoptDataFromZeroQueue s)"
  using assms by (simp add: drainable_session_def session_adoptDataFromZeroQueue_def Let_def)

lemma resume_drainable:
  "drainable_session s \<Longrightarrow>
   drainable_session (s\<lparr>s_paused := False, dataQueues := map tq_unoccupy (dataQueues s)\<rparr>)"
  by (auto simp: drainable_session_def hyb_open_def)

text \<open>The session as \<open>select\<close> finds it: awake again, with the early data adopted.\<close>

definition awake :: "('p, 'x) csession \<Rightarrow> ('p, 'x) csession" where
  "awake s = session_adoptDataFromZeroQueue
     (if s_paused s then s\<lparr>s_paused := False, dataQueues := map tq_unoccupy (dataQueues s)\<rparr> else s)"

lemma awake_frame [simp]:
  "s_isStopped (awake s) = s_isStopped s" "s_cblk (awake s) = s_cblk s"
  "cancelHnds (awake s) = cancelHnds s" "cancelHndReload (awake s) = cancelHndReload s"
  "hotCancR (awake s) = hotCancR s" "hotCancW (awake s) = hotCancW s"
  "s_autodelete (awake s) = s_autodelete s" "s_cancelled (awake s) = s_cancelled s"
  "busyCount (awake s) = busyCount s" "excond (awake s) = excond s"
  by (simp_all add: awake_def session_adoptDataFromZeroQueue_def Let_def)

lemma awake_requests [simp]:
  "cancel_requested (awake s) = cancel_requested s" "session_sid (awake s) = session_sid s"
  "cancel_handler (awake s) = cancel_handler s"
  "session_slots_ok s \<Longrightarrow> session_slots_ok (awake s)"
  by (simp_all add: cancel_requested_def session_cancellationRequestedByCallback_def
      session_cancellationRequestedByStarter_def session_sid_def cancel_handler_def)
    (simp add: awake_def session_adoptDataFromZeroQueue_def Let_def session_slots_ok_def)

lemma drainable_awake: "drainable_session s \<Longrightarrow> drainable_session (awake s)"
  by (simp add: awake_def adopt_drainable resume_drainable)

lemma select_cancels:
  assumes "cancel_requested (r_session r)" and "\<not> s_isStopped (r_session r)"
    and "drainable_session (r_session r)" and "session_slots_ok (r_session r)"
  shows "\<exists>r'. composing_select fuel X occ ii r = Some (Ret (eAFK_ES_WAS_CANCELLED, r')) \<and>
     r_events r' = r_events r @ cancel_events (r_session r) \<and>
     r_gc r' = discard (s_autodelete (r_session r)) (pending_data (awake (r_session r))) (r_gc r) \<and>
     s_cancelled (r_session r') \<and> pending_data (r_session r') = []"
proof -
  let ?s = "session_resetPriorityQueue (awake (r_session r))"
  have "drainable_session ?s" "session_slots_ok ?s"
    using drainable_awake [OF assms(3)] awake_requests(4) [OF assms(4)]
    by (simp_all add: drainable_session_def session_slots_ok_def session_resetPriorityQueue_def)
  from cancel_path_drains [of "r\<lparr>r_session := ?s\<rparr>" composing_invokeCancellationHandler] this
  obtain s' where c: "cancel_path composing_invokeCancellationHandler (r\<lparr>r_session := ?s\<rparr>) =
      Ret (composing_invokeCancellationHandler (cancel_handler ?s)
         (r\<lparr>r_session := s', r_gc := discard (s_autodelete ?s) (pending_data ?s) (r_gc r)\<rparr>))"
    "pending_data s' = []" "session_sid s' = session_sid ?s"
    by auto
  have eq: "cancel_handler ?s = cancel_handler (r_session r)" "s_autodelete ?s = s_autodelete (r_session r)"
    "pending_data ?s = pending_data (awake (r_session r))" "session_sid ?s = session_sid (r_session r)"
    by (simp_all add: session_resetPriorityQueue_def cancel_handler_def pending_data_def session_sid_def)
  let ?r = "composing_invokeCancellationHandler (cancel_handler ?s)
         (r\<lparr>r_session := s', r_gc := discard (s_autodelete ?s) (pending_data ?s) (r_gc r)\<rparr>)"
  have "composing_select fuel X occ ii r = Some (Ret (eAFK_ES_WAS_CANCELLED, ?r))"
    using assms(1,2) c(1)
    by (simp add: composing_select_def select_head_def Let_def on_session_def flip: awake_def)
  moreover have "r_events ?r = r_events r @ cancel_events (r_session r)"
    "r_gc ?r = discard (s_autodelete (r_session r)) (pending_data (awake (r_session r))) (r_gc r)"
    "s_cancelled (r_session ?r)" "pending_data (r_session ?r) = []"
    using c(2,3) eq
    by (auto simp: composing_invokeCancellationHandler_def call_cancel_handler_def cancel_events_def
        on_session_def log_event_def pending_data_def split: option.splits)
  ultimately show ?thesis by blast
qed



text \<open>A session with one free queue at work, with nothing asked of it.\<close>

definition at_work :: "'p hyb \<Rightarrow> ('p, 'x) csession \<Rightarrow> bool" where
  "at_work h s \<longleftrightarrow> \<not> cancel_requested s \<and> \<not> cb_flushed (s_cblk s) \<and> \<not> s_isStopped s \<and>
     \<not> s_paused s \<and> \<not> routinesHndReload s \<and> excond s = None \<and>
     runprioML s = AFK_RUN_LAMBDA_ONLY \<and> dataQueues s = [h] \<and> drainable_session s \<and>
     session_slots_ok s"

lemma select_head_at_work:
  assumes "at_work h (r_session r)"
  shows "select_head X r = Ret (None, on_session session_adoptDataFromZeroQueue r)"
    and "at_work h (session_adoptDataFromZeroQueue (r_session r))"
proof -
  define s2 where "s2 = session_adoptDataFromZeroQueue (r_session r)"
  have s2: "\<not> s_isStopped s2" "\<not> cancel_requested s2" "excond s2 = None"
    using assms
    by (auto simp: s2_def session_adoptDataFromZeroQueue_def Let_def at_work_def cancel_requested_def
        session_cancellationRequestedByCallback_def session_cancellationRequestedByStarter_def)
  then show "select_head X r = Ret (None, on_session session_adoptDataFromZeroQueue r)"
    using assms
    by (simp add: select_head_def Let_def on_session_def check_expiration_def at_work_def flip: s2_def)
  show "at_work h (session_adoptDataFromZeroQueue (r_session r))"
    using assms s2(2) adopt_drainable [of "r_session r"] unfolding s2_def
    by (simp add: at_work_def session_adoptDataFromZeroQueue_def Let_def session_slots_ok_def)
qed

lemma hyb_pull_open:
  assumes "hyb_open h" and "hyb_contents h = x # xs"
  shows "\<exists>i st h1. hyb_pullAndOccupyWithId ii new_qstat h = Ret ((Some x, i, st), h1) \<and>
     qs_validrv st \<and> \<not> qs_called st \<and> hyb_inv h1 \<and> hyb_contents h1 = xs \<and>
     hyb_open (tq_unoccupy h1)"
proof -
  from assms obtain ys where d: "hyb_data h = Some x # ys" "map the ys = xs" "None \<notin> set ys"
    by (cases "hyb_data h") (auto simp: hyb_open_def hyb_contents_def)
  with hyb_pullAndOccupy_cons [of h ii "Some x" ys new_qstat] assms(1)
  show ?thesis
    by (fastforce simp: hyb_open_def hyb_contents_def not_occupied new_qstat_def)
qed

text \<open>What the collector gets from a stopped item: the item, if it was replaced, and the result.\<close>

definition stopped_garbage :: "'p option \<Rightarrow> 'p option \<Rightarrow> 'p option list" where
  "stopped_garbage x y = (if y \<noteq> x \<and> x \<noteq> None then [x] else []) @ (if y \<noteq> None then [y] else [])"

lemma run_routines_stop:
  assumes "runL u = Some f" and "f x cb sid = (y, cb_stop cb)"
  shows "\<exists>r0. run_routines AFK_RUN_LAMBDA_ONLY ad sid (u # us)
       \<lparr>w_r0 = x, w_result = x, w_cb = cb, w_gc = g\<rparr> =
     Ret (True, \<lparr>w_r0 = r0, w_result = y, w_cb = cb_stop cb,
       w_gc = (if ad \<and> y \<noteq> x \<and> x \<noteq> None then gc_cast_data x g else g)\<rparr>)"
  using assms by (auto simp: call_lambda_def call_routine_def cb_defs Let_def)

lemma process_item_stop:
  assumes s: "drainable_session ((r_session r)\<lparr>dataQueues := [tq_unoccupy h]\<rparr>)" "session_slots_ok (r_session r)" "dataQueues (r_session r) = [h]"
    "runprioML (r_session r) = AFK_RUN_LAMBDA_ONLY"
    and u: "routinesHnds (r_session r) ! unat indR = u # us" "runL u = Some f"
    "f x (s_cblk (r_session r)) (session_sid (r_session r)) = (y, cb_stop (s_cblk (r_session r)))"
  shows "\<exists>r'. process_item X indR x st r = Ret (Some eAFK_ES_WAS_CANCELLED, r') \<and>
     r_events r' = r_events r @ cancel_events (r_session r) \<and>
     r_gc r' = discard (s_autodelete (r_session r)) (pending_data (r_session r))
       (if s_autodelete (r_session r) then fold gc_cast_data (stopped_garbage x y) (r_gc r) else r_gc r) \<and>
     s_cancelled (r_session r') = s_cancelled (r_session r) \<and>
     pending_data (r_session r') = [] \<and> busyCount (r_session r') = 0"
proof -
  let ?s = "(r_session r)\<lparr>dataQueues := [tq_unoccupy h]\<rparr>"
  let ?ad = "s_autodelete (r_session r)"
  have q: "on_queue tq_unoccupy (r_session r) = ?s" using s(3) by (simp add: on_queue_def)
  have eqs: "session_sid ?s = session_sid (r_session r)" "runprioML ?s = AFK_RUN_LAMBDA_ONLY"
    "s_autodelete ?s = ?ad" "routinesHnds ?s ! unat indR = u # us"
    "s_cblk ?s = s_cblk (r_session r)"
    using s(4) u(1) by (simp_all add: session_sid_def)
  obtain r0 where run: "run_routines (runprioML ?s) (s_autodelete ?s) (session_sid ?s)
      (routinesHnds ?s ! unat indR) \<lparr>w_r0 = x, w_result = x, w_cb = s_cblk ?s, w_gc = r_gc r\<rparr> =
    Ret (True, \<lparr>w_r0 = r0, w_result = y, w_cb = cb_stop (s_cblk ?s),
      w_gc = (if ?ad \<and> y \<noteq> x \<and> x \<noteq> None then gc_cast_data x (r_gc r) else r_gc r)\<rparr>)"
    using run_routines_stop [OF u(2,3)] unfolding eqs by blast
  define s1 where "s1 = ?s\<lparr>s_cblk := cb_stop (s_cblk ?s)\<rparr>"
  define r1 where "r1 = dispose_result y (r\<lparr>r_session := s1,
      r_gc := (if ?ad \<and> y \<noteq> x \<and> x \<noteq> None then gc_cast_data x (r_gc r) else r_gc r)\<rparr>)"
  have s1: "drainable_session s1" "session_slots_ok s1" "cancel_handler s1 = cancel_handler (r_session r)"
    "session_sid s1 = session_sid (r_session r)" "pending_data s1 = pending_data (r_session r)"
    "s_cancelled s1 = s_cancelled (r_session r)" "s_autodelete s1 = ?ad"
    using s
    by (simp_all add: s1_def drainable_session_def session_slots_ok_def cancel_handler_def
        session_sid_def cb_stop_def cb_getSessionId_def pending_data_def hyb_contents_def)
  have r1: "r_session r1 = s1" "r_events r1 = r_events r"
    "r_gc r1 = (if ?ad then fold gc_cast_data (stopped_garbage x y) (r_gc r) else r_gc r)"
    using s1(7) by (auto simp: r1_def dispose_result_def stopped_garbage_def)
  have "drainable_session (r_session r1)" "session_slots_ok (r_session r1)"
    using s1 r1(1) by simp_all
  from cancel_path_drains [OF this, of call_cancel_handler, unfolded r1(1) s1(3-7)] obtain s' where
    c: "cancel_path call_cancel_handler r1 = Ret (call_cancel_handler (cancel_handler (r_session r))
         (r1\<lparr>r_session := s', r_gc := discard ?ad (pending_data (r_session r)) (r_gc r1)\<rparr>))"
    "pending_data s' = []" "session_sid s' = session_sid (r_session r)"
    "s_cancelled s' = s_cancelled (r_session r)"
    by blast
  let ?r2 = "on_session (\<lambda>s. s\<lparr>busyCount := 0\<rparr>) (call_cancel_handler (cancel_handler (r_session r))
         (r1\<lparr>r_session := s', r_gc := discard ?ad (pending_data (r_session r)) (r_gc r1)\<rparr>))"
  have "process_item X indR x st r = Ret (Some eAFK_ES_WAS_CANCELLED, ?r2)"
    by (simp only: process_item_def Let_def q run obind.simps prod.case work.select_convs if_True
        c(1) flip: s1_def r1_def)
  moreover have "r_events ?r2 = r_events r @ cancel_events (r_session r)"
    "r_gc ?r2 = discard ?ad (pending_data (r_session r)) (r_gc r1)"
    "s_cancelled (r_session ?r2) = s_cancelled (r_session r)" "pending_data (r_session ?r2) = []"
    "busyCount (r_session ?r2) = 0"
    using c(2-) r1(1,2)
    by (auto simp: call_cancel_handler_def cancel_events_def on_session_def log_event_def
        pending_data_def split: option.splits)
  ultimately show ?thesis unfolding r1(3) by blast
qed

text \<open>A session at work with an item in its queue: \<open>select\<close> comes to the item in its first turn.\<close>

lemma select_first_item:
  assumes "at_work h (r_session r)" and "hyb_contents h = x # xs"
  obtains st h1 where "hyb_contents h1 = xs" and "hyb_open (tq_unoccupy h1)"
    and "composing_select (Suc fuel) X occ ii r =
      (case process_item X (hotRoutR (r_session r)) (Some x) st
              (r\<lparr>r_session := (session_adoptDataFromZeroQueue (r_session r))\<lparr>dataQueues := [h1]\<rparr>\<rparr>) of
         Ret (Some status, r1) \<Rightarrow> Some (Ret (status, r1))
       | Ret (None, r1) \<Rightarrow> select_loop fuel X occ ii r1
       | Blocked \<Rightarrow> Some Blocked
       | Fault e \<Rightarrow> Some (Fault e))"
proof -
  define s2 where "s2 = session_adoptDataFromZeroQueue (r_session r)"
  note head = select_head_at_work [OF assms(1), folded s2_def]
  have h: "hyb_open h" using assms(1) by (simp add: at_work_def drainable_session_def)
  from hyb_pull_open [OF h assms(2), of ii] obtain i st h1 where
    p: "hyb_pullAndOccupyWithId ii new_qstat h = Ret ((Some x, i, st), h1)" "qs_validrv st"
      "hyb_contents h1 = xs" "hyb_open (tq_unoccupy h1)"
    by auto
  have hot: "hotRoutR s2 = hotRoutR (r_session r)"
    by (simp add: s2_def session_adoptDataFromZeroQueue_def Let_def)
  have "select_turn X occ ii (r\<lparr>r_session := s2\<rparr>) =
      process_item X (hotRoutR (r_session r)) (Some x) st (r\<lparr>r_session := s2\<lparr>dataQueues := [h1]\<rparr>\<rparr>)"
    using head(2) p(1,2) hot
    by (simp add: select_turn_def at_work_def cb_flushRequested_def
        session_switchRoutinesHandlers_def Let_def)
  then have "composing_select (Suc fuel) X occ ii r =
      (case process_item X (hotRoutR (r_session r)) (Some x) st (r\<lparr>r_session := s2\<lparr>dataQueues := [h1]\<rparr>\<rparr>) of
         Ret (Some status, r1) \<Rightarrow> Some (Ret (status, r1))
       | Ret (None, r1) \<Rightarrow> select_loop fuel X occ ii r1
       | Blocked \<Rightarrow> Some Blocked
       | Fault e \<Rightarrow> Some (Fault e))"
    by (simp add: composing_select_def head(1) on_session_def flip: s2_def)
  with that [OF p(3,4)] show thesis unfolding s2_def by blast
qed

lemma adopted_frame:
  assumes "at_work h s" and "tq_contents (queueZero s) = []" and "hyb_contents h1 = xs" and "hyb_open (tq_unoccupy h1)"
  shows "drainable_session (((session_adoptDataFromZeroQueue s)\<lparr>dataQueues := [h1]\<rparr>)\<lparr>dataQueues := [tq_unoccupy h1]\<rparr>)"
    and "session_slots_ok ((session_adoptDataFromZeroQueue s)\<lparr>dataQueues := [h1]\<rparr>)"
    and "pending_data ((session_adoptDataFromZeroQueue s)\<lparr>dataQueues := [h1]\<rparr>) = xs"
    and "cancel_events ((session_adoptDataFromZeroQueue s)\<lparr>dataQueues := [h1]\<rparr>) = cancel_events s"
    and "session_sid ((session_adoptDataFromZeroQueue s)\<lparr>dataQueues := [h1]\<rparr>) = session_sid s"
    and "runprioML ((session_adoptDataFromZeroQueue s)\<lparr>dataQueues := [h1]\<rparr>) = AFK_RUN_LAMBDA_ONLY"
proof -
  have "session_adoptDataFromZeroQueue s = awake s" using assms(1) by (simp add: awake_def at_work_def)
  then have "cancel_events (session_adoptDataFromZeroQueue s) = cancel_events s"
    "session_sid (session_adoptDataFromZeroQueue s) = session_sid s"
    by (simp_all add: cancel_events_def split: option.split)
  then show "cancel_events ((session_adoptDataFromZeroQueue s)\<lparr>dataQueues := [h1]\<rparr>) = cancel_events s"
    "session_sid ((session_adoptDataFromZeroQueue s)\<lparr>dataQueues := [h1]\<rparr>) = session_sid s"
    by simp_all
qed (use assms in \<open>simp_all add: session_adoptDataFromZeroQueue_def Let_def at_work_def drainable_session_def
    session_slots_ok_def pending_data_def\<close>)



end
