(* ===== verification/ComposingSession_Data.thy ===== *)
theory ComposingSession_Data
  imports ComposingSession_Paths
begin

text \<open>
  From the producer's side: what becomes of posted data, of data posted before the routines are
  set, of the queue when the routines are replaced, and of a queue that looks occupied; and which
  of the stored handlers a session uses.
\<close>

section \<open>Posting\<close>

definition post_all :: "'p list \<Rightarrow> ('p, 'x) csession \<Rightarrow> ('p, 'x) csession" where
  "post_all ps s = fold (\<lambda>p s. snd (composing_postData (Some p) s)) ps s"

lemma post_all_queue:
  "dataQueues s = [h] \<Longrightarrow> \<not> cb_flushed (s_cblk s) \<Longrightarrow>
   post_all ps s = s\<lparr>dataQueues := [fold (\<lambda>p h. snd (hyb_castObject (Some p) 0 h)) ps h]\<rparr>"
proof (induction ps arbitrary: s h)
  case Nil
  then show ?case by (simp add: post_all_def)
next
  case (Cons p ps)
  let ?h = "snd (hyb_castObject (Some p) 0 h)"
  have "snd (composing_postData (Some p) s) = s\<lparr>dataQueues := [?h]\<rparr>"
    using Cons.prems by (simp add: composing_postData_def cb_flushRequested_def split: prod.split)
  moreover have "post_all ps (s\<lparr>dataQueues := [?h]\<rparr>) =
      s\<lparr>dataQueues := [fold (\<lambda>p h. snd (hyb_castObject (Some p) 0 h)) ps ?h]\<rparr>"
    using Cons.IH [of "s\<lparr>dataQueues := [?h]\<rparr>" ?h] Cons.prems by simp
  ultimately show ?case by (simp add: post_all_def)
qed

lemma post_all_serving:
  assumes "serving gs f h s" and "hyb_open h" and "hyb_room (length ps) h"
  obtains h' where "post_all ps s = s\<lparr>dataQueues := [h']\<rparr>" and "serving gs f h' (s\<lparr>dataQueues := [h']\<rparr>)"
    and "\<forall>ii. \<not> occupied_by_other ii h'" and "hyb_data h' = map Some (hyb_contents h @ ps)"
proof -
  define h' where "h' = fold (\<lambda>p h. snd (hyb_castObject (Some p) 0 h)) ps h"
  have h': "hyb_open h'" "hyb_contents h' = hyb_contents h @ ps"
    using hybf.enq_all [OF assms(2,3)] by (simp_all add: h'_def)
  then have "hyb_data h' = map Some (hyb_contents h @ ps)"
    by (intro map_the_eq) (auto simp: hyb_contents_def hyb_open_def)
  moreover have "post_all ps s = s\<lparr>dataQueues := [h']\<rparr>"
    using assms(1) by (simp add: serving_def post_all_queue h'_def)
  moreover have "serving gs f h' (s\<lparr>dataQueues := [h']\<rparr>)"
    using assms(1) h'(1) by (simp add: serving_def hyb_open_def)
  moreover have "\<forall>ii. \<not> occupied_by_other ii h'"
    using h'(1) by (simp add: hyb_open_def not_occupied)
  ultimately show thesis by (rule that [rotated -1])
qed

text \<open>
  C15: From posting to the summary. Everything posted to a session at work, after what its queue
  already held, reaches the summary routine exactly once and in the order of posting, as the
  composition of the routines for a session that owns its data and as the last routine's result
  for one that does not.
\<close>

theorem posted_data_served:
  assumes "serving gs f h (r_session r)" and "hyb_open h" and "hyb_room (length ps) h"
    and "\<not> s_paused (r_session r)" and "\<not> s_isStopped (r_session r)" and "gs \<noteq> []"
    and "length (hyb_contents h @ ps) < fuel"
  shows "\<exists>r'. composing_select fuel X occ ii (on_session (post_all ps) r) =
       Some (Ret (eAFK_ES_HAS_NONE, r')) \<and>
     r_events r' = r_events r @
       map (\<lambda>p. Summary_called
                  (if s_autodelete (r_session r) then fold (\<lambda>g y. g y) gs (Some p) else last gs (Some p)))
           (hyb_contents h @ ps) \<and>
     concat (map hyb_data (dataQueues (r_session r'))) = []"
proof -
  obtain h' where h': "post_all ps (r_session r) = (r_session r)\<lparr>dataQueues := [h']\<rparr>"
    "serving gs f h' ((r_session r)\<lparr>dataQueues := [h']\<rparr>)" "\<forall>ii. \<not> occupied_by_other ii h'"
    "hyb_data h' = map Some (hyb_contents h @ ps)"
    by (rule post_all_serving [OF assms(1-3)])
  let ?r = "r\<lparr>r_session := (r_session r)\<lparr>dataQueues := [h']\<rparr>\<rparr>"
  have "\<exists>h''. composing_select fuel X occ ii ?r = Some (Ret (eAFK_ES_HAS_NONE,
       processed gs f (hyb_data h') h'' (on_session session_adoptDataFromZeroQueue ?r))) \<and>
     hyb_inv h'' \<and> hyb_data h'' = []"
    by (rule select_serves) (use h'(2-4) assms(4,5,7) in simp_all)
  then show ?thesis
    using h'(4) assms(6) by (auto simp: h'(1) processed_def composed_def on_session_def o_def)
qed

theorem posted_data_served_witness:
  "\<exists>r'. composing_select 3 demo_cond 0 0 (on_session (post_all [4])
       (demo_run True [map_option Suc, map_option ((*) 2)] id [3 :: nat])) =
         Some (Ret (eAFK_ES_HAS_NONE, r')) \<and>
     r_events r' = [Summary_called (Some 8), Summary_called (Some 10)]"
  (is "\<exists>r'. composing_select _ _ _ _ (on_session _ ?r) = _ \<and> _")
proof -
  note d = demo_hyb_data [of "[3 :: nat]", simplified]
  have "serving [map_option Suc, map_option ((*) 2)] id (demo_hyb [3]) (r_session ?r)"
    using demo_serving [of "[3 :: nat]"] by simp
  moreover have "hyb_room 1 (demo_hyb [3 :: nat])" using demo_hyb_data(3) [of "[3 :: nat]" 1] by simp
  ultimately show ?thesis
    using posted_data_served [of "[map_option Suc, map_option ((*) 2)]" id "demo_hyb [3 :: nat]" ?r "[4]" 3 demo_cond 0 0]
      d by (auto simp: hyb_contents_def o_def)
qed

text \<open>
  C38: Data posted before the session has a queue are lost. They wait in \<open>queueZero\<close>; the next
  \<open>select\<close> of a session that has a queue empties it, no routine and no summary routine sees what
  was in it (the events are those of the queue's own items), and the collector does not get it
  either.
\<close>

theorem early_data_lost:
  assumes "serving gs f h (r_session r)" and "\<not> occupied_by_other ii h"
    and "\<not> s_paused (r_session r)" and "\<not> s_isStopped (r_session r)"
    and "length (hyb_data h) < fuel"
    and "itsQ (queueZero (r_session r)) \<noteq> []" and "length (itsQ (queueZero (r_session r))) < 2 ^ 63"
  shows "\<exists>r'. composing_select fuel X occ ii r = Some (Ret (eAFK_ES_HAS_NONE, r')) \<and>
     itsQ (queueZero (r_session r')) = [] \<and>
     r_events r' = r_events r @
       map (\<lambda>x. Summary_called (composed (s_autodelete (r_session r)) gs x)) (hyb_data h) \<and>
     r_gc r' = fold gc_cast_data
       (concat (map (garbage (s_autodelete (r_session r)) gs f) (hyb_data h))) (r_gc r)"
proof -
  let ?s = "r_session r"
  have "0 < sint (queue_size (queueZero ?s))"
    using assms(6,7) sint_size_of [of "itsQ (queueZero ?s)"] by (simp add: queue_size_def)
  moreover have "dataQueues ?s \<noteq> []" using assms(1) by (simp add: serving_def)
  ultimately have "itsQ (queueZero (session_adoptDataFromZeroQueue ?s)) = []"
    by (simp add: session_adoptDataFromZeroQueue_def Let_def tq_reset_def queue_reset_def
        queue_releaseAll_def queue_init_def)
  with select_serves [OF assms(1-5), of X occ] show ?thesis
    by (auto simp: processed_def on_session_def)
qed

theorem early_data_lost_witness:
  "\<exists>r'. composing_select 1 demo_cond 0 0 (on_session (\<lambda>s. s\<lparr>queueZero := snd (tq_castObject (Some 8) 0 (queueZero s))\<rparr>)
       (demo_run True [map_option Suc] id ([] :: nat list))) = Some (Ret (eAFK_ES_HAS_NONE, r')) \<and>
     itsQ (queueZero (r_session r')) = [] \<and> r_events r' = [] \<and> r_gc r' = new_gc"
  (is "\<exists>r'. composing_select _ _ _ _ ?r = _ \<and> _")
proof -
  note d = demo_hyb_data [of "[] :: nat list", simplified]
  have "serving [map_option Suc] id (demo_hyb []) (r_session ?r)"
    using demo_serving [of "[] :: nat list" "[map_option Suc]" id] by (simp add: serving_def on_session_def)
  moreover have "\<not> occupied_by_other 0 (demo_hyb ([] :: nat list))"
    using d(1) by (simp add: hyb_open_def not_occupied)
  moreover have "itsQ (queueZero (r_session ?r)) = [Some 8]"
    by (simp add: on_session_def new_tqueue_def queue.extend_def tq_castObject_def)
  ultimately show ?thesis
    using early_data_lost [of "[map_option Suc]" id "demo_hyb []" ?r 0 1 demo_cond 0] d by (simp add: on_session_def)
qed

section \<open>Replacing the routines\<close>

lemma destroy_queues_run: "\<forall>h \<in> set hs. hyb_inv h \<Longrightarrow> destroy_queues hs = Ret ()"
  by (induction hs) (simp_all add: hyb_destroy_runs)

text \<open>
  C39: Setting the routines again drops the queue. The first turn after \<open>setRoutines\<close> destroys the
  session's queue with all that is in it: nothing of it is processed, nothing goes to the
  collector, the busy counter is not corrected, and the session reports that it has no more work.
\<close>

theorem reload_drops_queue:
  assumes "at_work h s" and "us \<noteq> []" and "r_session r = snd (composing_setRoutines us s)"
  shows "\<exists>r' h'. select_turn X occ ii r = Ret (Some eAFK_ES_HAS_NONE, r') \<and>
     dataQueues (r_session r') = [h'] \<and> hyb_data h' = [] \<and> r_events r' = r_events r \<and>
     r_gc r' = r_gc r \<and> busyCount (r_session r') = busyCount s \<and>
     routinesHnds (r_session r') ! unat (hotRoutR (r_session r')) = us"
proof -
  define s1 where "s1 = snd (session_switchRoutinesHandlers (r_session r))"
  obtain ind where sw: "session_switchRoutinesHandlers (r_session r) = ((True, ind), s1)"
    using assms(3) by (simp add: s1_def session_switchRoutinesHandlers_def composing_setRoutines_def
        session_setRoutines_raw_def Let_def)
  have s1: "routinesHnds s1 ! unat (hotRoutR s1) = us" "dataQueues s1 = [h]" "busyCount s1 = busyCount s"
    using assms
    by (auto simp: s1_def session_switchRoutinesHandlers_def composing_setRoutines_def
        session_setRoutines_raw_def Let_def at_work_def session_slots_ok_def slots_ok_def)
  have inv: "hyb_inv h" using assms(1) by (simp add: at_work_def drainable_session_def hyb_open_def)
  let ?new = "new_hyb occ (callMode s1) :: 'a hyb"
  have rec: "composing_reconfigureDataqueues occ s1 = Ret (s1\<lparr>dataQueues := [?new]\<rparr>)"
    using s1 assms(2) inv by (simp add: composing_reconfigureDataqueues_def hyb_destroy_runs)
  obtain h1 i st where p: "hyb_pullAndOccupyWithId ii new_qstat ?new = Ret ((None, i, st), h1)"
    "\<not> qs_validrv st" "qs_empty st" "hyb_data h1 = []"
    using hyb_pullAndOccupy_cases [OF hyb_inv_new [of occ "callMode s1"], of ii new_qstat]
    by (fastforce split: if_splits)
  have "\<not> cancel_requested (r_session r)" "\<not> cb_flushed (s_cblk (r_session r))"
    using assms(1,3)
    by (simp_all add: at_work_def composing_setRoutines_def session_setRoutines_raw_def
        cancel_requested_def session_cancellationRequestedByStarter_def
        session_cancellationRequestedByCallback_def)
  then have "select_turn X occ ii r = Ret (Some eAFK_ES_HAS_NONE,
      r\<lparr>r_session := (session_resetPriorityQueue (s1\<lparr>dataQueues := [?new]\<rparr>))\<lparr>dataQueues := [h1]\<rparr>\<rparr>)"
    using sw rec p(1-3)
    by (simp add: select_turn_def cb_flushRequested_def session_resetPriorityQueue_def Let_def)
  with p(4) s1 show ?thesis by (simp add: session_resetPriorityQueue_def)
qed

lemma demo_at_work:
  "length ps < 2 ^ 62 \<Longrightarrow> at_work (demo_hyb ps) (demo_session ad gs f ps)"
  using demo_hyb_data [of ps]
  by (simp add: at_work_def cancel_requested_def quiet_block_def drainable_session_def
      session_cancellationRequestedByStarter_def session_cancellationRequestedByCallback_def cb_defs)
    (simp add: demo_session_def new_csession_def session.extend_def new_session_def
      session_slots_ok_def slots_ok_def)

theorem reload_drops_queue_witness:
  "\<exists>r' h'. select_turn demo_cond 0 0 (on_session (\<lambda>s. snd (composing_setRoutines [lambda_unit id] s))
       (demo_run True [map_option Suc] id [3, 4 :: nat])) = Ret (Some eAFK_ES_HAS_NONE, r') \<and>
     dataQueues (r_session r') = [h'] \<and> hyb_data h' = [] \<and> r_events r' = [] \<and> r_gc r' = new_gc"
  (is "\<exists>r' h'. select_turn _ _ _ ?r = _ \<and> _")
proof -
  have "at_work (demo_hyb [3, 4 :: nat]) (demo_session True [map_option Suc] id [3, 4])"
    by (rule demo_at_work) simp
  from reload_drops_queue [OF this, of "[lambda_unit id]" ?r demo_cond 0 0] show ?thesis
    by (auto simp: on_session_def)
qed

section \<open>A queue that looks occupied\<close>

text \<open>
  C40: A worker whose session's queue holds data and is marked as occupied by another reader does
  not come back from \<open>select\<close>, however many turns it is given, and makes no progress. This is
  the state of a fresh queue if the \<open>occupant\<close> that no constructor sets happens to be another
  non-negative number.
\<close>

theorem occupied_queue_spins:
  assumes "serving gs f h (r_session r)" and "occupied_by_other ii h" and "hyb_data h \<noteq> []"
    and "\<not> s_paused (r_session r)" and "\<not> s_isStopped (r_session r)"
  shows "composing_select fuel X occ ii r = None"
proof -
  have loop: "serving gs f h (r_session r) \<Longrightarrow> occupied_by_other ii h \<Longrightarrow> hyb_data h \<noteq> [] \<Longrightarrow>
      select_loop fuel X occ ii r = None" for h and r :: "('a, 'b) run"
  proof (induction fuel arbitrary: h r)
    case 0
    then show ?case by simp
  next
    case (Suc fuel)
    have inv: "hyb_inv h" using Suc.prems(1) by (simp add: serving_def)
    obtain h1 st where p: "hyb_pullAndOccupyWithId ii new_qstat h = Ret ((None, - 1, st), h1)"
      "\<not> qs_validrv st" "\<not> qs_empty st" "hyb_inv h1" "hyb_data h1 = hyb_data h" "occupant h1 = occupant h"
      using hyb_pullAndOccupy_busy [OF inv Suc.prems(2), of new_qstat] Suc.prems(3) by auto
    let ?r = "r\<lparr>r_session := (r_session r)\<lparr>dataQueues := [h1]\<rparr>\<rparr>"
    have "select_turn X occ ii r = Ret (None, ?r)"
      using Suc.prems(1) serving_not_cancelled [OF Suc.prems(1)] p(1-3)
      by (simp add: select_turn_def serving_def cb_flushRequested_def
          session_switchRoutinesHandlers_def Let_def)
    moreover have "serving gs f h1 (r_session ?r)" using Suc.prems(1) p(4) by (simp add: serving_def)
    moreover have "occupied_by_other ii h1" using Suc.prems(2) p(6) by (simp add: occupied_by_other_def)
    ultimately show ?case using Suc.IH [of h1 ?r] Suc.prems(3) p(5) by simp
  qed
  let ?r = "on_session session_adoptDataFromZeroQueue r"
  have "serving gs f h (r_session ?r)" using serving_adopt [OF assms(1)] by (simp add: on_session_def)
  from loop [OF this assms(2,3)] select_head_serving [OF assms(1,4,5), of X]
  show ?thesis by (simp add: composing_select_def)
qed

lemma serving_new_queue:
  "serving gs f h s \<Longrightarrow> hyb_inv h' \<Longrightarrow> serving gs f h' (s\<lparr>dataQueues := [h']\<rparr>)"
  by (simp add: serving_def)

lemma at_work_slots: "at_work h s \<Longrightarrow> session_slots_ok s"
  by (simp add: at_work_def)

theorem occupied_queue_spins_witness:
  "composing_select 1000 demo_cond 0 0 (on_session
       (\<lambda>s. s\<lparr>dataQueues := [snd (hyb_castObject (Some 3) 0 (new_hyb 17 AFK_BC_NO_BLOCK))]\<rparr>)
       (demo_run True [map_option Suc] id ([] :: nat list))) = None"
  (is "composing_select _ _ _ _ ?r = _")
proof -
  let ?h = "snd (hyb_castObject (Some 3) 0 (new_hyb 17 AFK_BC_NO_BLOCK)) :: nat hyb"
  have "hyb_room 1 (new_hyb 17 AFK_BC_NO_BLOCK :: nat hyb)" by (simp add: new_hyb_open)
  note h = hyb_castObject_inv [OF hyb_inv_new this, of "Some 3" 0]
  have "serving [map_option Suc] id ?h (r_session ?r)"
    using h(1) by (simp add: on_session_def serving_new_queue [OF demo_serving])
  moreover have "occupied_by_other 0 ?h"
    using h(3) by (simp add: occupied_by_other_def new_hyb_def tqueue.extend_def new_tqueue_def queue.extend_def)
  moreover have "hyb_data ?h \<noteq> []" using h(2) by simp
  ultimately show ?thesis
    by (rule occupied_queue_spins) (simp_all add: on_session_def)
qed

section \<open>Which handler is used\<close>



end
