(* ===== verification/Scheduler.thy ===== *)
theory Scheduler
  imports Prelude "HOL-Library.Signed_Division"
begin

text \<open>
  The part of \<open>CPPAFKThreadpoolState\<close> that shares out the sessions among the processors:
  \<open>CPPAFKThreadpoolConfig\<close>, \<open>CPPAFKThreadpoolConfigRange\<close> (CPPAFKThreadpool.hpp) and
  \<open>reassignProcs\<close> (CPPAFKThreadpool.cpp), with the start of the threads as far as it sets the
  configuration.
\<close>

record tp_config =
  tp_share :: i64
  tp_residue :: i64
  actualThreadsCount :: i64
  requiredThreadsCount :: i64

record tp_range =
  lowBound :: u64
  rangeLength :: u64

record sched =
  tpcfg :: tp_config
  vectProc2Bounds :: "tp_range list"
  numCPUs :: u16

text \<open>Division of signed 64-bit integers, which truncates towards zero.\<close>

definition i64_div :: "i64 \<Rightarrow> i64 \<Rightarrow> i64" where
  "i64_div a b = word_of_int (sint a sdiv sint b)"

definition i64_mod :: "i64 \<Rightarrow> i64 \<Rightarrow> i64" where
  "i64_mod a b = word_of_int (sint a smod sint b)"

text \<open>
  The loop that deals out at least one slot to each processor: \<open>lb\<close> is the first slot not yet
  given away, \<open>residue\<close> how many processors still get one more than the share.
\<close>

fun spread :: "nat \<Rightarrow> i64 \<Rightarrow> i64 \<Rightarrow> i64 \<Rightarrow> tp_range list" where
  "spread 0 residue lb share = []"
| "spread (Suc n) residue lb share =
     (let more_slots = sint residue > 0;
          len = (if more_slots then share + 1 else share);
          residue' = (if more_slots then residue - 1 else residue)
      in \<lparr>lowBound = lb, rangeLength = len\<rparr> # spread n residue' (lb + len) share)"

text \<open>
  \<open>reassignProcs\<close>: \<open>tpc\<close> is the caller's copy of the configuration, which is changed; the new
  number of required threads goes to the member, not to the copy. The result is the copy and the
  state. An index beyond \<open>vectProc2Bounds\<close> is undefined behaviour.
\<close>

definition reassign_bounds :: "tp_config \<Rightarrow> tp_range list \<Rightarrow> (tp_config \<times> tp_range list) outcome" where
  "reassign_bounds tpc vs =
     (let n = nat (sint (actualThreadsCount tpc)); req = requiredThreadsCount tpc in
      if req = 0
      then (if length vs < n then Fault Out_of_range
            else Ret (tpc, replicate n \<lparr>lowBound = 0, rangeLength = 0\<rparr> @ drop n vs))
      else if sint req < sint (actualThreadsCount tpc)
      then (if length vs < n then Fault Out_of_range
            else Ret (tpc\<lparr>tp_share := i64_div (actualThreadsCount tpc) req,
                          tp_residue := i64_mod (actualThreadsCount tpc) req\<rparr>,
                      map (\<lambda>proc. \<lparr>lowBound = i64_mod (word_of_nat proc) req, rangeLength = 1\<rparr>) [0..<n] @
                      drop n vs))
      else if actualThreadsCount tpc = 0 then Fault Div_by_zero
      else (let sh = i64_div req (actualThreadsCount tpc); res = i64_mod req (actualThreadsCount tpc)
            in if length vs < n then Fault Out_of_range
               else Ret (tpc\<lparr>tp_share := sh, tp_residue := res\<rparr>, spread n res 0 sh @ drop n vs)))"

definition state_reassignProcs ::
  "tp_config \<Rightarrow> i64 \<Rightarrow> 'z sched_scheme \<Rightarrow> (tp_config \<times> 'z sched_scheme) outcome" where
  "state_reassignProcs tpc reqThreads st =
     (let st1 = st\<lparr>tpcfg := (tpcfg st)\<lparr>requiredThreadsCount := reqThreads\<rparr>\<rparr>
      in obind (reassign_bounds (tpc\<lparr>actualThreadsCount := ucast (numCPUs st)\<rparr>) (vectProc2Bounds st1))
           (\<lambda>(tpc', vs). Ret (tpc', st1\<lparr>vectProc2Bounds := vs\<rparr>)))"

text \<open>
  \<open>createThreads\<close> as far as the configuration goes: the number of processors is kept in 16 bits,
  and with none of them (\<open>hardware_concurrency\<close> may return 0) the division fails. The result
  also says how many threads are started.
\<close>

definition pool_createThreads ::
  "u64 \<Rightarrow> u64 \<Rightarrow> 'z sched_scheme \<Rightarrow> (nat \<times> 'z sched_scheme) outcome" where
  "pool_createThreads hardware_concurrency numProcs st =
     (let n = (if numProcs = - 1 \<or> numProcs = 0 then hardware_concurrency else numProcs);
          cpus = ucast n :: u16;
          cfg = (tpcfg st)\<lparr>actualThreadsCount := ucast cpus, requiredThreadsCount := ucast cpus\<rparr>
      in if cpus = 0 then Fault Div_by_zero
         else Ret (unat n, st\<lparr>numCPUs := cpus, tpcfg := cfg\<lparr>
                tp_residue := i64_mod (requiredThreadsCount cfg) (actualThreadsCount cfg),
                tp_share := i64_div (requiredThreadsCount cfg) (actualThreadsCount cfg)\<rparr>\<rparr>))"

section \<open>The slots of a range\<close>

definition range_slots :: "tp_range \<Rightarrow> nat list" where
  "range_slots r = [unat (lowBound r) ..< unat (lowBound r) + unat (rangeLength r)]"

lemma unat_word_nat: "n < 2 ^ 63 \<Longrightarrow> unat (word_of_nat n :: u64) = n"
  by (simp add: unat_of_nat)

lemma sint_word_nat: "n < 2 ^ 63 \<Longrightarrow> sint (word_of_nat n :: i64) = int n"
  using sint_size_of [of "replicate n ()"] by (simp add: size_of_def)

lemma word_nat_dec: "0 < n \<Longrightarrow> (word_of_nat n :: i64) - 1 = word_of_nat (n - 1)"
  by (simp add: of_nat_diff)

lemma sdiv_smod_nat: "int a sdiv int b = int (a div b)" "int a smod int b = int (a mod b)"
  by (simp_all add: signed_divide_int_def signed_modulo_int_def sgn_if zdiv_int zmod_int)

lemma i64_div_nat:
  "a < 2 ^ 63 \<Longrightarrow> b < 2 ^ 63 \<Longrightarrow> i64_div (word_of_nat a) (word_of_nat b) = word_of_nat (a div b)"
  by (simp only: i64_div_def sint_word_nat sdiv_smod_nat of_int_of_nat_eq)

lemma i64_mod_nat:
  "a < 2 ^ 63 \<Longrightarrow> b < 2 ^ 63 \<Longrightarrow> i64_mod (word_of_nat a) (word_of_nat b) = word_of_nat (a mod b)"
  by (simp only: i64_mod_def sint_word_nat sdiv_smod_nat of_int_of_nat_eq)

lemma upt_join: "i \<le> j \<Longrightarrow> j \<le> k \<Longrightarrow> [i ..< j] @ [j ..< k] = [i ..< k]"
  by (metis le_Suc_ex upt_add_eq_append)

text \<open>The ranges dealt out follow each other without a gap, and their sizes differ by at most one.\<close>

lemma spread_slots:
  "lb + n * sh + min res n < 2 ^ 63 \<Longrightarrow> res < 2 ^ 63 \<Longrightarrow> sh < 2 ^ 62 \<Longrightarrow>
   concat (map range_slots (spread n (word_of_nat res) (word_of_nat lb) (word_of_nat sh))) =
     [lb ..< lb + n * sh + min res n] \<and>
   (\<forall>r \<in> set (spread n (word_of_nat res) (word_of_nat lb) (word_of_nat sh)).
      unat (rangeLength r) = sh \<or> unat (rangeLength r) = Suc sh)"
proof (induction n arbitrary: lb res)
  case 0
  then show ?case by simp
next
  case (Suc n)
  define len where "len = (if 0 < res then Suc sh else sh)"
  have len: "(if sint (word_of_nat res :: i64) > 0 then word_of_nat sh + 1 else word_of_nat sh :: i64) =
      word_of_nat len" using Suc.prems by (simp add: len_def sint_word_nat add.commute)
  have res: "(if sint (word_of_nat res :: i64) > 0 then word_of_nat res - 1 else word_of_nat res :: i64) =
      word_of_nat (res - 1)"
    using sint_word_nat [OF Suc.prems(2)] word_nat_dec [of res]
    by (simp only: of_nat_0_less_iff split: if_split) simp
  have small: "lb < 2 ^ 63" "len < 2 ^ 63" using Suc.prems by (auto simp: len_def)
  have eq: "lb + len + n * sh + min (res - 1) n = lb + Suc n * sh + min res (Suc n)"
    by (auto simp: len_def min_def)
  have "lb + len + n * sh + min (res - 1) n < 2 ^ 63" "res - 1 < 2 ^ 63"
    using Suc.prems eq by linarith+
  note ih = Suc.IH [OF this Suc.prems(3), unfolded eq]
  have "[lb ..< lb + len] @ [lb + len ..< lb + Suc n * sh + min res (Suc n)] =
      [lb ..< lb + Suc n * sh + min res (Suc n)]"
    by (rule upt_join) (auto simp: len_def)
  moreover have "spread (Suc n) (word_of_nat res) (word_of_nat lb) (word_of_nat sh) =
      \<lparr>lowBound = word_of_nat lb, rangeLength = word_of_nat len\<rparr> #
        spread n (word_of_nat (res - 1)) (word_of_nat (lb + len)) (word_of_nat sh)"
    unfolding spread.simps Let_def len res of_nat_add ..
  moreover have "range_slots \<lparr>lowBound = word_of_nat lb, rangeLength = word_of_nat len\<rparr> = [lb ..< lb + len]"
    "unat (word_of_nat len :: u64) = len"
    using small by (simp_all add: range_slots_def unat_word_nat)
  ultimately show ?case using ih by (simp add: len_def)
qed

section \<open>Properties\<close>

definition bounds_slots :: "nat \<Rightarrow> tp_range list \<Rightarrow> nat list" where
  "bounds_slots n vs = concat (map range_slots (take n vs))"

lemma length_spread [simp]: "length (spread n res lb sh) = n"
  by (induction n arbitrary: res lb) (simp_all add: Let_def)

lemma upt_replicate_slots:
  "n < 2 ^ 63 \<Longrightarrow> m < 2 ^ 63 \<Longrightarrow> 0 < m \<Longrightarrow>
   concat (map range_slots (map (\<lambda>proc. \<lparr>lowBound = i64_mod (word_of_nat proc) (word_of_nat m),
     rangeLength = 1\<rparr>) [0..<n])) = map (\<lambda>proc. proc mod m) [0..<n]"
proof (induction n)
  case 0
  then show ?case by simp
next
  case (Suc n)
  have "n mod m < 2 ^ 63" using Suc.prems mod_less_divisor [of m n] by linarith
  then have "range_slots \<lparr>lowBound = i64_mod (word_of_nat n) (word_of_nat m), rangeLength = 1\<rparr> = [n mod m]"
    using Suc.prems by (simp add: range_slots_def i64_mod_nat unat_word_nat)
  with Suc show ?case by simp
qed

lemma reassign_more_slots:
  assumes "requiredThreadsCount tpc = word_of_nat m" and "actualThreadsCount tpc = word_of_nat n"
    and "0 < n" and "n \<le> m" and "m < 2 ^ 62" and "n \<le> length bs"
  obtains tpc' vs where "reassign_bounds tpc bs = Ret (tpc', vs @ drop n bs)" and "length vs = n"
    and "concat (map range_slots vs) = [0..<m]"
    and "\<forall>r \<in> set vs. unat (rangeLength r) = m div n \<or> unat (rangeLength r) = m div n + 1"
proof -
  define vs where "vs = spread n (word_of_nat (m mod n)) 0 (word_of_nat (m div n))"
  have small: "m < 2 ^ 63" "n < 2 ^ 63" using assms(4,5) by simp_all
  have nz: "(word_of_nat m :: i64) \<noteq> 0" "(word_of_nat n :: i64) \<noteq> 0"
    using unat_word_nat [OF small(1)] unat_word_nat [OF small(2)] assms(3,4) by force+
  have "m div n < 2 ^ 62" "m mod n < n" using assms(3,5) div_le_dividend [of m n] by (linarith, simp)
  moreover have "0 + n * (m div n) + min (m mod n) n = m" using assms(3) by (simp add: min_def)
  ultimately have sp: "concat (map range_slots vs) = [0..<m]"
    "\<forall>r \<in> set vs. unat (rangeLength r) = m div n \<or> unat (rangeLength r) = Suc (m div n)"
    using spread_slots [of 0 n "m div n" "m mod n"] small by (simp_all add: vs_def)
  have "reassign_bounds tpc bs = Ret (tpc\<lparr>tp_share := word_of_nat (m div n),
      tp_residue := word_of_nat (m mod n)\<rparr>, vs @ drop n bs)"
    using assms(4,6) nz sint_word_nat [OF small(1)] sint_word_nat [OF small(2)]
    by (simp add: reassign_bounds_def assms(1,2) Let_def i64_div_nat [OF small] i64_mod_nat [OF small] vs_def)
  with sp show thesis by (intro that) (simp_all add: vs_def)
qed

lemma reassign_fewer_slots:
  assumes "requiredThreadsCount tpc = word_of_nat m" and "actualThreadsCount tpc = word_of_nat n"
    and "0 < m" and "m < n" and "n < 2 ^ 63" and "n \<le> length bs"
  obtains tpc' vs where "reassign_bounds tpc bs = Ret (tpc', vs @ drop n bs)" and "length vs = n"
    and "concat (map range_slots vs) = map (\<lambda>proc. proc mod m) [0..<n]"
    and "\<forall>r \<in> set vs. unat (rangeLength r) = 1"
proof -
  define vs where "vs = map (\<lambda>proc. \<lparr>lowBound = i64_mod (word_of_nat proc) (word_of_nat m),
      rangeLength = 1\<rparr>) [0..<n]"
  have small: "n < 2 ^ 63" "m < 2 ^ 63" using assms(4,5) by simp_all
  have nz: "(word_of_nat m :: i64) \<noteq> 0" using unat_word_nat [OF small(2)] assms(3) by force
  have run: "reassign_bounds tpc bs = Ret (tpc\<lparr>tp_share := word_of_nat (n div m),
      tp_residue := word_of_nat (n mod m)\<rparr>, vs @ drop n bs)"
    using assms(4,6) nz sint_word_nat [OF small(1)] sint_word_nat [OF small(2)]
    by (simp add: reassign_bounds_def assms(1,2) Let_def i64_div_nat [OF small] i64_mod_nat [OF small] vs_def)
  have slots: "concat (map range_slots vs) = map (\<lambda>proc. proc mod m) [0..<n]"
    unfolding vs_def by (rule upt_replicate_slots [OF small assms(3)])
  show thesis by (rule that [OF run _ slots]) (auto simp: vs_def)
qed

lemma mod_image: "0 < m \<Longrightarrow> m \<le> n \<Longrightarrow> (\<lambda>i. i mod m) ` {0..<n} = {0..<m :: nat}"
proof (intro equalityI subsetI)
  fix x
  assume "m \<le> n" and "x \<in> {0..<m}"
  then show "x \<in> (\<lambda>i. i mod m) ` {0..<n}" by (intro image_eqI [of _ _ x]) auto
qed auto

lemma reassign_shares:
  assumes "requiredThreadsCount tpc = word_of_nat m" and "0 < m" and "m < 2 ^ 62"
    and "numCPUs st = word_of_nat n" and "0 < n" and "n < 2 ^ 16" and "n \<le> length (vectProc2Bounds st)"
  shows "\<exists>tpc' st'. state_reassignProcs tpc req st = Ret (tpc', st') \<and>
     set (bounds_slots n (vectProc2Bounds st')) = {0..<m} \<and>
     (if n \<le> m
      then bounds_slots n (vectProc2Bounds st') = [0..<m] \<and>
        (\<forall>r \<in> set (take n (vectProc2Bounds st')).
           unat (rangeLength r) = m div n \<or> unat (rangeLength r) = m div n + 1)
      else \<forall>r \<in> set (take n (vectProc2Bounds st')). unat (rangeLength r) = 1)"
proof -
  define tpc1 where "tpc1 = tpc\<lparr>actualThreadsCount := word_of_nat n\<rparr>"
  have f: "requiredThreadsCount tpc1 = word_of_nat m" "actualThreadsCount tpc1 = word_of_nat n"
    using assms(1) by (simp_all add: tpc1_def)
  have "(ucast (numCPUs st) :: i64) = word_of_nat n"
    using assms(4,6) by (simp add: unsigned_of_nat take_bit_nat_eq_self)
  then have run: "state_reassignProcs tpc req st = Ret (tpc', st\<lparr>tpcfg := (tpcfg st)\<lparr>requiredThreadsCount := req\<rparr>,
      vectProc2Bounds := vs\<rparr>)" if "reassign_bounds tpc1 (vectProc2Bounds st) = Ret (tpc', vs)" for tpc' vs
    using that by (simp add: state_reassignProcs_def Let_def tpc1_def)
  show ?thesis
  proof (cases "n \<le> m")
    case True
    obtain tpc' vs where "reassign_bounds tpc1 (vectProc2Bounds st) = Ret (tpc', vs @ drop n (vectProc2Bounds st))"
      "length vs = n" "concat (map range_slots vs) = [0..<m]"
      "\<forall>r \<in> set vs. unat (rangeLength r) = m div n \<or> unat (rangeLength r) = m div n + 1"
      by (rule reassign_more_slots [OF f assms(5) True assms(3,7)])
    with True run show ?thesis by (simp add: bounds_slots_def del: set_concat set_map)
  next
    case False
    then have "m < n" "n < 2 ^ 63" using assms(6) by simp_all
    with reassign_fewer_slots [OF f assms(2) this assms(7)] obtain tpc' vs where
      "reassign_bounds tpc1 (vectProc2Bounds st) = Ret (tpc', vs @ drop n (vectProc2Bounds st))"
      "length vs = n" "concat (map range_slots vs) = map (\<lambda>proc. proc mod m) [0..<n]"
      "\<forall>r \<in> set vs. unat (rangeLength r) = 1"
      by blast
    with \<open>m < n\<close> run mod_image [OF assms(2), of n] show ?thesis
      by (simp add: bounds_slots_def del: set_concat set_map) simp
  qed
qed

text \<open>
  C18: \<open>reassignProcs\<close> shares out the sessions completely. For \<open>m\<close> required threads and \<open>n\<close>
  processors, neither of them zero, the ranges of the processors cover the slots 0 to \<open>m - 1\<close>
  and no others; if there are at least as many sessions as processors, every slot belongs to
  exactly one processor, the ranges lie one after the other, and the share of a processor is
  \<open>m div n\<close> or one more; if there are fewer sessions, every processor gets exactly one.
\<close>

theorem reassignProcs_partition:
  assumes "requiredThreadsCount tpc = word_of_nat m" and "0 < m" and "m < 2 ^ 62"
    and "numCPUs st = word_of_nat n" and "0 < n" and "n < 2 ^ 16" and "n \<le> length (vectProc2Bounds st)"
  shows "\<exists>tpc' st'. state_reassignProcs tpc req st = Ret (tpc', st') \<and>
     set (bounds_slots n (vectProc2Bounds st')) = {0..<m} \<and>
     (if n \<le> m
      then bounds_slots n (vectProc2Bounds st') = [0..<m] \<and>
        (\<forall>r \<in> set (take n (vectProc2Bounds st')).
           unat (rangeLength r) = m div n \<or> unat (rangeLength r) = m div n + 1)
      else \<forall>r \<in> set (take n (vectProc2Bounds st')). unat (rangeLength r) = 1)"
  using assms by (rule reassign_shares)

theorem reassignProcs_partition_witness:
  "\<exists>tpc' st'. state_reassignProcs \<lparr>tp_share = 0, tp_residue = 0, actualThreadsCount = 4,
         requiredThreadsCount = 10\<rparr> 10
       \<lparr>tpcfg = \<lparr>tp_share = 0, tp_residue = 0, actualThreadsCount = 4, requiredThreadsCount = 10\<rparr>,
         vectProc2Bounds = replicate 4 \<lparr>lowBound = 0, rangeLength = 0\<rparr>, numCPUs = 4\<rparr> = Ret (tpc', st') \<and>
     bounds_slots 4 (vectProc2Bounds st') = [0..<10]"
  (is "\<exists>tpc' st'. state_reassignProcs ?tpc _ ?st = _ \<and> _")
  using reassignProcs_partition [of ?tpc 10 ?st 4 10] by auto

text \<open>
  The ranges that \<open>reassignProcs\<close> computes do not depend on the number of threads it is asked
  for: it stores that number in the member, and computes with the one in the caller's copy of the
  configuration, taken before. A change in the number of sessions shows in the ranges one call
  late.
\<close>

lemma reassignProcs_ignores_request:
  "(case state_reassignProcs tpc req st of
      Ret (_, st') \<Rightarrow> Ret (vectProc2Bounds st', requiredThreadsCount (tpcfg st'))
    | Blocked \<Rightarrow> Blocked | Fault e \<Rightarrow> Fault e) =
   (case state_reassignProcs tpc 0 st of
      Ret (_, st') \<Rightarrow> Ret (vectProc2Bounds st', req) | Blocked \<Rightarrow> Blocked | Fault e \<Rightarrow> Fault e)"
  by (cases "reassign_bounds (tpc\<lparr>actualThreadsCount := ucast (numCPUs st)\<rparr>) (vectProc2Bounds st)")
    (auto simp: state_reassignProcs_def Let_def)

end
