(* ===== verification/Affinity.thy ===== *)
theory Affinity
  imports Prelude
begin

unbundle bit_operations_syntax

text \<open>
  The placement of the threads on systems that have no \<open>cpu_set_t\<close> (CPPAFKThreadpool.cpp, for
  \<open>__APPLE__\<close>): sets of processors as 32 bits, \<open>pthread_setaffinity_np\<close> and the loop of
  \<open>createThreads\<close> that uses them. What the kernel makes of the policy is not modelled; the model
  says which core the code asks for.
\<close>

type_synonym u32 = "32 word"

record cpu_set =
  cs_count :: u32

text \<open>\<open>1 << num\<close> on \<open>int\<close>: there is no value for a negative number, nor for 32 and more.\<close>

definition one_shifted :: "u32 \<Rightarrow> u32 outcome" where
  "one_shifted num = (if 0 \<le> sint num \<and> sint num < 32 then Ret (push_bit (nat (sint num)) 1) else Fault Bad_shift)"

definition CPU_ZERO :: "cpu_set \<Rightarrow> cpu_set" where
  "CPU_ZERO cs = cs\<lparr>cs_count := 0\<rparr>"

definition CPU_SET :: "u32 \<Rightarrow> cpu_set \<Rightarrow> cpu_set outcome" where
  "CPU_SET num cs = obind (one_shifted num) (\<lambda>b. Ret (cs\<lparr>cs_count := cs_count cs OR b\<rparr>))"

definition CPU_ISSET :: "u32 \<Rightarrow> cpu_set \<Rightarrow> u32 outcome" where
  "CPU_ISSET num cs = obind (one_shifted num) (\<lambda>b. Ret (cs_count cs AND b))"

text \<open>The loop over the cores: a core, or the number of bits if no bit is set. The result is the core of the policy.\<close>

function first_core :: "nat \<Rightarrow> cpu_set \<Rightarrow> nat \<Rightarrow> u32 outcome" where
  "first_core bits cs core =
     (if core < bits
      then obind (CPU_ISSET (of_nat core) cs)
             (\<lambda>b. if b \<noteq> 0 then Ret (of_nat core) else first_core bits cs (Suc core))
      else Ret (of_nat core))"
  by pat_completeness auto

termination
  by (relation "measure (\<lambda>(bits, cs, core). bits - core)") auto

declare first_core.simps [simp del]

definition pthread_setaffinity_np :: "u64 \<Rightarrow> cpu_set \<Rightarrow> (u32 \<times> u32) outcome" where
  "pthread_setaffinity_np cpu_size cs =
     obind (first_core (unat (8 * cpu_size)) cs 0) (\<lambda>core. Ret (core, 0))"

text \<open>
  One turn of the loop of \<open>createThreads\<close>, for thread \<open>i\<close>, with the set of processors as it comes
  uninitialised from the stack; the threads in a row.
\<close>

definition pin_thread :: "cpu_set \<Rightarrow> u32 \<Rightarrow> (u32 \<times> u32) outcome" where
  "pin_thread cpuset i = obind (CPU_SET i (CPU_ZERO cpuset)) (pthread_setaffinity_np 4)"

fun pin_threads :: "cpu_set \<Rightarrow> nat list \<Rightarrow> u32 list outcome" where
  "pin_threads cpuset [] = Ret []"
| "pin_threads cpuset (i # is) =
     obind (pin_thread cpuset (of_nat i)) (\<lambda>(core, retcode).
     obind (pin_threads cpuset is) (\<lambda>cores. Ret (core # cores)))"

section \<open>Each thread gets the core of its number\<close>

lemma sint_small: "n \<le> 32 \<Longrightarrow> sint (of_nat n :: u32) = int n"
  using signed_take_bit_int_eq_self [of 31 "int n"] by (simp add: signed_of_nat)

lemma one_shifted_of_nat:
  "n \<le> 32 \<Longrightarrow> one_shifted (of_nat n) = (if n < 32 then Ret (push_bit n 1) else Fault Bad_shift)"
  by (simp add: one_shifted_def sint_small)

lemma CPU_ISSET_bit:
  assumes "k < 32" and "n < 32"
  shows "\<exists>b. CPU_ISSET (of_nat k) (cs\<lparr>cs_count := push_bit n 1\<rparr>) = Ret b \<and> (b \<noteq> 0 \<longleftrightarrow> k = n)"
proof -
  have "(push_bit n 1 :: u32) AND push_bit k 1 = (if k = n then push_bit n 1 else 0)"
    by (rule bit_eqI) (auto simp: bit_simps)
  moreover have "bit (push_bit n 1 :: u32) n"
    using assms(2) by (simp add: bit_simps)
  then have "(push_bit n 1 :: u32) \<noteq> 0" by (metis bit_0_eq bot_apply bot_bool_def)
  ultimately show ?thesis using assms by (simp add: CPU_ISSET_def one_shifted_of_nat)
qed

lemma first_core_found:
  assumes "n < 32" and "core \<le> n"
  shows "first_core 32 (cs\<lparr>cs_count := push_bit n 1\<rparr>) core = Ret (of_nat n)"
  using assms(2)
proof (induction rule: inc_induct)
  case base
  from CPU_ISSET_bit [OF assms(1,1)] obtain b where "CPU_ISSET (of_nat n) (cs\<lparr>cs_count := push_bit n 1\<rparr>) = Ret b" "b \<noteq> 0"
    by blast
  with assms(1) show ?case by (simp add: first_core.simps)
next
  case (step k)
  from CPU_ISSET_bit [of k n] step assms(1) obtain b where "CPU_ISSET (of_nat k) (cs\<lparr>cs_count := push_bit n 1\<rparr>) = Ret b" "b = 0"
    by fastforce
  with step assms(1) show ?case by (subst first_core.simps) simp
qed

lemma pin_thread_own_core:
  "n \<le> 32 \<Longrightarrow> pin_thread cs (of_nat n) = (if n < 32 then Ret (of_nat n, 0) else Fault Bad_shift)"
  using first_core_found [of n 0 cs]
  by (simp add: pin_thread_def CPU_SET_def CPU_ZERO_def one_shifted_of_nat pthread_setaffinity_np_def)

lemma threads_on_their_cores: "\<forall>i \<in> set is. i < 32 \<Longrightarrow> pin_threads cs is = Ret (map of_nat is)"
  by (induction "is") (simp_all add: pin_thread_own_core)

text \<open>The thirty-third thread is one too many.\<close>

lemma pin_threads_append:
  "pin_threads cs (is @ js) = obind (pin_threads cs is) (\<lambda>xs. obind (pin_threads cs js) (\<lambda>ys. Ret (xs @ ys)))"
proof (induction "is")
  case (Cons i "is")
  then show ?case by (cases "pin_thread cs (of_nat i)"; cases "pin_threads cs is"; cases "pin_threads cs js") auto
qed (cases "pin_threads cs js"; simp)

lemma too_many_threads:
  assumes "32 < n"
  shows "pin_threads cs [0..<n] = Fault Bad_shift"
proof -
  have "[0..<n] = [0..<32] @ [32..<n]"
    using assms upt_add_eq_append [of 0 32 "n - 32"] by simp
  also have "[32..<n] = 32 # [Suc 32..<n]"
    using assms by (rule upt_conv_Cons)
  finally have "[0..<n] = [0..<32] @ 32 # [Suc 32..<n]" .
  moreover have "pin_threads cs [0..<32] = Ret (map of_nat [0..<32])"
    by (rule threads_on_their_cores) simp
  ultimately show ?thesis
    using pin_thread_own_core [of 32 cs] by (simp add: pin_threads_append del: upt_rec_numeral)
qed

end
