(* ===== verification/SessionTurns.thy ===== *)
theory SessionTurns
  imports ComposingSession_Data Transitions
begin

text \<open>
  A session while a worker serves it: \<open>select\<close> once more, cut where it lets go of the queue, so that
  users may post, flush, pause, resume and cancel between any two of the worker's steps, also while the
  worker holds an item. Nothing is lost, doubled or reordered; a cancellation ends the service
  at the next step.
\<close>

section \<open>select in steps\<close>

text \<open>
  The first part of a turn, up to the pull: the worker leaves \<open>select\<close>, goes on to the next turn, or
  has taken an item, to be run through the routines in slot \<open>indR\<close>.
\<close>

datatype 'p front = Leave exec_status | Go_on | Take u64 "'p option" qstat

definition turn_front ::
  "i64 \<Rightarrow> i64 \<Rightarrow> ('p, 'x) run \<Rightarrow> ('p front \<times> ('p, 'x) run) outcome" where
  "turn_front occ ii r =
     (if cancel_requested (r_session r)
      then obind (cancel_path composing_invokeCancellationHandler
                    (on_session session_resetPriorityQueue r))
             (\<lambda>r1. Ret (Leave eAFK_ES_HAS_NONE, r1))
      else
        obind (if cb_flushRequested (s_cblk (r_session r))
               then run_flush composing_flush_locked r else Ret r) (\<lambda>r1.
          case session_switchRoutinesHandlers (r_session r1) of
            ((switched, indR), s1) \<Rightarrow>
              obind (if switched
                     then obind (composing_reconfigureDataqueues occ s1)
                            (\<lambda>s. Ret (session_resetPriorityQueue s))
                     else Ret s1) (\<lambda>s2.
                case dataQueues s2 of
                  [] \<Rightarrow> Ret (Leave eAFK_ES_HAS_NONE, r1\<lparr>r_session := s2\<rparr>)
                | h # hs \<Rightarrow>
                    obind (hyb_pullAndOccupyWithId ii new_qstat h) (\<lambda>((item, _, st), h1).
                      (let r2 = r1\<lparr>r_session := s2\<lparr>dataQueues := h1 # hs\<rparr>\<rparr>
                       in if qs_validrv st then Ret (Take indR item st, r2)
                          else if qs_empty st then Ret (Leave eAFK_ES_HAS_NONE, r2)
                          else Ret (Go_on, r2))))))"

text \<open>The two parts, one after the other, are the turn of \<open>select\<close>.\<close>

lemma select_turn_split:
  "select_turn X occ ii r =
     obind (turn_front occ ii r) (\<lambda>(f, r1). case f of
       Leave e \<Rightarrow> Ret (Some e, r1)
     | Go_on \<Rightarrow> Ret (None, r1)
     | Take indR item st \<Rightarrow> process_item X indR item st r1)"
  by (auto simp: select_turn_def turn_front_def obind_assoc Let_def split: prod.split list.split
      intro!: arg_cong [where f = "obind _"] ext)

text \<open>
  The session with the worker's place in \<open>select\<close>, and two records of what users did: the items
  they posted and those that their flushes took out of the queues.
\<close>

record ('p, 'x) shared =
  sh_posted :: "'p list"
  sh_flushed :: "'p list"
  sh_held :: "(u64 \<times> 'p option \<times> qstat) option"
  sh_working :: bool
  sh_run :: "('p, 'x) run"

fun after_front :: "'p front \<Rightarrow> ('p, 'x) shared \<Rightarrow> ('p, 'x) shared" where
  "after_front (Leave e) S = S\<lparr>sh_working := False\<rparr>"
| "after_front Go_on S = S"
| "after_front (Take indR item st) S = S\<lparr>sh_held := Some (indR, item, st)\<rparr>"

abbreviation shared_session :: "('p, 'x) shared \<Rightarrow> ('p, 'x) csession" where
  "shared_session S \<equiv> r_session (sh_run S)"

definition with_session ::
  "(('p, 'x) csession \<Rightarrow> ('p, 'x) csession) \<Rightarrow> ('p, 'x) shared \<Rightarrow> ('p, 'x) shared" where
  "with_session f S = S\<lparr>sh_run := on_session f (sh_run S)\<rparr>"

definition waiting_data :: "('p, 'x) csession \<Rightarrow> 'p list" where
  "waiting_data s = concat (map hyb_contents (dataQueues s))"

inductive shared_step ::
  "'x expcond \<Rightarrow> i64 \<Rightarrow> i64 \<Rightarrow> ('p, 'x) shared \<Rightarrow> ('p, 'x) shared \<Rightarrow> bool" for X occ ii where
  share_post:
    "\<forall>h \<in> set (dataQueues (shared_session S)). hyb_room 1 h \<Longrightarrow>
     shared_step X occ ii S
       (with_session (\<lambda>s. snd (composing_postData (Some p) s)) S\<lparr>sh_posted := sh_posted S @ [p]\<rparr>)"
| share_pause: "shared_step X occ ii S (with_session session_pause S)"
| share_resume: "shared_step X occ ii S (with_session session_resume S)"
| share_cancel: "shared_step X occ ii S (with_session composing_cancel S)"
| share_flush:
    "composing_flush (shared_session S) (r_gc (sh_run S)) = Some (s', g') \<Longrightarrow>
     shared_step X occ ii S
       (S\<lparr>sh_run := (sh_run S)\<lparr>r_session := s', r_gc := g'\<rparr>,
          sh_flushed := sh_flushed S @
            take (length (waiting_data (shared_session S)) - length (waiting_data s'))
              (waiting_data (shared_session S))\<rparr>)"
| share_enter:
    "\<not> sh_working S \<Longrightarrow> select_head X (sh_run S) = Ret (e, r) \<Longrightarrow>
     shared_step X occ ii S (S\<lparr>sh_run := r, sh_working := e = None\<rparr>)"
| share_front:
    "sh_working S \<Longrightarrow> sh_held S = None \<Longrightarrow> turn_front occ ii (sh_run S) = Ret (fr, r) \<Longrightarrow>
     shared_step X occ ii S (after_front fr (S\<lparr>sh_run := r\<rparr>))"
| share_process:
    "sh_working S \<Longrightarrow> sh_held S = Some (indR, item, st) \<Longrightarrow>
     process_item X indR item st (sh_run S) = Ret (e, r) \<Longrightarrow>
     shared_step X occ ii S (S\<lparr>sh_run := r, sh_held := None, sh_working := e = None\<rparr>)"

text \<open>What the summary routine has been called with, and the item the worker holds.\<close>

definition summaries :: "('p, 'x) run \<Rightarrow> 'p option list" where
  "summaries r = concat (map (\<lambda>e. case e of Summary_called x \<Rightarrow> [x] | _ \<Rightarrow> []) (r_events r))"

definition held_items :: "('p, 'x) shared \<Rightarrow> 'p list" where
  "held_items S = (case sh_held S of Some (_, Some p, _) \<Rightarrow> [p] | _ \<Rightarrow> [])"

section \<open>The two modes of the session\<close>

text \<open>The control block without the request of a caller.\<close>

definition unasked :: "('p, 'x) csession \<Rightarrow> ('p, 'x) csession" where
  "unasked s = s\<lparr>s_cblk := (s_cblk s)\<lparr>abortByCaller := False\<rparr>\<rparr>"

text \<open>
  In service: but for a request to cancel, the session is \<open>serving\<close>, without null pointers in its
  queue, which is free unless the worker holds an item.
\<close>

definition in_service ::
  "('p option \<Rightarrow> 'p option) list \<Rightarrow> ('p option \<Rightarrow> 'p option) \<Rightarrow> 'p hyb \<Rightarrow> ('p, 'x) shared \<Rightarrow> bool" where
  "in_service gs f h S \<longleftrightarrow>
     serving gs f h (unasked (shared_session S)) \<and> session_slots_ok (shared_session S) \<and>
     tq_open (queueZero (shared_session S)) \<and> (\<forall>p \<in> set (hyb_data h). p \<noteq> None) \<and>
     (case sh_held S of
        None \<Rightarrow> sint (occupant h) < 0
      | Some (indR, item, st) \<Rightarrow>
          sh_working S \<and> indR = hotRoutR (shared_session S) \<and> item \<noteq> None \<and> \<not> qs_called st)"

text \<open>Over: a cancelled session whose queues can be pulled empty.\<close>

definition over :: "('p, 'x) csession \<Rightarrow> bool" where
  "over s \<longleftrightarrow> cancel_requested s \<and> drainable_session s \<and> session_slots_ok s"

text \<open>\<open>rest\<close> is what is in the worker's hands and in the queue.\<close>

definition in_mode ::
  "('p option \<Rightarrow> 'p option) list \<Rightarrow> ('p option \<Rightarrow> 'p option) \<Rightarrow> bool \<Rightarrow> 'p list \<Rightarrow>
   ('p, 'x) shared \<Rightarrow> bool" where
  "in_mode gs f ad rest S \<longleftrightarrow>
     sh_held S = None \<and> over (shared_session S) \<or>
     s_autodelete (shared_session S) = ad \<and>
       (\<exists>h. in_service gs f h S \<and> rest = held_items S @ hyb_contents h)"

text \<open>
  \<open>w\<close> waits behind what has left the queue: that is a merge of what was served, what the worker
  holds and what was flushed, up to the end of the service.
\<close>

definition accounted :: "'p list \<Rightarrow> 'p list \<Rightarrow> ('p, 'x) shared \<Rightarrow> bool" where
  "accounted served w S \<longleftrightarrow>
     (\<exists>gone fl more. sh_posted S = gone @ w \<and> gone \<in> shuffles (served @ held_items S) fl \<and>
        sh_flushed S = fl @ more \<and>
        (more = [] \<or> sh_held S = None \<and> cancel_requested (shared_session S)))"

definition shared_inv ::
  "('p option \<Rightarrow> 'p option) list \<Rightarrow> ('p option \<Rightarrow> 'p option) \<Rightarrow> bool \<Rightarrow> ('p, 'x) shared \<Rightarrow> bool" where
  "shared_inv gs f ad S \<longleftrightarrow>
     (\<exists>served w. summaries (sh_run S) = map (\<lambda>p. composed ad gs (Some p)) served \<and>
        accounted served w S \<and> in_mode gs f ad (held_items S @ w) S)"

lemma shared_invI:
  "summaries (sh_run S) = map (\<lambda>p. composed ad gs (Some p)) served \<Longrightarrow> accounted served w S \<Longrightarrow>
   in_mode gs f ad (held_items S @ w) S \<Longrightarrow> shared_inv gs f ad S"
  unfolding shared_inv_def by blast

lemma unasked_frame [simp]:
  "dataQueues (unasked s) = dataQueues s" "s_autodelete (unasked s) = s_autodelete s"
  "routinesHnds (unasked s) = routinesHnds s" "hotRoutR (unasked s) = hotRoutR s"
  by (simp_all add: unasked_def)

lemma unasked_same: "serving gs f h (unasked s) \<Longrightarrow> \<not> cancel_requested s \<Longrightarrow> serving gs f h s"
  by (simp add: serving_def unasked_def cancel_requested_def
      session_cancellationRequestedByCallback_def session_cancellationRequestedByStarter_def cb_defs)

lemma in_service_drainable:
  assumes "in_service gs f h S" and "sh_held S = None"
  shows "drainable_session (shared_session S)"
  using assms by (auto simp: in_service_def serving_def drainable_session_def hyb_open_def)

lemma summaries_cancel [simp]:
  "summaries (call_cancel_handler h r) = summaries r"
  "summaries (composing_invokeCancellationHandler h r) = summaries r"
  "summaries (r\<lparr>r_session := s\<rparr>) = summaries r" "summaries (r\<lparr>r_gc := g\<rparr>) = summaries r"
  "summaries (on_session fs r) = summaries r" "summaries (dispose_result x r) = summaries r"
  by (auto simp: summaries_def call_cancel_handler_def composing_invokeCancellationHandler_def
      on_session_def log_event_def dispose_result_def split: option.split)

lemma cancelled_session [simp]:
  "r_session (call_cancel_handler h r) = r_session r"
  "r_session (composing_invokeCancellationHandler h r) = (r_session r)\<lparr>s_cancelled := True\<rparr>"
  by (auto simp: call_cancel_handler_def composing_invokeCancellationHandler_def on_session_def
      log_event_def split: option.split)

section \<open>The end of the service\<close>

lemma over_marked [simp]: "over (s\<lparr>s_cancelled := b\<rparr>) = over s"
  by (simp add: over_def drainable_session_def session_slots_ok_def cancel_requested_def
      session_cancellationRequestedByCallback_def session_cancellationRequestedByStarter_def)

lemma over_busy [simp]: "over (s\<lparr>busyCount := n\<rparr>) = over s"
  by (simp add: over_def drainable_session_def session_slots_ok_def cancel_requested_def
      session_cancellationRequestedByCallback_def session_cancellationRequestedByStarter_def)

lemma over_reset [simp]: "over (session_resetPriorityQueue s) = over s"
  by (simp add: over_def drainable_session_def session_slots_ok_def cancel_requested_def
      session_resetPriorityQueue_def
      session_cancellationRequestedByCallback_def session_cancellationRequestedByStarter_def)

lemma over_unoccupy: "over s \<Longrightarrow> over (on_queue tq_unoccupy s)"
  by (auto simp: over_def on_queue_def drainable_session_def session_slots_ok_def hyb_open_def
      split: list.split)

lemma over_awake: "over s \<Longrightarrow> over (awake s)"
  by (simp add: over_def drainable_awake)

lemma cancel_path_over:
  assumes "over (r_session r)"
  obtains s' g' where "cancel_path finish r =
      Ret (finish (cancel_handler (r_session r)) (r\<lparr>r_session := s', r_gc := g'\<rparr>))" and "over s'"
  using assms cancel_path_drains [of r finish] by (auto simp: over_def)

lemma front_over:
  assumes "over (r_session r)"
  obtains r' where "turn_front occ ii r = Ret (Leave eAFK_ES_HAS_NONE, r')"
    and "over (r_session r')" and "summaries r' = summaries r"
proof -
  let ?r = "on_session session_resetPriorityQueue r"
  have "over (r_session ?r)" using assms by (simp add: on_session_def)
  then obtain s' g' where "cancel_path composing_invokeCancellationHandler ?r =
      Ret (composing_invokeCancellationHandler (cancel_handler (r_session ?r)) (?r\<lparr>r_session := s', r_gc := g'\<rparr>))"
    "over s'"
    by (rule cancel_path_over)
  moreover have "cancel_requested (r_session r)" using assms by (simp add: over_def)
  ultimately show thesis using that by (simp add: turn_front_def)
qed

lemma head_over:
  assumes "over (r_session r)"
  obtains e r' where "select_head X r = Ret (Some e, r')"
    and "over (r_session r')" and "summaries r' = summaries r"
proof (cases "s_isStopped (r_session r)")
  case True
  have "over (awake (r_session r))" using assms by (rule over_awake)
  with True that [of eAFK_ES_WAS_CANCELLED "r\<lparr>r_session := awake (r_session r)\<rparr>"] show thesis
    by (simp add: select_head_def Let_def flip: awake_def)
next
  case False
  let ?r = "on_session session_resetPriorityQueue (r\<lparr>r_session := awake (r_session r)\<rparr>)"
  have "over (r_session ?r)" using over_awake [OF assms] by (simp add: on_session_def)
  then obtain s' g' where "cancel_path composing_invokeCancellationHandler ?r =
      Ret (composing_invokeCancellationHandler (cancel_handler (r_session ?r)) (?r\<lparr>r_session := s', r_gc := g'\<rparr>))"
    "over s'"
    by (rule cancel_path_over)
  moreover have "cancel_requested (r_session r)" using assms by (simp add: over_def)
  ultimately show thesis using False that by (simp add: select_head_def Let_def flip: awake_def)
qed

section \<open>Service\<close>

lemma serving_fields:
  assumes "serving gs f h (unasked s)"
  shows "dataQueues s = [h]" and "hyb_inv h" and "\<not> cb_flushed (s_cblk s)"
    and "\<not> routinesHndReload s" and "runprioML s = AFK_RUN_LAMBDA_ONLY"
    and "routinesHnds s ! unat (hotRoutR s) = map lambda_unit gs" and "excond s = None"
  using assms by (simp_all add: serving_def unasked_def)

text \<open>The front of a turn in service takes the oldest item, or leaves if there is none.\<close>

lemma front_takes:
  assumes s: "serving gs f h (r_session r)" and free: "sint (occupant h) < 0"
    and d: "hyb_data h = x # xs"
  obtains st h' where "turn_front occ ii r =
      Ret (Take (hotRoutR (r_session r)) x st, r\<lparr>r_session := (r_session r)\<lparr>dataQueues := [h']\<rparr>\<rparr>)"
    and "\<not> qs_called st" and "hyb_inv h'" and "hyb_data h' = xs"
proof -
  have inv: "hyb_inv h" using s by (simp add: serving_def)
  from hyb_pullAndOccupy_cons [OF inv not_occupied [OF free] d, of ii new_qstat] obtain i h1 st where
    p: "hyb_pullAndOccupyWithId ii new_qstat h = Ret ((x, i, st), h1)" "qs_validrv st"
    and h1: "\<not> qs_called st" "hyb_inv h1" "hyb_data h1 = xs"
    by (auto simp: new_qstat_def)
  have "turn_front occ ii r =
      Ret (Take (hotRoutR (r_session r)) x st, r\<lparr>r_session := (r_session r)\<lparr>dataQueues := [h1]\<rparr>\<rparr>)"
    using s serving_not_cancelled [OF s] p
    by (simp add: turn_front_def serving_def cb_flushRequested_def
        session_switchRoutinesHandlers_def Let_def)
  from this h1 show thesis by (rule that)
qed

lemma front_leaves:
  assumes s: "serving gs f h (r_session r)" and free: "sint (occupant h) < 0"
    and d: "hyb_data h = []"
  obtains h' where "turn_front occ ii r =
      Ret (Leave eAFK_ES_HAS_NONE, r\<lparr>r_session := (r_session r)\<lparr>dataQueues := [h']\<rparr>\<rparr>)"
    and "hyb_inv h'" and "hyb_data h' = []" and "sint (occupant h') < 0"
proof -
  have inv: "hyb_inv h" using s by (simp add: serving_def)
  from hyb_pullAndOccupy_empty [OF inv not_occupied [OF free] d, of ii new_qstat] obtain h1 st where
    p: "hyb_pullAndOccupyWithId ii new_qstat h = Ret ((None, - 1, st), h1)" "\<not> qs_validrv st" "qs_empty st"
    and h1: "hyb_inv h1" "hyb_data h1 = []" "sint (occupant h1) < 0"
    using free by auto
  have "turn_front occ ii r =
      Ret (Leave eAFK_ES_HAS_NONE, r\<lparr>r_session := (r_session r)\<lparr>dataQueues := [h1]\<rparr>\<rparr>)"
    using s serving_not_cancelled [OF s] p
    by (simp add: turn_front_def serving_def cb_flushRequested_def
        session_switchRoutinesHandlers_def Let_def)
  from this h1 show thesis by (rule that)
qed

text \<open>An item that the worker holds when the cancellation comes in is dropped, and the service is over.\<close>

lemma pure_call_block: "w_cb (call_routine ad sid (pure_routine g) w) = w_cb w"
  by (simp add: call_routine_def pure_routine_def Let_def)

lemma run_routines_asked:
  assumes "abortByCaller (w_cb w)"
  obtains w' where "run_routines AFK_RUN_LAMBDA_ONLY ad sid (map lambda_unit gs) w = Ret (gs \<noteq> [], w')"
    and "w_cb w' = w_cb w"
  using assms
  by (cases gs) (auto simp: call_lambda_def lambda_unit_def cb_defs pure_call_block)

lemma process_over:
  assumes s: "serving gs f h (unasked (r_session r))" and c: "cancel_requested (r_session r)"
    and d: "\<forall>p \<in> set (hyb_data h). p \<noteq> None" "tq_open (queueZero (r_session r))"
    and ok: "session_slots_ok (r_session r)"
  obtains e r' where "process_item X (hotRoutR (r_session r)) x st r = Ret (Some e, r')"
    and "over (r_session r')" and "summaries r' = summaries r"
proof -
  let ?s = "(r_session r)\<lparr>dataQueues := [tq_unoccupy h]\<rparr>"
  note fields = serving_fields [OF s]
  have abort: "abortByCaller (s_cblk (r_session r))"
    using s c by (simp add: serving_def unasked_def cancel_requested_def
        session_cancellationRequestedByCallback_def session_cancellationRequestedByStarter_def cb_defs)
  then obtain w where w: "run_routines AFK_RUN_LAMBDA_ONLY (s_autodelete ?s) (session_sid ?s) (map lambda_unit gs)
      \<lparr>w_r0 = x, w_result = x, w_cb = s_cblk ?s, w_gc = r_gc r\<rparr> = Ret (gs \<noteq> [], w)" "w_cb w = s_cblk ?s"
    using run_routines_asked [of "\<lparr>w_r0 = x, w_result = x, w_cb = s_cblk ?s, w_gc = r_gc r\<rparr>"
        "s_autodelete ?s" "session_sid ?s" gs] by auto
  define r1 where "r1 = dispose_result (w_result w) (r\<lparr>r_session := ?s, r_gc := w_gc w\<rparr>)"
  have r1: "r_session r1 = ?s" "summaries r1 = summaries r"
    by (simp_all add: r1_def) (simp add: dispose_result_def)
  have o: "over ?s"
    using c d ok fields(2) by (simp add: over_def drainable_session_def session_slots_ok_def hyb_open_def)
  have run: "process_item X (hotRoutR (r_session r)) x st r =
     (if gs \<noteq> [] then obind (cancel_path call_cancel_handler r1)
          (\<lambda>r2. Ret (Some eAFK_ES_WAS_CANCELLED, on_session (\<lambda>s. s\<lparr>busyCount := 0\<rparr>) r2))
      else obind (cancel_path (\<lambda>h r. call_cancel_handler h (composing_invokeCancellationHandler h r))
             (on_session (\<lambda>s. on_queue tq_unoccupy (session_resetPriorityQueue s)) r1))
          (\<lambda>r2. Ret (Some eAFK_ES_HAS_NONE, r2)))"
    using fields(1,5,6) w c
    by (simp add: process_item_def on_queue_def Let_def r1_def flip: r1_def)
  show thesis
  proof (cases "gs = []")
    case False
    from o r1(1) have "over (r_session r1)" by simp
    then obtain s' g' where "cancel_path call_cancel_handler r1 =
        Ret (call_cancel_handler (cancel_handler (r_session r1)) (r1\<lparr>r_session := s', r_gc := g'\<rparr>))"
      "over s'" by (rule cancel_path_over)
    with False run that r1(2) show thesis by (simp add: on_session_def)
  next
    case True
    let ?r = "on_session (\<lambda>s. on_queue tq_unoccupy (session_resetPriorityQueue s)) r1"
    from o r1(1) have "over (r_session ?r)" by (simp add: on_session_def over_unoccupy)
      then obtain s' g' where "cancel_path (\<lambda>h r. call_cancel_handler h (composing_invokeCancellationHandler h r)) ?r =
        Ret (call_cancel_handler (cancel_handler (r_session ?r))
          (composing_invokeCancellationHandler (cancel_handler (r_session ?r)) (?r\<lparr>r_session := s', r_gc := g'\<rparr>)))"
      "over s'" by (rule cancel_path_over)
    with True run that r1(2) show thesis by simp
  qed
qed

section \<open>The steps keep the invariant\<close>

lemma postData_serving:
  assumes "dataQueues s = [h]" and "\<not> cb_flushed (s_cblk s)"
  shows "snd (composing_postData d s) = s\<lparr>dataQueues := [snd (hyb_castObject d 0 h)]\<rparr>"
  using assms by (simp add: composing_postData_def cb_flushRequested_def split: prod.split)

lemma over_post:
  assumes "over s" and "\<forall>h \<in> set (dataQueues s). hyb_room 1 h"
  shows "over (snd (composing_postData (Some p) s))"
proof (cases "dataQueues s")
  case Nil
  have "tq_open (snd (tq_castObject (Some p) 0 (queueZero s)))"
    using assms(1) tqf.enq_inv [of "queueZero s"] by (simp add: over_def drainable_session_def)
  with Nil assms(1) show ?thesis
    by (auto simp: composing_postData_def over_def drainable_session_def session_slots_ok_def
        cancel_requested_def session_cancellationRequestedByCallback_def
        session_cancellationRequestedByStarter_def cb_defs)
next
  case (Cons h hs)
  have "hyb_open (snd (hyb_castObject (Some p) 0 h))"
    using assms Cons hybf.enq_inv [of h 0 p] by (simp add: over_def drainable_session_def)
  with Cons assms(1) show ?thesis
    by (auto simp: composing_postData_def over_def drainable_session_def session_slots_ok_def
        split: prod.split)
qed

lemma in_service_queue:
  assumes "in_service gs f h S" and "hyb_inv h'" and "\<forall>p \<in> set (hyb_data h'). p \<noteq> None"
    and "sh_held S = None \<Longrightarrow> sint (occupant h') < 0"
  shows "in_service gs f h' (with_session (\<lambda>s. s\<lparr>dataQueues := [h']\<rparr>) S)"
  using assms
  by (auto simp: in_service_def with_session_def on_session_def serving_def unasked_def
      session_slots_ok_def split: option.splits)

lemma with_session_simps [simp]:
  "shared_session (with_session g S) = g (shared_session S)"
  "sh_held (with_session g S) = sh_held S" "sh_working (with_session g S) = sh_working S"
  "sh_posted (with_session g S) = sh_posted S" "sh_flushed (with_session g S) = sh_flushed S" "held_items (with_session g S) = held_items S"
  "summaries (sh_run (with_session g S)) = summaries (sh_run S)"
  by (simp_all add: with_session_def held_items_def) (simp add: on_session_def)

lemma posted_frame [simp]:
  "in_service gs f h (S\<lparr>sh_posted := ps\<rparr>) = in_service gs f h S"
  "held_items (S\<lparr>sh_posted := ps\<rparr>) = held_items S"
  "in_service gs f h (S\<lparr>sh_flushed := ps\<rparr>) = in_service gs f h S"
  "held_items (S\<lparr>sh_flushed := ps\<rparr>) = held_items S"
  by (auto simp: in_service_def held_items_def split: option.split)

lemma mode_post:
  assumes "in_mode gs f ad rest S" and "\<forall>h \<in> set (dataQueues (shared_session S)). hyb_room 1 h"
  shows "in_mode gs f ad (rest @ [p]) (with_session (\<lambda>s. snd (composing_postData (Some p) s)) S)"
    (is "in_mode _ _ _ _ ?S")
  using assms(1) unfolding in_mode_def
proof (elim disjE conjE exE)
  fix h
  assume ad: "s_autodelete (shared_session S) = ad" and h: "in_service gs f h S"
    and rest: "rest = held_items S @ hyb_contents h"
  from h have "serving gs f h (unasked (shared_session S))" by (simp add: in_service_def)
  note fields = serving_fields(1,3,2) [OF this]
  let ?h = "snd (hyb_castObject (Some p) 0 h)"
  have S: "?S = with_session (\<lambda>s. s\<lparr>dataQueues := [?h]\<rparr>) S"
    using postData_serving [OF fields(1,2), of "Some p"] by (simp add: with_session_def on_session_def)
  have h': "hyb_inv ?h" "hyb_data ?h = hyb_data h @ [Some p]" "occupant ?h = occupant h"
    using hyb_castObject_inv [OF fields(3)] assms(2) fields(1) by simp_all
  have "in_service gs f ?h ?S"
    unfolding S by (rule in_service_queue [OF h]) (use h h' in \<open>auto simp: in_service_def\<close>)
  moreover have "rest @ [p] = held_items ?S @ hyb_contents ?h"
    using rest h'(2) by (simp add: hyb_contents_def)
  ultimately show "sh_held ?S = None \<and> over (shared_session ?S) \<or> s_autodelete (shared_session ?S) = ad \<and>
      (\<exists>h. in_service gs f h ?S \<and> rest @ [p] = held_items ?S @ hyb_contents h)"
    using ad S by auto
qed (use over_post [OF _ assms(2)] in auto)

text \<open>Requests: what they change is in neither mode.\<close>

lemma request_frame:
  assumes "g \<in> {session_pause, session_resume, composing_cancel}"
  shows "over s \<Longrightarrow> over (g s)" and "in_service gs f h S \<Longrightarrow> in_service gs f h (with_session g S)"
    and "s_autodelete (g s) = s_autodelete s" and "dataQueues (g s) = dataQueues s"
  using assms
  by (auto simp: in_service_def over_def session_pause_def session_resume_def composing_cancel_def
      with_session_def on_session_def unasked_def serving_def cb_defs session_slots_ok_def
      drainable_session_def cancel_requested_def session_cancellationRequestedByCallback_def
      session_cancellationRequestedByStarter_def split: option.splits)

lemma flushed_mode [simp]: "in_mode gs f ad rest (S\<lparr>sh_flushed := ps\<rparr>) = in_mode gs f ad rest S"
  by (simp add: in_mode_def)

lemma mode_request:
  assumes "in_mode gs f ad rest S" and "g \<in> {session_pause, session_resume, composing_cancel}"
  shows "in_mode gs f ad rest (with_session g S)"
  using assms(1) request_frame(1,2) [OF assms(2)] request_frame(3) [OF assms(2)]
  unfolding in_mode_def by fastforce

lemma held_working: "in_service gs f h S \<Longrightarrow> \<not> sh_working S \<Longrightarrow> sh_held S = None"
  by (auto simp: in_service_def split: option.splits)

lemma in_service_serving:
  assumes "in_service gs f h S" and "\<not> cancel_requested (shared_session S)"
  shows "serving gs f h (shared_session S)"
  using assms by (simp add: in_service_def unasked_same)

lemma asked_over:
  "in_service gs f h S \<Longrightarrow> sh_held S = None \<Longrightarrow> cancel_requested (shared_session S) \<Longrightarrow>
   over (shared_session S)"
  using in_service_drainable [of gs f h S] by (simp add: over_def) (simp add: in_service_def)

lemma head_serves:
  assumes "serving gs f h (r_session r)"
  obtains e where "select_head X r = Ret (e, r\<lparr>r_session := awake (r_session r)\<rparr>)"
proof -
  have "select_head X r = Ret (if s_isStopped (r_session r) then Some eAFK_ES_WAS_CANCELLED else None,
      r\<lparr>r_session := awake (r_session r)\<rparr>)"
    using serving_not_cancelled [OF assms] assms
    by (simp add: select_head_def Let_def check_expiration_def serving_def flip: awake_def)
  then show thesis by (rule that)
qed

lemma awake_in_service:
  assumes "in_service gs f h S" and "sh_held S = None"
  shows "\<exists>h'. in_service gs f h' (S\<lparr>sh_run := (sh_run S)\<lparr>r_session := awake (shared_session S)\<rparr>, sh_working := w\<rparr>) \<and>
     hyb_contents h' = hyb_contents h"
  using assms
  by (intro exI [of _ "if s_paused (shared_session S) then tq_unoccupy h else h"])
    (auto simp: in_service_def serving_def unasked_def awake_def session_adoptDataFromZeroQueue_def
      Let_def session_slots_ok_def hyb_contents_def)

lemma in_mode_over: "sh_held S = None \<Longrightarrow> over (shared_session S) \<Longrightarrow> in_mode gs f ad rest S"
  by (simp add: in_mode_def)

text \<open>The worker's steps, which neither wait nor fail.\<close>

lemma mode_enter:
  assumes "in_mode gs f ad rest S" and "\<not> sh_working S"
  obtains e r where "select_head X (sh_run S) = Ret (e, r)"
    and "summaries r = summaries (sh_run S)"
    and "in_mode gs f ad rest (S\<lparr>sh_run := r, sh_working := e = None\<rparr>)"
    and "cancel_requested (shared_session S) \<Longrightarrow> cancel_requested (r_session r)"
proof (cases "sh_held S = None \<and> over (shared_session S)")
  case True
  then have "over (shared_session S)" ..
  then obtain e r where "select_head X (sh_run S) = Ret (Some e, r)" "over (r_session r)"
    "summaries r = summaries (sh_run S)"
    by (rule head_over)
  with True show thesis by (intro that [of "Some e" r]) (simp_all add: in_mode_over, simp add: over_def)
next
  case False
  with assms(1) obtain h where ad: "s_autodelete (shared_session S) = ad" and h: "in_service gs f h S"
    and rest: "rest = held_items S @ hyb_contents h"
    unfolding in_mode_def by blast
  have held: "sh_held S = None" by (rule held_working [OF h assms(2)])
  with False asked_over [OF h] have "\<not> cancel_requested (shared_session S)" by blast
  with h have "serving gs f h (shared_session S)" by (rule in_service_serving)
  then obtain e where e: "select_head X (sh_run S) =
      Ret (e, (sh_run S)\<lparr>r_session := awake (shared_session S)\<rparr>)" (is "_ = Ret (_, ?r)")
    by (rule head_serves)
  obtain h' where "in_service gs f h' (S\<lparr>sh_run := ?r, sh_working := e = None\<rparr>)"
    "hyb_contents h' = hyb_contents h"
    using awake_in_service [OF h held] by blast
  then have "in_mode gs f ad rest (S\<lparr>sh_run := ?r, sh_working := e = None\<rparr>)"
    using ad rest unfolding in_mode_def by (auto simp: held_items_def)
  with e show thesis by (intro that [of e ?r]) simp_all
qed

lemma in_service_pulled:
  assumes "in_service gs f h S"
    and "shared_session S' = (shared_session S)\<lparr>dataQueues := [h']\<rparr>"
    and "hyb_inv h'" and "\<forall>p \<in> set (hyb_data h'). p \<noteq> None"
    and "case sh_held S' of
        None \<Rightarrow> sint (occupant h') < 0
      | Some (indR, item, st) \<Rightarrow>
          sh_working S' \<and> indR = hotRoutR (shared_session S) \<and> item \<noteq> None \<and> \<not> qs_called st"
  shows "in_service gs f h' S'"
proof -
  have "serving gs f h' (unasked (shared_session S'))"
    using assms(1-3) by (simp add: in_service_def serving_def unasked_def)
  with assms(1,2,4,5) show ?thesis
    by (cases "sh_held S'") (auto simp: in_service_def session_slots_ok_def)
qed

lemma mode_front:
  assumes "in_mode gs f ad rest S" and "sh_working S" and held: "sh_held S = None"
  obtains fr r where "turn_front occ ii (sh_run S) = Ret (fr, r)"
    and "summaries r = summaries (sh_run S)"
    and "in_mode gs f ad rest (after_front fr (S\<lparr>sh_run := r\<rparr>))"
    and "cancel_requested (shared_session S) \<Longrightarrow> cancel_requested (r_session r)"
proof (cases "over (shared_session S)")
  case True
  then obtain r where "turn_front occ ii (sh_run S) = Ret (Leave eAFK_ES_HAS_NONE, r)"
    "over (r_session r)" "summaries r = summaries (sh_run S)"
    by (rule front_over)
  with held show thesis by (intro that [of "Leave eAFK_ES_HAS_NONE" r]) (simp_all add: in_mode_over, simp add: over_def)
next
  case False
  with assms(1) obtain h where ad: "s_autodelete (shared_session S) = ad" and h: "in_service gs f h S"
    and rest: "rest = hyb_contents h"
    using held unfolding in_mode_def held_items_def by auto
  have s: "serving gs f h (shared_session S)"
    by (rule in_service_serving [OF h]) (use asked_over [OF h held] False in blast)
  have free: "sint (occupant h) < 0" and d: "\<forall>p \<in> set (hyb_data h). p \<noteq> None"
    using h held by (simp_all add: in_service_def)
  show thesis
  proof (cases "hyb_data h")
    case Nil
    obtain h' where h': "turn_front occ ii (sh_run S) = Ret (Leave eAFK_ES_HAS_NONE,
        (sh_run S)\<lparr>r_session := (shared_session S)\<lparr>dataQueues := [h']\<rparr>\<rparr>)"
      "hyb_inv h'" "hyb_data h' = []" "sint (occupant h') < 0"
      by (rule front_leaves [OF s free Nil])
    have "in_service gs f h' (S\<lparr>sh_run := (sh_run S)\<lparr>r_session := (shared_session S)\<lparr>dataQueues := [h']\<rparr>\<rparr>,
        sh_working := False\<rparr>)"
      by (rule in_service_pulled [OF h _ h'(2)]) (simp_all add: h' held)
    then show thesis
      by (intro that [OF h'(1)])
        (use ad rest Nil held h'(3) in \<open>auto simp: in_mode_def held_items_def hyb_contents_def\<close>)
  next
    case (Cons x xs)
    with d obtain p where p: "x = Some p" by auto
    obtain st h' where h': "turn_front occ ii (sh_run S) = Ret (Take (hotRoutR (shared_session S)) x st,
        (sh_run S)\<lparr>r_session := (shared_session S)\<lparr>dataQueues := [h']\<rparr>\<rparr>)"
      "\<not> qs_called st" "hyb_inv h'" "hyb_data h' = xs"
      by (rule front_takes [OF s free Cons])
    have "in_service gs f h' (S\<lparr>sh_run := (sh_run S)\<lparr>r_session := (shared_session S)\<lparr>dataQueues := [h']\<rparr>\<rparr>,
        sh_held := Some (hotRoutR (shared_session S), x, st)\<rparr>)"
      by (rule in_service_pulled [OF h _ h'(3)]) (use h' d Cons p assms(2) in simp_all)
    moreover have "hyb_contents h = p # hyb_contents h'"
      using Cons p h'(4) by (simp add: hyb_contents_def)
    ultimately show thesis
      by (intro that [OF h'(1)]) (use ad rest p in \<open>auto simp: in_mode_def held_items_def\<close>)
  qed
qed

lemma in_service_busy:
  "in_service gs f h S \<Longrightarrow> in_service gs f h (with_session (\<lambda>s. s\<lparr>busyCount := n\<rparr>) S)"
  by (auto simp: in_service_def serving_def unasked_def session_slots_ok_def split: option.splits)

lemma mode_process:
  assumes "in_mode gs f ad rest S" and held: "sh_held S = Some (indR, item, st)"
  obtains e r served rest' where "process_item X indR item st (sh_run S) = Ret (e, r)"
    and "rest = served @ rest'"
    and "summaries r = summaries (sh_run S) @ map (\<lambda>p. composed ad gs (Some p)) served"
    and "in_mode gs f ad rest' (S\<lparr>sh_run := r, sh_held := None, sh_working := e = None\<rparr>)"
    and "cancel_requested (shared_session S) \<Longrightarrow> cancel_requested (r_session r)"
    and "served = (if cancel_requested (shared_session S) then [] else held_items S)"
proof -
  from assms obtain h where ad: "s_autodelete (shared_session S) = ad" and h: "in_service gs f h S"
    and rest: "rest = held_items S @ hyb_contents h"
    unfolding in_mode_def by auto
  from h held have u: "serving gs f h (unasked (shared_session S))" "session_slots_ok (shared_session S)"
      "tq_open (queueZero (shared_session S))" "\<forall>p \<in> set (hyb_data h). p \<noteq> None"
    and st: "indR = hotRoutR (shared_session S)" "\<not> qs_called st"
    by (simp_all add: in_service_def)
  from h held obtain p where p: "item = Some p" by (auto simp: in_service_def)
  show thesis
  proof (cases "cancel_requested (shared_session S)")
    case True
    obtain e r where "process_item X (hotRoutR (shared_session S)) item st (sh_run S) = Ret (Some e, r)"
      "over (r_session r)" "summaries r = summaries (sh_run S)"
      by (rule process_over [OF u(1) True u(4,3,2)])
    then show thesis
      by (intro that [of "Some e" r "[]" rest]) (simp_all add: st True in_mode_over, simp add: over_def)
  next
    case False
    define r where "r = (sh_run S)\<lparr>r_session := (shared_session S)\<lparr>dataQueues := [tq_unoccupy h],
          busyCount := busyCount (shared_session S) - 1\<rparr>,
        r_gc := fold gc_cast_data (garbage ad gs f item) (r_gc (sh_run S)),
        r_events := r_events (sh_run S) @ [Summary_called (composed ad gs item)]\<rparr>"
    have run: "process_item X indR item st (sh_run S) = Ret (None, r)"
      using process_item_serving [OF in_service_serving [OF h False] st(2), of X item]
      by (simp add: r_def st(1) ad)
    define S1 where "S1 = with_session (\<lambda>s. s\<lparr>dataQueues := [tq_unoccupy h]\<rparr>) S\<lparr>sh_held := None, sh_working := True\<rparr>"
    have "in_service gs f (tq_unoccupy h) S1"
      by (rule in_service_pulled [OF h, of _ "tq_unoccupy h"])
        (use u(1,4) in \<open>simp_all add: S1_def with_session_def on_session_def serving_def\<close>)
    from in_service_busy [OF this, of "busyCount (shared_session S) - 1"]
    have "in_service gs f (tq_unoccupy h) (S\<lparr>sh_run := r, sh_held := None, sh_working := True\<rparr>)"
      by (simp add: in_service_def S1_def with_session_def on_session_def r_def)
    then have "in_mode gs f ad (hyb_contents h) (S\<lparr>sh_run := r, sh_held := None, sh_working := None = None\<rparr>)"
      unfolding in_mode_def by (auto simp: held_items_def hyb_contents_def r_def ad)
    moreover have "rest = [p] @ hyb_contents h" using rest held p by (simp add: held_items_def)
    moreover have "summaries r = summaries (sh_run S) @ map (\<lambda>p. composed ad gs (Some p)) [p]"
      by (simp add: summaries_def r_def p)
    ultimately show thesis using run False
      by (intro that [of None r "[p]" "hyb_contents h"]) (simp_all add: held_items_def held p)
  qed
qed

section \<open>A flush by a user\<close>

text \<open>
  The pulls of a flush are those of an outsider: from a queue that a reader has marked they get
  nothing. The flush then takes the mark away and lowers its flag as if the queue were empty.
\<close>

lemma pull_taken:
  assumes "hyb_inv h" and "0 \<le> sint (occupant h)"
  obtains h1 where "pull_all hyb_pull [] h = Some ([], h1)" and "hyb_inv h1" and "hyb_data h1 = hyb_data h"
proof -
  have "occupied_by_other (- 1) h" using assms(2) by (auto simp: occupied_by_other_def)
  moreover obtain h1 where "hyb_size_raw h = (netCount (regQ h), h1)" "hyb_inv h1" "hyb_data h1 = hyb_data h"
    using hyb_size_raw_eq [OF assms(1)] by metis
  ultimately show thesis
    by (intro that [of h1]) (subst pull_all.simps, simp_all add: hyb_pull_def hyb_pullAndOccupyWithId_def Let_def)
qed

lemma flush_in_use:
  assumes "dataQueues s = [h]" and "hyb_inv h" and "\<forall>p \<in> set (hyb_data h). p \<noteq> None"
    and q: "tq_open (queueZero s)" and "\<not> cb_flushed (s_cblk s)"
  obtains q0 h' n g' where
    "composing_flush s g = Some (s\<lparr>queueZero := q0, dataQueues := [h'], busyCount := n\<rparr>, g')"
    and "tq_open q0" and "hyb_inv h'" and "occupant h' = - 1"
    and "hyb_data h' = (if 0 \<le> sint (occupant h) then hyb_data h else [])"
proof -
  have flag: "s\<lparr>queueZero := q0, dataQueues := hs, busyCount := n,
      s_cblk := cb_set_flushRequested False (cb_set_flushRequested True (s_cblk s))\<rparr> =
    s\<lparr>queueZero := q0, dataQueues := hs, busyCount := n\<rparr>" for q0 hs n
    using assms(5) by (cases "s_cblk s", cases s) (simp add: cb_set_flushRequested_def)
  let ?s = "s\<lparr>s_cblk := cb_set_flushRequested True (s_cblk s)\<rparr>"
  show thesis
  proof (cases "0 \<le> sint (occupant h)")
    case False
    with assms(1-4) have "drainable_session ?s" by (simp add: drainable_session_def hyb_open_def)
    from flush_locked_empties [OF this, of g] obtain q0 hs n g' where
      f: "composing_flush s g = Some (s\<lparr>queueZero := q0, dataQueues := hs, busyCount := n\<rparr>, g')" "tq_open q0"
      "length hs = 1" and hs: "\<forall>h \<in> set hs. hyb_open h \<and> hyb_data h = [] \<and> occupant h = - 1"
      using assms(1) by (auto simp: composing_flush_def flag [simplified])
    from f(3) obtain h' where "hs = [h']" by (auto simp: length_Suc_conv)
    with f hs False that [where h' = h' and ?q0.0 = q0 and n = n and g' = g'] show thesis by (simp add: hyb_open_def)
  next
    case True
    obtain h1 where h1: "pull_all hyb_pull [] h = Some ([], h1)" "hyb_inv h1" "hyb_data h1 = hyb_data h"
      by (rule pull_taken [OF assms(2) True])
    have "blk_idle h1" using h1(2) by (simp add: hyb_inv_def)
    note res = pull_residual_idle [OF this]
    from q obtain q0 where q0: "pull_all tq_pull [] (queueZero s) = Some (tq_contents (queueZero s), q0)" "tq_open q0"
      using tqf.pull_all_empties [of "queueZero s" "[]"] by auto
    have "composing_flush s g = Some (s\<lparr>queueZero := q0, dataQueues := [tq_unoccupy h1], busyCount := busyCount s\<rparr>,
        discard (s_autodelete s) (tq_contents (queueZero s)) g)"
      using flag [where ?q0.0 = q0 and hs = "[tq_unoccupy h1]" and n = "busyCount s"]
      by (simp add: composing_flush_def composing_flush_locked_def q0(1) assms(1) h1(1) res discard_def)
    then show thesis by (rule that) (use h1 q0 True in simp_all)
  qed
qed

lemma flush_over:
  assumes "over s"
  obtains s' g' where "composing_flush s g = Some (s', g')" and "over s'"
proof -
  have "drainable_session (s\<lparr>s_cblk := cb_set_flushRequested True (s_cblk s)\<rparr>)"
    using assms by (simp add: over_def drainable_session_def)
  from flush_locked_empties [OF this, of g] assms that show thesis
    by (fastforce simp: composing_flush_def over_def drainable_session_def session_slots_ok_def cancel_requested_def
        session_cancellationRequestedByCallback_def session_cancellationRequestedByStarter_def cb_defs)
qed

lemma in_mode_asked:
  "in_mode gs f ad rest S \<Longrightarrow> sh_held S = None \<Longrightarrow> cancel_requested (shared_session S) \<Longrightarrow>
   over (shared_session S)"
  unfolding in_mode_def using asked_over by blast

lemma mode_flush:
  assumes m: "in_mode gs f ad (held_items S @ w) S"
    and n: "\<not> (sh_held S = None \<and> cancel_requested (shared_session S))"
  obtains s' g' where "composing_flush (shared_session S) (r_gc (sh_run S)) = Some (s', g')"
    and "waiting_data (shared_session S) = w" and "waiting_data s' = w \<or> waiting_data s' = []"
    and "in_mode gs f ad (held_items S @ waiting_data s') (S\<lparr>sh_run := (sh_run S)\<lparr>r_session := s', r_gc := g'\<rparr>\<rparr>)"
    and "cancel_requested s' = cancel_requested (shared_session S)"
proof -
  from m n obtain h where ad: "s_autodelete (shared_session S) = ad" and h: "in_service gs f h S"
    and w: "w = hyb_contents h"
    unfolding in_mode_def over_def by auto
  from h have s: "serving gs f h (unasked (shared_session S))" and q: "tq_open (queueZero (shared_session S))"
    and d: "\<forall>p \<in> set (hyb_data h). p \<noteq> None" by (simp_all add: in_service_def)
  note fields = serving_fields [OF s]
  obtain q0 h' n g' where fl: "composing_flush (shared_session S) (r_gc (sh_run S)) =
      Some ((shared_session S)\<lparr>queueZero := q0, dataQueues := [h'], busyCount := n\<rparr>, g')" (is "_ = Some (?s, _)")
    "tq_open q0" "hyb_inv h'" "occupant h' = - 1"
    "hyb_data h' = (if 0 \<le> sint (occupant h) then hyb_data h else [])"
    by (rule flush_in_use [OF fields(1,2) d q fields(3)])
  have "in_service gs f h' (S\<lparr>sh_run := (sh_run S)\<lparr>r_session := ?s, r_gc := g'\<rparr>\<rparr>)"
    using h fl(2-5) d
    by (auto simp: in_service_def serving_def unasked_def session_slots_ok_def split: option.splits)
  then have "in_mode gs f ad (held_items S @ waiting_data ?s) (S\<lparr>sh_run := (sh_run S)\<lparr>r_session := ?s, r_gc := g'\<rparr>\<rparr>)"
    unfolding in_mode_def using ad by (auto simp: held_items_def waiting_data_def)
  then show thesis
    by (intro that [OF fl(1)])
      (use w fields(1) fl(5) in \<open>auto simp: waiting_data_def hyb_contents_def cancel_requested_def
        session_cancellationRequestedByCallback_def session_cancellationRequestedByStarter_def\<close>)
qed

section \<open>Every interleaving\<close>

definition shared_start ::
  "('p option \<Rightarrow> 'p option) list \<Rightarrow> ('p option \<Rightarrow> 'p option) \<Rightarrow> bool \<Rightarrow> ('p, 'x) shared \<Rightarrow> bool" where
  "shared_start gs f ad S \<longleftrightarrow>
     sh_held S = None \<and> sh_flushed S = [] \<and> summaries (sh_run S) = [] \<and> s_autodelete (shared_session S) = ad \<and>
     session_slots_ok (shared_session S) \<and> tq_open (queueZero (shared_session S)) \<and>
     (\<exists>h. serving gs f h (shared_session S) \<and> hyb_open h \<and> sh_posted S = hyb_contents h)"

lemma serving_unasked: "serving gs f h s \<Longrightarrow> serving gs f h (unasked s)"
  by (simp add: serving_def unasked_def)

lemma shared_inv_start: "shared_start gs f ad S \<Longrightarrow> shared_inv gs f ad S"
proof -
  assume S: "shared_start gs f ad S"
  then obtain h where "serving gs f h (shared_session S)" "hyb_open h" "sh_posted S = hyb_contents h"
    by (auto simp: shared_start_def)
  moreover from this S have "in_service gs f h S"
    by (auto simp: in_service_def shared_start_def serving_unasked hyb_open_def)
  ultimately show ?thesis
    using S by (intro shared_invI [where served = "[]" and w = "hyb_contents h"])
      (auto simp: shared_start_def in_mode_def held_items_def accounted_def intro!: exI [of _ "[]"])
qed

lemma request_cancels:
  "cancel_requested (session_pause s) = cancel_requested s"
  "cancel_requested (session_resume s) = cancel_requested s"
  "cancel_requested (composing_cancel s)"
  by (simp_all add: cancel_requested_def session_cancellationRequestedByCallback_def
      session_cancellationRequestedByStarter_def session_pause_def session_resume_def
      composing_cancel_def cb_defs)

text \<open>A step keeps the invariant; once a cancellation is asked for, it serves nothing more.\<close>

definition keeps ::
  "('p option \<Rightarrow> 'p option) list \<Rightarrow> ('p option \<Rightarrow> 'p option) \<Rightarrow> bool \<Rightarrow>
   ('p, 'x) shared \<Rightarrow> ('p, 'x) shared \<Rightarrow> bool" where
  "keeps gs f ad S S' \<longleftrightarrow> shared_inv gs f ad S' \<and>
     (cancel_requested (shared_session S) \<longrightarrow>
        cancel_requested (shared_session S') \<and> summaries (sh_run S') = summaries (sh_run S))"

lemma keepsI:
  assumes "summaries (sh_run S) = map (\<lambda>p. composed ad gs (Some p)) served"
    and "summaries (sh_run S') = summaries (sh_run S)"
    and "accounted served w S'" and "in_mode gs f ad (held_items S' @ w) S'"
    and "cancel_requested (shared_session S) \<Longrightarrow> cancel_requested (shared_session S')"
  shows "keeps gs f ad S S'"
  using assms by (simp add: keeps_def shared_invI)

lemma accounted_same:
  assumes "accounted served w S" and "sh_posted S' = sh_posted S @ xs" and "sh_flushed S' = sh_flushed S"
    and "sh_held S' = sh_held S"
    and "cancel_requested (shared_session S) \<Longrightarrow> cancel_requested (shared_session S')"
  shows "accounted served (w @ xs) S'"
proof -
  have "held_items S' = held_items S" using assms(4) by (simp add: held_items_def)
  with assms show ?thesis unfolding accounted_def by fastforce
qed

lemma keeps_request:
  assumes "summaries (sh_run S) = map (\<lambda>p. composed ad gs (Some p)) served"
    and "accounted served w S" and "in_mode gs f ad (held_items S @ w) S"
    and "g \<in> {session_pause, session_resume, composing_cancel}"
  shows "keeps gs f ad S (with_session g S)"
proof (rule keepsI [OF assms(1)])
  show "accounted served w (with_session g S)"
    using accounted_same [OF assms(2), of "with_session g S" "[]"] assms(4) by (auto simp: request_cancels)
qed (use mode_request [OF assms(3,4)] assms(4) in \<open>auto simp: request_cancels\<close>)

text \<open>What the steps that move items do to the account.\<close>

lemma accounted_take:
  assumes "accounted served w S" and "w = p # w'" and "sh_held S = None"
    and "\<not> cancel_requested (shared_session S)"
    and "sh_posted S' = sh_posted S" "sh_flushed S' = sh_flushed S" "held_items S' = [p]"
  shows "accounted served w' S'"
proof -
  from assms(1,4) obtain gone where g: "sh_posted S = gone @ w"
    "gone \<in> shuffles (served @ held_items S) (sh_flushed S)"
    by (auto simp: accounted_def)
  have "held_items S = []" using assms(3) by (simp add: held_items_def)
  with g(2) have "gone @ [p] \<in> shuffles (served @ held_items S') (sh_flushed S')"
    using shuffles_append [of gone served "sh_flushed S" "[p]" "[p]" "[]"] assms(6,7) by simp
  then show ?thesis
    unfolding accounted_def using g(1) assms(2,5)
    by (intro exI [of _ "gone @ [p]"] exI [of _ "sh_flushed S'"] exI [of _ "[]"]) simp
qed

lemma accounted_done:
  assumes "accounted served w S" and "sh_held S \<noteq> None"
    and "sh_posted S' = sh_posted S" "sh_flushed S' = sh_flushed S" "sh_held S' = None"
  shows "accounted (served @ held_items S) w S'"
proof -
  from assms(1,2) obtain gone where "sh_posted S = gone @ w"
    "gone \<in> shuffles (served @ held_items S) (sh_flushed S)"
    by (auto simp: accounted_def)
  moreover have "held_items S' = []" using assms(5) by (simp add: held_items_def)
  ultimately show ?thesis unfolding accounted_def using assms(3-)
    by (intro exI [of _ gone] exI [of _ "sh_flushed S'"] exI [of _ "[]"]) simp
qed

lemma accounted_dropped:
  assumes "accounted served w S" and "sh_held S \<noteq> None"
    and "sh_posted S' = sh_posted S" "sh_flushed S' = sh_flushed S" "sh_held S' = None"
    and "cancel_requested (shared_session S')"
  shows "\<exists>w'. accounted served w' S'"
proof -
  from assms(1,2) obtain gone where g: "sh_posted S = gone @ w"
    "gone \<in> shuffles (served @ held_items S) (sh_flushed S)"
    by (auto simp: accounted_def)
  from shuffles_appendD [OF g(2)] obtain gone1 gone2 fl more where
    "gone = gone1 @ gone2" "sh_flushed S = fl @ more" "gone1 \<in> shuffles served fl" by blast
  then have "accounted served (gone2 @ w) S'"
    using g(1) assms(3-6) by (auto simp: accounted_def held_items_def)
  then show ?thesis ..
qed

lemma accounted_flush:
  assumes "accounted served w S" and "\<not> (sh_held S = None \<and> cancel_requested (shared_session S))"
    and "w' = w \<or> w' = []" and "sh_posted S' = sh_posted S" "sh_held S' = sh_held S"
    and "sh_flushed S' = sh_flushed S @ take (length w - length w') w"
  shows "accounted served w' S'"
proof -
  from assms(1,2) obtain gone where g: "sh_posted S = gone @ w"
    "gone \<in> shuffles (served @ held_items S) (sh_flushed S)"
    by (auto simp: accounted_def)
  have h: "held_items S' = held_items S" using assms(5) by (simp add: held_items_def)
  from assms(3) show ?thesis
  proof
    assume "w' = w"
    with g h assms(4,6) show ?thesis by (auto simp: accounted_def)
  next
    assume w': "w' = []"
    with g have "gone @ w \<in> shuffles (served @ held_items S') (sh_flushed S')"
      using shuffles_append [of gone "served @ held_items S" "sh_flushed S" w "[]" w] assms(6) h by simp
    with w' g(1) assms(4) show ?thesis unfolding accounted_def
      by (intro exI [of _ "gone @ w"] exI [of _ "sh_flushed S'"] exI [of _ "[]"]) simp
  qed
qed

lemma accounted_over:
  assumes "accounted served w S" and "sh_held S = None" "cancel_requested (shared_session S)"
    and "sh_posted S' = sh_posted S" "sh_flushed S' = sh_flushed S @ xs" "sh_held S' = None"
    and "cancel_requested (shared_session S')"
  shows "accounted served w S'"
  using assms by (fastforce simp: accounted_def held_items_def)

lemma front_take_asked: "turn_front occ ii r = Ret (Take indR item st, r') \<Longrightarrow> \<not> cancel_requested (r_session r)"
  by (auto simp: turn_front_def)

lemma keeps_flush:
  assumes sm: "summaries (sh_run S) = map (\<lambda>p. composed ad gs (Some p)) served"
    and acc: "accounted served w S" and m: "in_mode gs f ad (held_items S @ w) S"
    and fl: "composing_flush (shared_session S) (r_gc (sh_run S)) = Some (s', g')"
  shows "keeps gs f ad S (S\<lparr>sh_run := (sh_run S)\<lparr>r_session := s', r_gc := g'\<rparr>,
      sh_flushed := sh_flushed S @ take (length (waiting_data (shared_session S)) - length (waiting_data s'))
        (waiting_data (shared_session S))\<rparr>)" (is "keeps _ _ _ S ?S")
proof (cases "sh_held S = None \<and> cancel_requested (shared_session S)")
  case True
  then have "over (shared_session S)" using in_mode_asked [OF m] by blast
  then have o: "over s'" using fl by (auto elim: flush_over [where g = "r_gc (sh_run S)"])
  then have c: "cancel_requested s'" by (simp add: over_def)
  show ?thesis
    by (rule keepsI [OF sm, of _ w])
      (use True o c accounted_over [OF acc, of ?S] in \<open>simp_all add: in_mode_over summaries_def\<close>)
next
  case False
  obtain s1 g1 where f: "composing_flush (shared_session S) (r_gc (sh_run S)) = Some (s1, g1)"
    "waiting_data (shared_session S) = w" "waiting_data s1 = w \<or> waiting_data s1 = []"
    "in_mode gs f ad (held_items S @ waiting_data s1) (S\<lparr>sh_run := (sh_run S)\<lparr>r_session := s1, r_gc := g1\<rparr>\<rparr>)"
    "cancel_requested s1 = cancel_requested (shared_session S)"
    by (rule mode_flush [OF m False])
  have s1: "s1 = s'" "g1 = g'" using f(1) fl by simp_all
  have "accounted served (waiting_data s') ?S"
    using accounted_flush [OF acc False, of "waiting_data s'" ?S] f(2,3) s1 by simp
  moreover have "in_mode gs f ad (held_items ?S @ waiting_data s') ?S"
    using f(4) flushed_mode [where S = "S\<lparr>sh_run := (sh_run S)\<lparr>r_session := s', r_gc := g'\<rparr>\<rparr>"]
    unfolding s1 by (simp add: held_items_def)
  ultimately show ?thesis
    by (rule keepsI [OF sm, rotated]) (use f(5) s1 in \<open>simp_all add: summaries_def\<close>)
qed

lemma keeps_post:
  assumes sm: "summaries (sh_run S) = map (\<lambda>p. composed ad gs (Some p)) served"
    and acc: "accounted served w S" and m: "in_mode gs f ad (held_items S @ w) S"
    and room: "\<forall>h \<in> set (dataQueues (shared_session S)). hyb_room 1 h"
    and S': "S' = with_session (\<lambda>s. snd (composing_postData (Some p) s)) S\<lparr>sh_posted := sh_posted S @ [p]\<rparr>"
  shows "keeps gs f ad S S'"
proof -
  have c: "cancel_requested (snd (composing_postData (Some p) (shared_session S))) =
      cancel_requested (shared_session S)"
    by (auto simp: composing_postData_def cancel_requested_def session_cancellationRequestedByCallback_def
        session_cancellationRequestedByStarter_def cb_defs split: list.split prod.split)
  have "accounted served (w @ [p]) S'"
    by (rule accounted_same [OF acc]) (simp_all add: S' c)
  with mode_post [OF m room, of p] show ?thesis
    by (intro keepsI [OF sm, of _ "w @ [p]"]) (auto simp: S' in_mode_def c)
qed

lemma keeps_enter:
  assumes sm: "summaries (sh_run S) = map (\<lambda>p. composed ad gs (Some p)) served"
    and acc: "accounted served w S" and m: "in_mode gs f ad (held_items S @ w) S"
    and idle: "\<not> sh_working S" and head: "select_head X (sh_run S) = Ret (e, r)"
    and S': "S' = S\<lparr>sh_run := r, sh_working := e = None\<rparr>"
  shows "keeps gs f ad S S'"
proof -
  obtain e' r' where n: "select_head X (sh_run S) = Ret (e', r')" "summaries r' = summaries (sh_run S)"
    "in_mode gs f ad (held_items S @ w) (S\<lparr>sh_run := r', sh_working := e' = None\<rparr>)"
    "cancel_requested (shared_session S) \<Longrightarrow> cancel_requested (r_session r')"
    by (rule mode_enter [OF m idle, where X = X]) (rule that)
  have e: "e' = e" "r' = r" using n(1) head by simp_all
  have "accounted served w S'"
    using accounted_same [OF acc, of S' "[]"] n(4) e by (simp add: S')
  with n(2-) e show ?thesis
    by (intro keepsI [OF sm, of _ w]) (simp_all add: S' held_items_def)
qed

lemma keeps_front:
  assumes sm: "summaries (sh_run S) = map (\<lambda>p. composed ad gs (Some p)) served"
    and acc: "accounted served w S" and m: "in_mode gs f ad (held_items S @ w) S"
    and turn: "sh_working S" "sh_held S = None" "turn_front occ ii (sh_run S) = Ret (fr, r)"
    and new: "S' = after_front fr (S\<lparr>sh_run := r\<rparr>)"
  shows "keeps gs f ad S S'"
proof -
  obtain fr' r' where n: "turn_front occ ii (sh_run S) = Ret (fr', r')" "summaries r' = summaries (sh_run S)"
    "in_mode gs f ad (held_items S @ w) (after_front fr' (S\<lparr>sh_run := r'\<rparr>))"
    "cancel_requested (shared_session S) \<Longrightarrow> cancel_requested (r_session r')"
    by (rule mode_front [OF m turn(1,2), where occ = occ and ii = ii]) (rule that)
  have e: "fr' = fr" "r' = r" using n(1) turn(3) by simp_all
  have S': "sh_posted S' = sh_posted S" "sh_flushed S' = sh_flushed S" "sh_run S' = r"
    by (cases fr; simp add: new)+
  have "\<exists>w'. accounted served w' S' \<and> in_mode gs f ad (held_items S' @ w') S'"
  proof (cases "sh_held S' = None")
    case True
    then have "accounted served w S'" and "held_items S' = held_items S"
      using accounted_same [OF acc, of S' "[]"] n(4) e S' turn(2) by (simp_all add: held_items_def)
    with n(3) e new show ?thesis by metis
  next
    case False
    then obtain indR item st where k: "sh_held S' = Some (indR, item, st)" by auto
    with new turn(2) have fr: "fr = Take indR item st" by (cases fr) simp_all
    have m': "in_mode gs f ad w S'" using n(3) e new turn(2) by (simp add: held_items_def)
    then obtain p w' where p: "item = Some p" "w = p # w'"
      using k by (auto simp: in_mode_def in_service_def held_items_def)
    have held: "held_items S' = [p]" using k p(1) by (simp add: held_items_def)
    have "accounted served w' S'"
      using accounted_take [OF acc p(2) turn(2) _ S'(1,2) held] turn(3) fr
      by (auto dest: front_take_asked)
    with m' p held show ?thesis by auto
  qed
  with n(2,4) e S'(3) show ?thesis by (auto intro: keepsI [OF sm])
qed

lemma keeps_process:
  assumes sm: "summaries (sh_run S) = map (\<lambda>p. composed ad gs (Some p)) served"
    and acc: "accounted served w S" and m: "in_mode gs f ad (held_items S @ w) S"
    and k: "sh_held S = Some (indR, item, st)" and item: "process_item X indR item st (sh_run S) = Ret (e, r)"
    and S'_eq: "S' = S\<lparr>sh_run := r, sh_held := None, sh_working := e = None\<rparr>"
  shows "keeps gs f ad S S'"
proof -
  obtain e' r' new rest' where n: "process_item X indR item st (sh_run S) = Ret (e', r')"
    "held_items S @ w = new @ rest'"
    "summaries r' = summaries (sh_run S) @ map (\<lambda>p. composed ad gs (Some p)) new"
    "in_mode gs f ad rest' (S\<lparr>sh_run := r', sh_held := None, sh_working := e' = None\<rparr>)"
    "cancel_requested (shared_session S) \<Longrightarrow> cancel_requested (r_session r')"
    "new = (if cancel_requested (shared_session S) then [] else held_items S)"
    by (rule mode_process [OF m k, where X = X]) (rule that)
  have e: "e' = e" "r' = r" using n(1) item by simp_all
  have S': "sh_posted S' = sh_posted S" "sh_flushed S' = sh_flushed S" "sh_held S' = None" "sh_run S' = r"
      "held_items S' = []" and held: "sh_held S \<noteq> None"
    by (simp_all add: S'_eq k held_items_def)
  have m': "in_mode gs f ad rest' S'" using n(4) e S'_eq by simp
  show ?thesis
  proof (cases "cancel_requested (shared_session S)")
    case True
    with n(5) e S' have c: "cancel_requested (shared_session S')" by simp
    from accounted_dropped [OF acc held S'(1,2,3) c] obtain w' where "accounted served w' S'" ..
    then show ?thesis
      using n(3,6) True c e S' in_mode_over [OF S'(3) in_mode_asked [OF m' S'(3) c]]
      by (intro keepsI [OF sm, of _ w']) simp_all
  next
    case False
    with n(2,6) have new: "new = held_items S" "rest' = w" by simp_all
    have "summaries (sh_run S') = map (\<lambda>p. composed ad gs (Some p)) (served @ held_items S)"
      using n(3) e S'(4) sm new(1) by simp
    then have "shared_inv gs f ad S'"
      using accounted_done [OF acc held S'(1,2,3)] m' new(2) S'(5) by (intro shared_invI) simp_all
    with False show ?thesis by (simp add: keeps_def)
  qed
qed

lemma keeps_step:
  assumes "shared_step X occ ii S S'" and sm: "summaries (sh_run S) = map (\<lambda>p. composed ad gs (Some p)) served"
    and acc: "accounted served w S" and m: "in_mode gs f ad (held_items S @ w) S"
  shows "keeps gs f ad S S'"
  using assms(1)
proof cases
  case (share_post p)
  show ?thesis by (rule keeps_post [OF sm acc m share_post(2,1)])
next
  case (share_flush s' g')
  show ?thesis unfolding share_flush(1) by (rule keeps_flush [OF sm acc m share_flush(2)])
next
  case (share_enter e r)
  show ?thesis by (rule keeps_enter [OF sm acc m share_enter(2,3,1)])
next
  case (share_front fr r)
  show ?thesis by (rule keeps_front [OF sm acc m share_front(2-4,1)])
next
  case (share_process indR item st e r)
  show ?thesis by (rule keeps_process [OF sm acc m share_process(3,4,1)])
qed (auto intro!: keeps_request [OF sm acc m])

lemma shared_inv_step: "shared_inv gs f ad S \<Longrightarrow> shared_step X occ ii S S' \<Longrightarrow> keeps gs f ad S S'"
  by (auto simp: shared_inv_def intro: keeps_step)

interpretation shared_service: invariant "shared_start gs f ad" "shared_step X occ ii" "shared_inv gs f ad"
  by unfold_locales (auto dest: shared_inv_step simp: shared_inv_start keeps_def)

interpretation service_over: invariant
  "\<lambda>S. shared_inv gs f ad S \<and> cancel_requested (shared_session S) \<and> summaries (sh_run S) = ys"
  "shared_step X occ ii"
  "\<lambda>S. shared_inv gs f ad S \<and> cancel_requested (shared_session S) \<and> summaries (sh_run S) = ys"
  by unfold_locales (auto dest: shared_inv_step simp: keeps_def)

definition demo_shared :: "(nat, unit) shared" where
  "demo_shared = \<lparr>sh_posted = [3, 4], sh_flushed = [], sh_held = None, sh_working = False,
     sh_run = demo_run True [map_option Suc] id [3, 4]\<rparr>"

lemma demo_shared_start: "shared_start [map_option Suc] id True demo_shared"
  and demo_shared_room: "\<forall>h \<in> set (dataQueues (shared_session demo_shared)). hyb_room 1 h"
proof -
  note d = demo_hyb_data [of "[3, 4 :: nat]", simplified]
  have s: "serving [map_option Suc] id (demo_hyb [3, 4]) (shared_session demo_shared)"
    using demo_serving [of "[3, 4 :: nat]"] by (simp add: demo_shared_def)
  then show "\<forall>h \<in> set (dataQueues (shared_session demo_shared)). hyb_room 1 h"
    using d(3) [of 1] by (simp add: serving_def)
  have "session_slots_ok (shared_session demo_shared)"
    by (simp add: demo_shared_def)
      (simp add: demo_session_def new_csession_def session.extend_def new_session_def
        session_slots_ok_def slots_ok_def)
  moreover have "hyb_contents (demo_hyb [3, 4 :: nat]) = [3, 4]" using d(2) by (simp add: hyb_contents_def)
  ultimately show "shared_start [map_option Suc] id True demo_shared"
    unfolding shared_start_def using s d
    by (auto simp: summaries_def intro!: exI [of _ "demo_hyb [3, 4]"]) (simp_all add: demo_shared_def)
qed





end
