(* ===== verification/SessionStart.thy ===== *)
theory SessionStart
  imports ComposingSession_Data
begin

text \<open>
  The first work of a session: a new session has no queue and its handlers wait to be swapped in.
  The first \<open>select\<close> swaps the routines and builds the queue; the summary routine is swapped in
  when the first item reaches it.
\<close>

section \<open>A summary routine that waits\<close>

text \<open>The session with the waiting summary routine swapped in.\<close>

definition swap_summary :: "('p, 'x) csession \<Rightarrow> ('p, 'x) csession" where
  "swap_summary s = snd (session_switchSummaryHandlers s)"

lemma swap_summary_fields [simp]:
  "s_cblk (swap_summary s) = s_cblk s" "routinesHndReload (swap_summary s) = routinesHndReload s"
  "excond (swap_summary s) = excond s" "runprioML (swap_summary s) = runprioML s"
  "dataQueues (swap_summary s) = dataQueues s" "routinesHnds (swap_summary s) = routinesHnds s"
  "hotRoutR (swap_summary s) = hotRoutR s" "s_autodelete (swap_summary s) = s_autodelete s"
  "s_paused (swap_summary s) = s_paused s" "s_isStopped (swap_summary s) = s_isStopped s"
  "queueZero (swap_summary s) = queueZero s" "busyCount (swap_summary s) = busyCount s"
  "s_pq (swap_summary s) = s_pq s" "session_sid (swap_summary s) = session_sid s"
  "cancel_requested (swap_summary s) = cancel_requested s"
  by (simp_all add: swap_summary_def session_switchSummaryHandlers_def Let_def session_sid_def
      cancel_requested_def session_cancellationRequestedByCallback_def
      session_cancellationRequestedByStarter_def)

lemma swap_summary_updates:
  "swap_summary (s\<lparr>dataQueues := hs\<rparr>) = (swap_summary s)\<lparr>dataQueues := hs\<rparr>"
  "swap_summary (s\<lparr>s_cblk := cb\<rparr>) = (swap_summary s)\<lparr>s_cblk := cb\<rparr>"
  "swap_summary (s\<lparr>queueZero := q\<rparr>) = (swap_summary s)\<lparr>queueZero := q\<rparr>"
  "swap_summary (s\<lparr>s_pq := l\<rparr>) = (swap_summary s)\<lparr>s_pq := l\<rparr>"
  by (simp_all add: swap_summary_def session_switchSummaryHandlers_def Let_def)

lemma summarise_swapped: "summarise p (on_session swap_summary r) = summarise p r"
  by (cases "sumHndReload (r_session r)")
    (simp_all add: summarise_def session_switchSummaryHandlers_def on_session_def Let_def swap_summary_def)

text \<open>
  For a session that would be at work with the waiting routine swapped in, it makes no difference
  whether that has been done: the first item does it.
\<close>

lemma process_item_swapped:
  assumes s: "serving gs f h (swap_summary (r_session r))"
  shows "process_item X (hotRoutR (r_session r)) x st (on_session swap_summary r) =
     process_item X (hotRoutR (r_session r)) x st r"
proof -
  let ?s = "r_session r" and ?s1 = "on_queue tq_unoccupy (r_session r)"
  have q: "on_queue tq_unoccupy (swap_summary ?s) = swap_summary ?s1"
    by (simp add: on_queue_def swap_summary_updates split: list.split)
  have f: "s_cblk ?s1 = s_cblk ?s" "runprioML ?s1 = runprioML ?s" "s_autodelete ?s1 = s_autodelete ?s"
    "routinesHnds ?s1 = routinesHnds ?s" by (simp_all add: on_queue_def split: list.split)
  obtain w where run: "run_routines (runprioML ?s) (s_autodelete ?s) (session_sid ?s1)
      (routinesHnds ?s ! unat (hotRoutR ?s)) \<lparr>w_r0 = x, w_result = x, w_cb = s_cblk ?s, w_gc = r_gc r\<rparr> =
      Ret (False, w)" and cb: "w_cb w = s_cblk ?s"
    using s run_routines_pure [of "\<lparr>w_r0 = x, w_result = x, w_cb = s_cblk ?s, w_gc = r_gc r\<rparr>"
        "s_autodelete ?s" "session_sid ?s1" gs]
    by (auto simp: serving_def)
  define r1 where "r1 = r\<lparr>r_session := ?s1\<lparr>s_cblk := w_cb w\<rparr>, r_gc := w_gc w\<rparr>"
  have r1: "r_session r1 = ?s1\<lparr>s_cblk := w_cb w\<rparr>" by (simp add: r1_def)
  have start: "(on_session swap_summary r)\<lparr>r_session := (swap_summary ?s1)\<lparr>s_cblk := w_cb w\<rparr>, r_gc := w_gc w\<rparr> =
      on_session swap_summary r1"
    by (simp add: r1_def on_session_def swap_summary_updates)
  have nc: "\<not> cancel_requested (r_session r1)"
    using serving_not_cancelled [OF s] f(1) cb
    by (simp add: r1 cancel_requested_def session_cancellationRequestedByCallback_def
        session_cancellationRequestedByStarter_def)
  have fl: "flush_if_requested p r1 = Ret (p, r1)"
    "flush_if_requested p (on_session swap_summary r1) = Ret (p, on_session swap_summary r1)" for p
    using s f(1) cb by (simp_all add: flush_if_requested_def r1 serving_def cb_flushRequested_def on_session_def)
  have pre: "r_session (on_session swap_summary r) = swap_summary ?s" "r_gc (on_session swap_summary r) = r_gc r"
    "r_session (on_session swap_summary r1) = swap_summary (r_session r1)"
    by (simp_all add: on_session_def)
  show ?thesis
    unfolding process_item_def Let_def pre q swap_summary_fields f run obind.simps prod.case
      start [symmetric] if_False
    unfolding start r1_def [symmetric] pre swap_summary_fields if_not_P [OF nc] fl obind.simps prod.case
      summarise_swapped
    ..
qed

lemma select_turn_swapped:
  assumes s: "serving gs f h (swap_summary (r_session r))" and free: "\<not> occupied_by_other ii h"
    and d: "hyb_data h \<noteq> []"
  shows "select_turn X occ ii (on_session swap_summary r) = select_turn X occ ii r"
proof -
  let ?s = "r_session r"
  obtain x xs where d: "hyb_data h = x # xs" using d by (cases "hyb_data h") auto
  have inv: "hyb_inv h" "dataQueues ?s = [h]" using s by (simp_all add: serving_def)
  from hyb_pullAndOccupy_cons [OF inv(1) free d, of new_qstat] obtain i h1 st where
    p: "hyb_pullAndOccupyWithId ii new_qstat h = Ret ((x, i, st), h1)" "qs_validrv st" "hyb_inv h1"
    by auto
  have nc: "\<not> cancel_requested ?s" using serving_not_cancelled [OF s] by simp
  have t: "select_turn X occ ii q = process_item X (hotRoutR (r_session q)) x st
      (q\<lparr>r_session := (r_session q)\<lparr>dataQueues := [h1]\<rparr>\<rparr>)"
    if "\<not> cancel_requested (r_session q)" "\<not> cb_flushed (s_cblk (r_session q))"
      "\<not> routinesHndReload (r_session q)" "dataQueues (r_session q) = [h]" for q :: "('a, 'b) run"
    using that p(1,2)
    by (simp add: select_turn_def cb_flushRequested_def session_switchRoutinesHandlers_def Let_def)
  let ?q = "r\<lparr>r_session := ?s\<lparr>dataQueues := [h1]\<rparr>\<rparr>"
  have "serving gs f h1 (swap_summary (r_session ?q))"
    using s p(3) by (simp add: serving_def swap_summary_updates)
  from process_item_swapped [OF this, of X x st] have
    "process_item X (hotRoutR ?s) x st (on_session swap_summary ?q) = process_item X (hotRoutR ?s) x st ?q"
    by simp
  moreover have "on_session swap_summary ?q = (on_session swap_summary r)
      \<lparr>r_session := (r_session (on_session swap_summary r))\<lparr>dataQueues := [h1]\<rparr>\<rparr>"
    by (simp add: on_session_def swap_summary_updates)
  ultimately show ?thesis
    using s nc inv(2) t [of r] t [of "on_session swap_summary r"]
    by (simp add: serving_def on_session_def)
qed

lemma adopt_swapped:
  "session_adoptDataFromZeroQueue (swap_summary s) = swap_summary (session_adoptDataFromZeroQueue s)"
  by (simp add: session_adoptDataFromZeroQueue_def Let_def swap_summary_updates)

lemma adopt_fields:
  "dataQueues (session_adoptDataFromZeroQueue s) = dataQueues s"
  "s_isStopped (session_adoptDataFromZeroQueue s) = s_isStopped s"
  "excond (session_adoptDataFromZeroQueue s) = excond s"
  "cancel_requested (session_adoptDataFromZeroQueue s) = cancel_requested s"
  by (simp_all add: session_adoptDataFromZeroQueue_def Let_def cancel_requested_def
      session_cancellationRequestedByCallback_def session_cancellationRequestedByStarter_def)

text \<open>The head of \<open>select\<close> for a session without an expiration condition.\<close>

lemma select_head_quiet:
  assumes "\<not> s_paused (r_session r)" and "\<not> s_isStopped (r_session r)"
    and "\<not> cancel_requested (r_session r)" and "excond (r_session r) = None"
  shows "select_head X r = Ret (None, on_session session_adoptDataFromZeroQueue r)"
  using assms by (simp add: select_head_def Let_def adopt_fields check_expiration_def on_session_def)

lemma select_swapped:
  assumes s: "serving gs f h (swap_summary (r_session r))" and free: "\<not> occupied_by_other ii h"
    and d: "hyb_data h \<noteq> []" and run: "\<not> s_paused (r_session r)" "\<not> s_isStopped (r_session r)"
  shows "composing_select fuel X occ ii (on_session swap_summary r) = composing_select fuel X occ ii r"
proof -
  let ?a = "on_session session_adoptDataFromZeroQueue"
  have nc: "\<not> cancel_requested (r_session r)" "excond (r_session r) = None"
    using serving_not_cancelled [OF s] s by (simp_all add: serving_def)
  have head: "select_head X r = Ret (None, ?a r)"
    "select_head X (on_session swap_summary r) = Ret (None, on_session swap_summary (?a r))"
    using run nc select_head_quiet [of r X] select_head_quiet [of "on_session swap_summary r" X]
    by (simp_all add: on_session_def adopt_swapped)
  have "serving gs f h (swap_summary (r_session (?a r)))"
    using s by (simp add: on_session_def session_adoptDataFromZeroQueue_def Let_def swap_summary_updates serving_def)
  from select_turn_swapped [OF this free d]
  have "select_loop fuel X occ ii (on_session swap_summary (?a r)) = select_loop fuel X occ ii (?a r)"
    by (cases fuel) simp_all
  with head show ?thesis by (simp add: composing_select_def)
qed

section \<open>The first call\<close>

text \<open>A session as it is created: both handlers wait, there is no queue.\<close>

definition starting ::
  "('p option \<Rightarrow> 'p option) list \<Rightarrow> ('p option \<Rightarrow> 'p option) \<Rightarrow> ('p, 'x) csession \<Rightarrow> bool" where
  "starting gs f s \<longleftrightarrow>
     \<not> abortByCallback (s_cblk s) \<and> \<not> abortByCaller (s_cblk s) \<and> \<not> cb_flushed (s_cblk s) \<and>
     \<not> s_paused s \<and> \<not> s_isStopped s \<and> excond s = None \<and> runprioML s = AFK_RUN_LAMBDA_ONLY \<and>
     dataQueues s = [] \<and> session_slots_ok s \<and>
     routinesHndReload s \<and> routinesHnds s ! unat (hotRoutW s) = map lambda_unit gs \<and> gs \<noteq> [] \<and>
     sumHndReload s \<and> sumHnds s ! unat (hotSumW s) = Some (pure_routine f)"

lemma new_hyb_pull:
  fixes occ mode
  defines "h \<equiv> new_hyb occ mode"
  assumes "\<not> occupied_by_other i h"
  shows "hyb_pullAndOccupyWithId i new_qstat h =
     Ret ((None, - 1, new_qstat\<lparr>qs_empty := True, qs_endbatch := True\<rparr>), h)"
proof -
  have m: "qmapper h = []" "h\<lparr>lastItem := ASFK_E_QSPEC_NONE\<rparr> = h"
    by (simp_all add: h_def new_hyb_def tqueue.extend_def)
  with assms(2) show ?thesis by (simp add: hyb_pullAndOccupyWithId_def Let_def new_qstat_def)
qed

lemma new_hyb_ready:
  "sint occ < 0 \<Longrightarrow> hyb_open (new_hyb occ mode)" "n < 2 ^ 63 \<Longrightarrow> hyb_room n (new_hyb occ mode)"
  "occupant (new_hyb occ mode) = occ"
proof -
  show occ: "occupant (new_hyb occ mode) = occ"
    by (simp add: new_hyb_def tqueue.extend_def new_tqueue_def queue.extend_def)
  show "sint occ < 0 \<Longrightarrow> hyb_open (new_hyb occ mode)" by (simp add: hyb_open_def hyb_inv_new occ)
  show "n < 2 ^ 63 \<Longrightarrow> hyb_room n (new_hyb occ mode)"
    by (simp add: hyb_room_def bq_room_def bq_items_def new_hyb_def tqueue.extend_def new_bqueue_def
        bq_reset_state_def bq_clearRelaxQ_def bq_contents_def new_wrap_bq_def)
qed

lemma starting_switch:
  assumes "starting gs f s"
  obtains i k where "session_switchRoutinesHandlers s =
      ((True, i), s\<lparr>hotRoutW := k, hotRoutR := i, routinesHndReload := False\<rparr>)"
    and "routinesHnds s ! unat i = map lambda_unit gs"
proof -
  from assms have s: "session_slots_ok s" "routinesHndReload s"
    "routinesHnds s ! unat (hotRoutW s) = map lambda_unit gs"
    by (simp_all add: starting_def)
  show thesis
    by (rule that [of "(hotRoutR s + 1) mod 2" "(hotRoutW s + 1) mod 2"])
      (use s in \<open>auto simp: session_switchRoutinesHandlers_def Let_def session_slots_ok_def slots_ok_def\<close>)
qed

lemma starting_summary: "starting gs f s \<Longrightarrow>
    sumHnds (swap_summary s) ! unat (hotSumR (swap_summary s)) = Some (pure_routine f) \<and>
    \<not> sumHndReload (swap_summary s)"
  by (auto simp: starting_def swap_summary_def session_switchSummaryHandlers_def Let_def
      session_slots_ok_def slots_ok_def)

text \<open>The first \<open>select\<close> builds the queue, calls nothing and leaves the session ready for data.\<close>

lemma first_select:
  fixes r :: "('p, 'x) run"
  assumes s: "starting gs f (r_session r)" and occ: "sint occ < 0" and fuel: "0 < fuel"
  obtains s' where "composing_select fuel X occ ii r = Some (Ret (eAFK_ES_HAS_NONE, r\<lparr>r_session := s'\<rparr>))"
    and "serving gs f (new_hyb occ (callMode (r_session r))) (swap_summary s')"
    and "\<not> s_paused s'" and "\<not> s_isStopped s'" and "s_cblk s' = s_cblk (r_session r)"
    and "s_autodelete s' = s_autodelete (r_session r)"
proof -
  let ?s = "r_session r" and ?h = "new_hyb occ (callMode (r_session r)) :: 'p hyb"
  have nc: "\<not> cancel_requested ?s"
    using s by (simp add: starting_def cancel_requested_def session_cancellationRequestedByCallback_def
        session_cancellationRequestedByStarter_def cb_defs)
  have "session_adoptDataFromZeroQueue ?s = ?s"
    using s by (simp add: session_adoptDataFromZeroQueue_def starting_def)
  then have head: "select_head X r = Ret (None, r)"
    using s nc select_head_quiet [of r X] by (simp add: starting_def on_session_def)
  obtain i k where sw: "session_switchRoutinesHandlers ?s =
      ((True, i), ?s\<lparr>hotRoutW := k, hotRoutR := i, routinesHndReload := False\<rparr>)" (is "_ = (_, ?s1)")
    and rts: "routinesHnds ?s ! unat i = map lambda_unit gs"
    by (rule starting_switch [OF s])
  define s' where "s' = ?s1\<lparr>dataQueues := [?h], s_pq := []\<rparr>"
  have rc: "obind (composing_reconfigureDataqueues occ ?s1) (\<lambda>s. Ret (session_resetPriorityQueue s)) = Ret s'"
    using s rts
    by (simp add: composing_reconfigureDataqueues_def session_resetPriorityQueue_def s'_def starting_def)
  have free: "\<not> occupied_by_other ii ?h" using occ by (simp add: occupied_by_other_def new_hyb_ready)
  have q: "dataQueues s' = [?h]" "s'\<lparr>dataQueues := [?h]\<rparr> = s'" by (simp_all add: s'_def)
  have fl: "\<not> cb_flushRequested (s_cblk ?s)" using s by (simp add: starting_def cb_flushRequested_def)
  have turn: "select_turn X occ ii r = Ret (Some eAFK_ES_HAS_NONE, r\<lparr>r_session := s'\<rparr>)"
    unfolding select_turn_def if_not_P [OF nc] if_not_P [OF fl] obind.simps sw prod.case if_P [OF TrueI] rc
    using new_hyb_pull [OF free] q by (simp add: new_qstat_def)
  have sel: "composing_select fuel X occ ii r = Some (Ret (eAFK_ES_HAS_NONE, r\<lparr>r_session := s'\<rparr>))"
    using fuel by (cases fuel) (simp_all add: composing_select_def head turn)
  have "sumHnds (swap_summary s') ! unat (hotSumR (swap_summary s')) = Some (pure_routine f)"
    "\<not> sumHndReload (swap_summary s')"
    using starting_summary [OF s]
    by (simp_all add: s'_def swap_summary_def session_switchSummaryHandlers_def Let_def split: if_splits)
  with s rts have "serving gs f ?h (swap_summary s')"
    by (simp add: serving_def hyb_inv_new q(1)) (simp add: s'_def starting_def)
  then show thesis
    by (rule that [OF sel]) (use s in \<open>simp_all add: s'_def starting_def\<close>)
qed

section \<open>The first data\<close>

text \<open>
  The data posted after the first \<open>select\<close>: the second one hands them to the summary routine, which
  the first item swaps in.
\<close>

lemma first_data:
  assumes s: "serving gs f h (swap_summary (r_session r))" and h: "hyb_open h" "hyb_room (length ps) h"
    and run: "\<not> s_paused (r_session r)" "\<not> s_isStopped (r_session r)" and ne: "ps \<noteq> []"
    and fuel: "length (hyb_contents h @ ps) < fuel"
  shows "\<exists>r'. composing_select fuel X occ ii (on_session (post_all ps) r) =
       Some (Ret (eAFK_ES_HAS_NONE, r')) \<and>
     r_events r' = r_events r @
       map (\<lambda>p. Summary_called (composed (s_autodelete (r_session r)) gs (Some p))) (hyb_contents h @ ps)"
proof -
  obtain h' where h': "post_all ps (swap_summary (r_session r)) = (swap_summary (r_session r))\<lparr>dataQueues := [h']\<rparr>"
    "serving gs f h' ((swap_summary (r_session r))\<lparr>dataQueues := [h']\<rparr>)"
    "\<forall>ii. \<not> occupied_by_other ii h'" "hyb_data h' = map Some (hyb_contents h @ ps)"
    by (rule post_all_serving [OF s h])
  have q: "dataQueues (r_session r) = [h]" "\<not> cb_flushed (s_cblk (r_session r))"
    using s by (simp_all add: serving_def)
  have qs: "dataQueues (swap_summary (r_session r)) = [h]" "\<not> cb_flushed (s_cblk (swap_summary (r_session r)))"
    using q by simp_all
  have "[h'] = dataQueues (post_all ps (swap_summary (r_session r)))" using h'(1) by simp
  also have "\<dots> = dataQueues (post_all ps (r_session r))"
    by (simp add: post_all_queue [OF q] post_all_queue [OF qs])
  finally have p: "post_all ps (r_session r) = (r_session r)\<lparr>dataQueues := [h']\<rparr>"
    by (simp add: post_all_queue [OF q])
  let ?r = "r\<lparr>r_session := (r_session r)\<lparr>dataQueues := [h']\<rparr>\<rparr>"
  have r: "on_session (post_all ps) r = ?r" by (simp add: on_session_def p)
  have s': "serving gs f h' (swap_summary (r_session ?r))" using h'(2) by (simp add: swap_summary_updates)
  have ne': "hyb_data h' \<noteq> []" using h'(4) ne by simp
  have "composing_select fuel X occ ii ?r = composing_select fuel X occ ii (on_session swap_summary ?r)"
    by (rule select_swapped [OF s' _ ne', symmetric]) (use run h'(3) in simp_all)
  moreover have "serving gs f h' (r_session (on_session swap_summary ?r))" using s' by (simp add: on_session_def)
  from select_serves [OF this h'(3) [rule_format]] run fuel h'(4) obtain r' where
    "composing_select fuel X occ ii (on_session swap_summary ?r) = Some (Ret (eAFK_ES_HAS_NONE, r'))"
    "r_events r' = r_events r @
       map (\<lambda>p. Summary_called (composed (s_autodelete (r_session r)) gs (Some p))) (hyb_contents h @ ps)"
    by (fastforce simp: processed_def on_session_def o_def)
  ultimately show ?thesis by (auto simp: r)
qed

end
