(* ===== verification/SessionFlush.thy ===== *)
theory SessionFlush
  imports ComposingSession_Data
begin

text \<open>
  A flush request that a routine makes through the control block while the session works on an item.
  What waits in the queue goes to the collector; the item itself goes on to the summary routine.
\<close>

lemma on_queue_unoccupy_session:
  "s_cblk (on_queue tq_unoccupy s) = s_cblk s" "s_autodelete (on_queue tq_unoccupy s) = s_autodelete s"
  "busyCount (on_queue tq_unoccupy s) = busyCount s" "sumHnds (on_queue tq_unoccupy s) = sumHnds s"
  "hotSumR (on_queue tq_unoccupy s) = hotSumR s" "sumHndReload (on_queue tq_unoccupy s) = sumHndReload s"
  "excond (on_queue tq_unoccupy s) = excond s" "queueZero (on_queue tq_unoccupy s) = queueZero s"
  "map hyb_data (dataQueues (on_queue tq_unoccupy s)) = map hyb_data (dataQueues s)"
  by (simp_all add: on_queue_def split: list.split)

lemma drainable_unoccupy:
  "drainable_session s \<Longrightarrow> drainable_session (on_queue tq_unoccupy s)"
  "pending_data (on_queue tq_unoccupy s) = pending_data s"
  by (auto simp: drainable_session_def pending_data_def on_queue_def hyb_open_def hyb_contents_def split: list.splits)

lemma drainable_cblk [simp]:
  "drainable_session (s\<lparr>s_cblk := cb\<rparr>) = drainable_session s" "pending_data (s\<lparr>s_cblk := cb\<rparr>) = pending_data s"
  by (simp_all add: drainable_session_def pending_data_def)

lemmas item_end_defs = on_session_def summarise_def Let_def pure_routine_def session_switchSummaryHandlers_def
  on_queue_unoccupy_session log_event_def dispose_result_def cb_set_flushRequested_def

text \<open>The part after the routines, when the flag is up.\<close>

lemma flush_requested:
  assumes fl: "cb_flushed (s_cblk (r_session r))" and d: "drainable_session (r_session r)"
  obtains q0 hs n where "flush_if_requested p r = Ret (if s_autodelete (r_session r) then None else p,
      r\<lparr>r_session := (on_queue tq_unoccupy (r_session r))\<lparr>queueZero := q0, dataQueues := hs, busyCount := n,
          s_cblk := cb_set_flushRequested False (s_cblk (r_session r))\<rparr>,
        r_gc := discard (s_autodelete (r_session r)) (pending_data (r_session r)) (r_gc (dispose_result p r))\<rparr>)"
    and "tq_contents q0 = []" and "\<forall>h \<in> set hs. hyb_data h = []"
    and "n = busyCount (r_session r) - word_of_nat (length (concat (map hyb_data (dataQueues (r_session r)))))"
proof -
  let ?s = "r_session r" and ?g = "r_gc (dispose_result p r)"
  have s: "r_session (dispose_result p r) = ?s" by (simp add: dispose_result_def)
  from flush_locked_empties [OF drainable_unoccupy(1) [OF d], of ?g] obtain q0 hs where
    f: "composing_flush_locked (on_queue tq_unoccupy ?s) ?g =
      Some ((on_queue tq_unoccupy ?s)\<lparr>queueZero := q0, dataQueues := hs,
              busyCount := busyCount ?s - word_of_nat (length (concat (map hyb_contents (dataQueues (on_queue tq_unoccupy ?s))))),
              s_cblk := cb_set_flushRequested False (s_cblk ?s)\<rparr>,
            discard (s_autodelete ?s) (pending_data ?s) ?g)"
    "tq_contents q0 = []" "\<forall>h \<in> set hs. hyb_data h = []"
    by (auto simp: on_queue_unoccupy_session drainable_unoccupy)
  have len: "length (concat (map hyb_contents (dataQueues (on_queue tq_unoccupy ?s)))) =
      length (concat (map hyb_data (dataQueues ?s)))"
    by (simp add: length_concat hyb_contents_def comp_def on_queue_def split: list.split)
  have upd: "(dispose_result p r)\<lparr>r_session := a, r_gc := b\<rparr> = r\<lparr>r_session := a, r_gc := b\<rparr>" for a b
    by (simp add: dispose_result_def)
  show thesis
    by (rule that [OF _ f(2,3) refl])
      (use fl in \<open>simp add: flush_if_requested_def cb_flushRequested_def run_flush_def returns_def Let_def
        on_session_def s f(1) len upd\<close>)
qed



end
