(* ===== verification/ItemSteps.thy ===== *)
theory ItemSteps
  imports ComposingSession_Correct
begin

text \<open>
  The way of one item through \<open>select\<close>, once more, cut at every point where the worker holds no
  lock: before and after each call of a routine, at the test of the flush request, before the
  summary routine and before the closing checks. Undisturbed steps are \<open>process_item\<close>; ItemUsers has
  the calls of users between them.
\<close>

section \<open>The steps\<close>

text \<open>
  Where the worker is: with the number of routines called, the argument \<open>r0\<close> of the next one and
  the \<open>result\<close> of the last. The code iterates over the vector in the slot of the session, so that the unit
  is looked up when it is called.
\<close>

datatype 'p item_pc =
    Begin "'p option"
  | Call nat "'p option" "'p option"
  | Called nat "'p option" "'p option"
  | Loop_left "'p option"
  | Flush_test "'p option"
  | Summing "'p option"
  | Closing
  | Item_done "exec_status option"

fun item_step ::
  "'x expcond \<Rightarrow> u64 \<Rightarrow> qstat \<Rightarrow> 'p item_pc \<times> ('p, 'x) run \<Rightarrow> ('p item_pc \<times> ('p, 'x) run) outcome" where
  "item_step X indR st (Begin item, r) = Ret (Call 0 item item, on_session (on_queue tq_unoccupy) r)"
| "item_step X indR st (Call k r0 res, r) =
     (let s = r_session r; us = routinesHnds s ! unat indR
      in if k < length us
         then obind (run_unit (runprioML s) (s_autodelete s) (session_sid s) (us ! k)
                       \<lparr>w_r0 = r0, w_result = res, w_cb = s_cblk s, w_gc = r_gc r\<rparr>)
                (\<lambda>w. Ret (Called (Suc k) (w_r0 w) (w_result w),
                          r\<lparr>r_session := s\<lparr>s_cblk := w_cb w\<rparr>, r_gc := w_gc w\<rparr>))
         else Ret (Loop_left res, r))"
| "item_step X indR st (Called k r0 res, r) =
     (if cancel_requested (r_session r)
      then obind (cancel_path call_cancel_handler (dispose_result res r))
             (\<lambda>r2. Ret (Item_done (Some eAFK_ES_WAS_CANCELLED), on_session (\<lambda>s. s\<lparr>busyCount := 0\<rparr>) r2))
      else Ret (Call k r0 res, r))"
| "item_step X indR st (Loop_left res, r) =
     (if cancel_requested (r_session r)
      then obind (cancel_path (\<lambda>h r. call_cancel_handler h (composing_invokeCancellationHandler h r))
                    (on_session (\<lambda>s. on_queue tq_unoccupy (session_resetPriorityQueue s)) (dispose_result res r)))
             (\<lambda>r2. Ret (Item_done (Some eAFK_ES_HAS_NONE), r2))
      else Ret (Flush_test res, r))"
| "item_step X indR st (Flush_test res, r) =
     obind (flush_if_requested res r) (\<lambda>(res', r'). Ret (Summing res', r'))"
| "item_step X indR st (Summing res, r) = Ret (Closing, summarise res r)"
| "item_step X indR st (Closing, r) =
     (let r3 = on_session (\<lambda>s. s\<lparr>busyCount := busyCount s - 1\<rparr>) r;
          r4 = (if qs_endbatch st \<and> qs_called st then on_session (on_queue hyb_releaseBlocked) r3 else r3)
      in case check_expiration someConditionsMet X (r_session r4) of
           (met, s5) \<Rightarrow>
             if met
             then obind (expire_path (r4\<lparr>r_session := s5\<rparr>)) (\<lambda>r6. Ret (Item_done (Some eAFK_ES_HAS_NONE), r6))
             else Ret (Item_done None, r4\<lparr>r_session := s5\<rparr>))"
| "item_step X indR st (Item_done b, r) = Ret (Item_done b, r)"

fun item_steps ::
  "nat \<Rightarrow> 'x expcond \<Rightarrow> u64 \<Rightarrow> qstat \<Rightarrow> 'p item_pc \<times> ('p, 'x) run \<Rightarrow> ('p item_pc \<times> ('p, 'x) run) outcome" where
  "item_steps 0 X indR st S = Ret S"
| "item_steps (Suc n) X indR st S = obind (item_step X indR st S) (item_steps n X indR st)"

section \<open>Undisturbed steps\<close>

lemma item_steps_done [simp]: "item_steps n X indR st (Item_done b, r) = Ret (Item_done b, r)"
  by (induction n) simp_all

text \<open>What \<open>process_item\<close> does after the loop over the routines.\<close>

definition after_routines ::
  "'x expcond \<Rightarrow> qstat \<Rightarrow> ('p, 'x) run \<Rightarrow> bool \<times> 'p work \<Rightarrow> (exec_status option \<times> ('p, 'x) run) outcome" where
  "after_routines X st r = (\<lambda>(stopped, w).
     (let r1 = r\<lparr>r_session := (r_session r)\<lparr>s_cblk := w_cb w\<rparr>, r_gc := w_gc w\<rparr>
      in if stopped
         then obind (cancel_path call_cancel_handler (dispose_result (w_result w) r1))
                (\<lambda>r2. Ret (Some eAFK_ES_WAS_CANCELLED, on_session (\<lambda>s. s\<lparr>busyCount := 0\<rparr>) r2))
         else if cancel_requested (r_session r1)
           then obind (cancel_path (\<lambda>h r. call_cancel_handler h (composing_invokeCancellationHandler h r))
                         (on_session (\<lambda>s. on_queue tq_unoccupy (session_resetPriorityQueue s))
                            (dispose_result (w_result w) r1)))
                  (\<lambda>r2. Ret (Some eAFK_ES_HAS_NONE, r2))
         else obind (flush_if_requested (w_result w) r1) (\<lambda>(result, r2).
           (let r3 = on_session (\<lambda>s. s\<lparr>busyCount := busyCount s - 1\<rparr>) (summarise result r2);
                r4 = (if qs_endbatch st \<and> qs_called st then on_session (on_queue hyb_releaseBlocked) r3 else r3)
            in case check_expiration someConditionsMet X (r_session r4) of
                 (met, s5) \<Rightarrow>
                   if met
                   then obind (expire_path (r4\<lparr>r_session := s5\<rparr>)) (\<lambda>r6. Ret (Some eAFK_ES_HAS_NONE, r6))
                   else Ret (None, r4\<lparr>r_session := s5\<rparr>)))))"

definition item_ended :: "exec_status option \<times> ('p, 'x) run \<Rightarrow> ('p item_pc \<times> ('p, 'x) run) outcome" where
  "item_ended = (\<lambda>(b, r). Ret (Item_done b, r))"

lemma process_item_split:
  "process_item X indR item st r =
     (let r0 = on_session (on_queue tq_unoccupy) r; s = r_session r0
      in obind (run_routines (runprioML s) (s_autodelete s) (session_sid s) (routinesHnds s ! unat indR)
                  \<lparr>w_r0 = item, w_result = item, w_cb = s_cblk s, w_gc = r_gc r\<rparr>)
           (after_routines X st r0))"
  by (auto simp: process_item_def after_routines_def Let_def on_session_def
      intro!: arg_cong [where f = "obind _"] ext)

text \<open>The steps after the loop.\<close>

lemma steps_after_loop:
  assumes "4 \<le> n"
  shows "item_steps n X indR st (Loop_left (w_result w), r\<lparr>r_session := (r_session r)\<lparr>s_cblk := w_cb w\<rparr>, r_gc := w_gc w\<rparr>) =
     obind (after_routines X st r (False, w)) item_ended"
proof -
  from assms obtain m where m: "n = Suc (Suc (Suc (Suc m)))"
    by (auto simp: numeral_eq_Suc le_iff_add)
  show ?thesis
    unfolding m after_routines_def item_ended_def
    by (auto simp: obind_assoc Let_def split: prod.split intro!: arg_cong [where f = "obind _"] ext)
qed

text \<open>Routines know the control block through its class, which has no setter for the identifier.\<close>

definition keeps_id :: "'p exec_unit \<Rightarrow> bool" where
  "keeps_id u \<longleftrightarrow> (\<forall>f. runL u = Some f \<longrightarrow>
     (\<forall>x cb i. cb_getSessionId (snd (f x cb i)) = cb_getSessionId cb))"

lemma run_unit_id:
  assumes "keeps_id u" and "run_unit prio ad sid u w = Ret w'"
  shows "cb_getSessionId (w_cb w') = cb_getSessionId (w_cb w)"
proof -
  have c: "cb_getSessionId (w_cb (call_routine ad sid f w)) = cb_getSessionId (w_cb w)"
    if "\<forall>x cb i. cb_getSessionId (snd (f x cb i)) = cb_getSessionId cb" for f :: "'a routine" and w
    using that by (auto simp: call_routine_def Let_def split: prod.split) (metis snd_conv)+
  have m: "\<forall>x cb i. cb_getSessionId (snd (runM u x cb i)) = cb_getSessionId cb" by (simp add: runM_def)
  show ?thesis
    using assms c [OF m]
    by (cases prio) (auto simp: call_lambda_def call_method_def keeps_id_def c split: option.splits)
qed

lemma work_eta [simp]: "\<lparr>w_r0 = w_r0 w, w_result = w_result w, w_cb = w_cb w, w_gc = w_gc w\<rparr> = w"
  by (cases w) simp

text \<open>The loop itself, from the unit at position \<open>k\<close>.\<close>

lemma steps_in_loop:
  fixes r :: "('p, 'x) run"
  fixes indR defines "us \<equiv> routinesHnds (r_session r) ! unat indR"
  assumes "list_all keeps_id us" and "us = done @ rest" and "2 * length rest + 5 \<le> n"
  shows "item_steps n X indR st (Call (length done) (w_r0 w) (w_result w),
       r\<lparr>r_session := (r_session r)\<lparr>s_cblk := w_cb w\<rparr>, r_gc := w_gc w\<rparr>) =
     obind (obind (run_routines (runprioML (r_session r)) (s_autodelete (r_session r)) (cb_getSessionId (w_cb w))
              rest w) (after_routines X st r)) item_ended"
  using assms(2-)
proof (induction rest arbitrary: "done" n w)
  case Nil
  then obtain m where m: "n = Suc m" "4 \<le> m" by (cases n) auto
  show ?case
    using Nil(2) steps_after_loop [OF m(2), of X indR st w r] unfolding m(1)
    by (simp add: us_def [symmetric])
next
  case (Cons u rest)
  then obtain m where m: "n = Suc (Suc m)" "2 * length rest + 5 \<le> m" by (cases n; cases "n - 1") auto
  have u: "us ! length done = u" "length done < length us" "keeps_id u" using Cons.prems by simp_all
  show ?case
  proof (cases "run_unit (runprioML (r_session r)) (s_autodelete (r_session r)) (cb_getSessionId (w_cb w)) u w")
    case (Ret w1)
    have step: "item_steps n X indR st (Call (length done) (w_r0 w) (w_result w),
        r\<lparr>r_session := (r_session r)\<lparr>s_cblk := w_cb w\<rparr>, r_gc := w_gc w\<rparr>) =
      item_steps (Suc m) X indR st (Called (Suc (length done)) (w_r0 w1) (w_result w1),
        r\<lparr>r_session := (r_session r)\<lparr>s_cblk := w_cb w1\<rparr>, r_gc := w_gc w1\<rparr>)"
      using u(1,2) Ret unfolding m(1) us_def by (simp add: Let_def session_sid_def)
    show ?thesis
    proof (cases "cb_cancellationRequestedByCallback (w_cb w1) \<or> cb_cancellationRequestedByStarter (w_cb w1)")
      case True
      then have "cancel_requested ((r_session r)\<lparr>s_cblk := w_cb w1\<rparr>)"
        by (simp add: cancel_requested_def session_cancellationRequestedByCallback_def
            session_cancellationRequestedByStarter_def)
      with True Ret show ?thesis
        unfolding step by (simp add: after_routines_def Let_def obind_assoc item_ended_def)
    next
      case False
      then have "\<not> cancel_requested ((r_session r)\<lparr>s_cblk := w_cb w1\<rparr>)"
        by (simp add: cancel_requested_def session_cancellationRequestedByCallback_def
            session_cancellationRequestedByStarter_def)
      moreover have "cb_getSessionId (w_cb w1) = cb_getSessionId (w_cb w)" by (rule run_unit_id [OF u(3) Ret])
      ultimately show ?thesis
        using False Ret Cons.IH [of "done @ [u]" m w1] Cons.prems m(2) unfolding step by simp
    qed
  qed (use u(1,2) m(1) in \<open>simp_all add: us_def Let_def session_sid_def\<close>)
qed



end
