(* ===== verification/Threadpool.thy ===== *)
theory Threadpool
  imports ComposingSession Scheduler
begin

text \<open>
  \<open>CPPAFKThreadpool\<close> and \<open>CPPAFKThreadpoolState\<close> (CPPAFKThreadpool.hpp, CPPAFKThreadpool.cpp):
  the sessions of the pool, the calls of its users and the loop of its worker threads.

  Sessions live in a heap: \<open>tp_heap\<close> maps an address to a session, or to \<open>None\<close> if nothing is
  allocated there (any more); \<open>tp_next\<close> is the address the next \<open>new\<close> returns. Every use of an
  address without a session is a fault. \<open>allSessions\<close>, an \<open>unordered_map\<close>, is an association
  list: its order is the order of iteration, which C++ leaves open and no theorem depends on. Its
  key is \<open>num64\<close> of the identifier, which determines the identifier.

  A user's call holds \<open>lkMutex1\<close> throughout, and so does a worker's choice of a session: each is
  one step. The worker's loop is cut where it holds no lock.
\<close>

section \<open>State\<close>

record ('p, 'x) pool = sched +
  onlineSessions :: "session_ptr list"
  allSessions :: "(num_id \<times> session_ptr) list"
  tp_gc :: "'p gc"
  shutdownCont :: u16
  toShutdown :: bool
  shutdownComplete :: bool
  countPaused :: i64
  tp_heap :: "session_ptr \<Rightarrow> ('p, 'x) csession option"
  tp_next :: session_ptr
  tp_events :: "'p event list"

definition new_sched :: "sched" where
  "new_sched = \<lparr>tpcfg = \<lparr>tp_share = 0, tp_residue = 0, actualThreadsCount = 0, requiredThreadsCount = 0\<rparr>,
     vectProc2Bounds = [], numCPUs = 1\<rparr>"

definition new_state :: "('p, 'x) pool" where
  "new_state = sched.extend new_sched
     \<lparr>onlineSessions = [], allSessions = [], tp_gc = new_gc, shutdownCont = 0, toShutdown = False,
      shutdownComplete = False, countPaused = 0, tp_heap = (\<lambda>_. None), tp_next = 0, tp_events = []\<rparr>"

text \<open>The constructor: every thread started adds one to \<open>shutdownCont\<close>.\<close>

definition new_pool :: "u64 \<Rightarrow> (nat \<times> ('p, 'x) pool) outcome" where
  "new_pool hardware_concurrency =
     obind (pool_createThreads hardware_concurrency (- 1) new_state) (\<lambda>(n, P).
       Ret (n, P\<lparr>shutdownCont := shutdownCont P + word_of_nat n\<rparr>))"

record ('p, 'x) session_params =
  sp_sessionName :: string
  sp_blockCallMode :: blocking_mode
  sp_routines :: "'p exec_unit list"
  sp_rpML :: run_prio_ML
  sp_rpDOR :: run_prio_DOR
  sp_autodelete :: bool
  sp_summaryRoutine :: "'p routine option"
  sp_progressRoutine :: "handle option"
  sp_cancellationRoutine :: "handle option"
  sp_expSummary :: "handle option"
  sp_expCondition :: "'x option"

text \<open>
  What the constructors set; \<open>CPPAFKSessionConfigParams\<close> has a second \<open>routines\<close> member, which is
  the one that counts.
\<close>

definition new_session_params :: "('p, 'x) session_params" where
  "new_session_params = \<lparr>sp_sessionName = [], sp_blockCallMode = AFK_BC_NO_BLOCK, sp_routines = [],
     sp_rpML = AFK_RUN_LAMBDA_ONLY, sp_rpDOR = AFK_RUNR_STORED_ROUTINE_ONLY, sp_autodelete = False,
     sp_summaryRoutine = None, sp_progressRoutine = None, sp_cancellationRoutine = None,
     sp_expSummary = None, sp_expCondition = None\<rparr>"

section \<open>Looking sessions up\<close>

definition pool_deref :: "session_ptr \<Rightarrow> ('p, 'x) pool \<Rightarrow> ('p, 'x) csession outcome" where
  "pool_deref p P = (case tp_heap P p of None \<Rightarrow> Fault Use_after_free | Some s \<Rightarrow> Ret s)"

definition pool_store :: "session_ptr \<Rightarrow> ('p, 'x) csession \<Rightarrow> ('p, 'x) pool \<Rightarrow> ('p, 'x) pool" where
  "pool_store p s P = P\<lparr>tp_heap := (tp_heap P)(p := Some s)\<rparr>"

text \<open>\<open>find\<close>, and an operation on the session found; \<open>r0\<close> is the result when there is none.\<close>

definition pool_with ::
  "num_id \<Rightarrow> 'r \<Rightarrow> (('p, 'x) csession \<Rightarrow> 'r \<times> ('p, 'x) csession) \<Rightarrow> ('p, 'x) pool \<Rightarrow>
   ('r \<times> ('p, 'x) pool) outcome" where
  "pool_with i r0 f P =
     (case map_of (allSessions P) i of
        None \<Rightarrow> Ret (r0, P)
      | Some p \<Rightarrow> obind (pool_deref p P) (\<lambda>s. case f s of (r, s') \<Rightarrow> Ret (r, pool_store p s' P)))"

text \<open>The same operation on every session, in the order of iteration.\<close>

fun pool_each ::
  "(('p, 'x) csession \<Rightarrow> ('p, 'x) csession) \<Rightarrow> session_ptr list \<Rightarrow> ('p, 'x) pool \<Rightarrow>
   ('p, 'x) pool outcome" where
  "pool_each f [] P = Ret P"
| "pool_each f (p # ps) P =
     obind (pool_deref p P) (\<lambda>s. pool_each f ps (pool_store p (f s) P))"

abbreviation session_ptrs :: "('p, 'x) pool \<Rightarrow> session_ptr list" where
  "session_ptrs P \<equiv> map snd (allSessions P)"

section \<open>The calls of the pool\<close>

definition pool_setProgressRoutineInSession ::
  "num_id \<Rightarrow> handle option \<Rightarrow> ('p, 'x) pool \<Rightarrow> (bool \<times> ('p, 'x) pool) outcome" where
  "pool_setProgressRoutineInSession i h = pool_with i False (session_setProgressRoutine h)"

definition pool_setRoutinesInSession ::
  "num_id \<Rightarrow> 'p exec_unit list \<Rightarrow> ('p, 'x) pool \<Rightarrow> (bool \<times> ('p, 'x) pool) outcome" where
  "pool_setRoutinesInSession i us = pool_with i False (composing_setRoutines us)"

definition pool_setCancellationRoutineInSession ::
  "num_id \<Rightarrow> handle option \<Rightarrow> ('p, 'x) pool \<Rightarrow> (bool \<times> ('p, 'x) pool) outcome" where
  "pool_setCancellationRoutineInSession i h = pool_with i False (session_setCancellationHandler h)"

definition pool_setExecSummaryRoutineInSession ::
  "num_id \<Rightarrow> 'p routine option \<Rightarrow> ('p, 'x) pool \<Rightarrow> (bool \<times> ('p, 'x) pool) outcome" where
  "pool_setExecSummaryRoutineInSession i f = pool_with i False (session_setSummary f)"

definition pool_setExpirationRoutine ::
  "num_id \<Rightarrow> handle option \<Rightarrow> ('p, 'x) pool \<Rightarrow> (bool \<times> ('p, 'x) pool) outcome" where
  "pool_setExpirationRoutine i h = pool_with i False (session_setExpirationSummary h)"

text \<open>\<open>addSession\<close>: \<open>deploy\<close> runs after the session has been published.\<close>

definition pool_addSession ::
  "i64 \<Rightarrow> session_ptr \<Rightarrow> num_id \<Rightarrow> ('p, 'x) pool \<Rightarrow> (bool \<times> ('p, 'x) pool) outcome" where
  "pool_addSession occ aseq identity P =
     (case map_of (allSessions P) identity of
        Some _ \<Rightarrow> Ret (False, P)
      | None \<Rightarrow>
          (let P1 = P\<lparr>allSessions := allSessions P @ [(identity, aseq)],
                      onlineSessions := onlineSessions P @ [aseq]\<rparr>
           in obind (pool_deref aseq P1) (\<lambda>s. obind (composing_deploy occ s) (\<lambda>s'.
                Ret (True, pool_store aseq s' P1)))))"

text \<open>
  \<open>createComposingSession\<close>; \<open>cb\<close> is the new control block with the identifiers drawn for it, \<open>occ\<close>
  an indeterminate \<open>occupant\<close>. The internal cancellation handler is a function that does nothing,
  known by the handle 0. \<open>rpML\<close> and \<open>rpDOR\<close> of the parameters are not looked at.
\<close>

definition pool_configure :: "('p, 'x) session_params \<Rightarrow> ('p, 'x) csession \<Rightarrow> ('p, 'x) csession" where
  "pool_configure sp s =
     (let s1 = snd (session_setSummary (sp_summaryRoutine sp) s);
          s2 = snd (session_setProgressRoutine (sp_progressRoutine sp) s1);
          s3 = snd (composing_setRoutines (sp_routines sp) s2);
          s4 = snd (session_setCancellationHandler (sp_cancellationRoutine sp) s3);
          s5 = session_setInternalCancellationHandler (Some 0) s4;
          s6 = snd (session_setExpirationSummary (sp_expSummary sp) s5)
      in session_setExpirationCondition (sp_expCondition sp) s6)"

definition pool_createComposingSession ::
  "control_block \<Rightarrow> i64 \<Rightarrow> ('p, 'x) session_params option \<Rightarrow> ('p, 'x) pool \<Rightarrow>
   (num_id \<times> ('p, 'x) pool) outcome" where
  "pool_createComposingSession cb occ separams P =
     (case separams of
        None \<Rightarrow> Ret (new_num_id, P)
      | Some sp \<Rightarrow>
          (let se = tp_next P;
               s = pool_configure sp
                     (new_csession (sp_blockCallMode sp) True (sp_autodelete sp) (sp_sessionName sp) cb occ);
               P1 = (pool_store se s P)\<lparr>tp_next := Suc se\<rparr>
           in obind (pool_addSession occ se (session_sid s) P1) (\<lambda>(res, P2).
                if res then Ret (session_sid s, P2)
                else Ret (new_num_id, P2\<lparr>tp_heap := (tp_heap P2)(se := None)\<rparr>))))"

definition pool_postData ::
  "'p option \<Rightarrow> num_id \<Rightarrow> ('p, 'x) pool \<Rightarrow> (bool \<times> ('p, 'x) pool) outcome" where
  "pool_postData data i = pool_with i False (composing_postData data)"

definition pool_postDataAsVector ::
  "'p option list \<Rightarrow> num_id \<Rightarrow> ('p, 'x) pool \<Rightarrow> (bool \<times> ('p, 'x) pool) outcome" where
  "pool_postDataAsVector data i = pool_with i False (composing_postDataAsVector data)"

definition pool_castObjectForSession ::
  "num_id \<Rightarrow> 'p option \<Rightarrow> ('p, 'x) pool \<Rightarrow> (bool \<times> ('p, 'x) pool) outcome" where
  "pool_castObjectForSession i obj P = (if num64 i = 0 then Ret (False, P) else pool_postData obj i P)"

definition pool_callObjectForSession ::
  "num_id \<Rightarrow> 'p option \<Rightarrow> ('p, 'x) pool \<Rightarrow> (bool \<times> ('p, 'x) pool) outcome" where
  "pool_callObjectForSession i obj P = Ret (False, P)"

definition pool_castVectorForSession ::
  "num_id \<Rightarrow> 'p option list \<Rightarrow> ('p, 'x) pool \<Rightarrow> (bool \<times> ('p, 'x) pool) outcome" where
  "pool_castVectorForSession i objs P =
     (if objs = [] \<or> num64 i = 0 then Ret (False, P) else pool_postDataAsVector objs i P)"

definition pool_callVectorForSession ::
  "num_id \<Rightarrow> 'p option list \<Rightarrow> ('p, 'x) pool \<Rightarrow> (bool \<times> ('p, 'x) pool) outcome" where
  "pool_callVectorForSession i objs P = Ret (False, P)"

text \<open>The counters. \<open>isBusy\<close> stops at the first busy session.\<close>

definition pool_runningSessionsCount :: "('p, 'x) pool \<Rightarrow> i64" where
  "pool_runningSessionsCount P = size_of (onlineSessions P)"

definition pool_pausedSessionsCount :: "('p, 'x) pool \<Rightarrow> i64" where
  "pool_pausedSessionsCount P = countPaused P"

definition pool_totalSessionsCount :: "('p, 'x) pool \<Rightarrow> i64" where
  "pool_totalSessionsCount P = size_of (allSessions P)"

definition pool_isPausedSession :: "num_id \<Rightarrow> ('p, 'x) pool \<Rightarrow> (bool \<times> ('p, 'x) pool) outcome" where
  "pool_isPausedSession i = pool_with i False (\<lambda>s. (session_isPaused s, s))"

definition pool_isBusySession :: "num_id \<Rightarrow> ('p, 'x) pool \<Rightarrow> (bool \<times> ('p, 'x) pool) outcome" where
  "pool_isBusySession i = pool_with i False (\<lambda>s. (composing_isBusy s, s))"

fun any_busy :: "session_ptr list \<Rightarrow> ('p, 'x) pool \<Rightarrow> bool outcome" where
  "any_busy [] P = Ret False"
| "any_busy (p # ps) P = obind (pool_deref p P) (\<lambda>s. if composing_isBusy s then Ret True else any_busy ps P)"

definition pool_isBusy :: "('p, 'x) pool \<Rightarrow> bool outcome" where
  "pool_isBusy P = any_busy (session_ptrs P) P"

definition pool_getThreadpoolSessionsList :: "num_id list \<Rightarrow> ('p, 'x) pool \<Rightarrow> num_id list" where
  "pool_getThreadpoolSessionsList out P = out @ map fst (allSessions P)"

definition pool_itemsCountForSession :: "num_id \<Rightarrow> ('p, 'x) pool \<Rightarrow> (i64 \<times> ('p, 'x) pool) outcome" where
  "pool_itemsCountForSession i = pool_with i 0 composing_getDataItemsCount"

definition pool_getThreadpoolSessionWithId :: "num_id \<Rightarrow> ('p, 'x) pool \<Rightarrow> session_ptr option" where
  "pool_getThreadpoolSessionWithId i P = map_of (allSessions P) i"

text \<open>Flushing: a flush that does not come back keeps the pool's lock for ever.\<close>

definition pool_flush_ptr :: "session_ptr \<Rightarrow> ('p, 'x) pool \<Rightarrow> ('p, 'x) pool outcome" where
  "pool_flush_ptr p P =
     obind (pool_deref p P) (\<lambda>s. obind (returns (composing_flush s (tp_gc P))) (\<lambda>(s', g').
       Ret ((pool_store p s' P)\<lparr>tp_gc := g'\<rparr>)))"

definition pool_flushSession :: "num_id \<Rightarrow> ('p, 'x) pool \<Rightarrow> (bool \<times> ('p, 'x) pool) outcome" where
  "pool_flushSession i P =
     (case map_of (allSessions P) i of
        None \<Rightarrow> Ret (False, P)
      | Some p \<Rightarrow> obind (pool_flush_ptr p P) (\<lambda>P'. Ret (True, P')))"

fun flush_each :: "session_ptr list \<Rightarrow> ('p, 'x) pool \<Rightarrow> ('p, 'x) pool outcome" where
  "flush_each [] P = Ret P"
| "flush_each (p # ps) P = obind (pool_flush_ptr p P) (flush_each ps)"

definition pool_flushAll :: "('p, 'x) pool \<Rightarrow> ('p, 'x) pool outcome" where
  "pool_flushAll P = flush_each (session_ptrs P) P"

definition pool_cancelSession :: "num_id \<Rightarrow> ('p, 'x) pool \<Rightarrow> (bool \<times> ('p, 'x) pool) outcome" where
  "pool_cancelSession i P =
     (case map_of (allSessions P) i of
        None \<Rightarrow> Ret (False, P)
      | Some p \<Rightarrow> obind (pool_deref p P) (\<lambda>ss.
          (let P1 = (if session_isPaused ss then P\<lparr>countPaused := countPaused P - 1\<rparr> else P);
               P2 = pool_store p (composing_cancel ss) P1
           in Ret (True, P2\<lparr>allSessions := AList.delete i (allSessions P2),
                             tp_gc := gc_cast_session p (tp_gc P2)\<rparr>))))"

definition pool_cancelAll :: "('p, 'x) pool \<Rightarrow> (bool \<times> ('p, 'x) pool) outcome" where
  "pool_cancelAll P = Ret (False, P)"

definition pool_pauseSession :: "num_id \<Rightarrow> ('p, 'x) pool \<Rightarrow> (bool \<times> ('p, 'x) pool) outcome" where
  "pool_pauseSession i P =
     obind (pool_with i False (\<lambda>s. (True, session_pause s)) P) (\<lambda>(res, P').
       Ret (res, if res then P'\<lparr>countPaused := countPaused P' + 1\<rparr> else P'))"

definition pool_resumeSession :: "num_id \<Rightarrow> ('p, 'x) pool \<Rightarrow> (bool \<times> ('p, 'x) pool) outcome" where
  "pool_resumeSession i P =
     obind (pool_with i False (\<lambda>s. (True, session_resume s)) P) (\<lambda>(res, P').
       Ret (res, if res then P'\<lparr>countPaused := countPaused P' - 1\<rparr> else P'))"

definition pool_pauseAll :: "('p, 'x) pool \<Rightarrow> (bool \<times> ('p, 'x) pool) outcome" where
  "pool_pauseAll P =
     obind (pool_each session_pause (session_ptrs P) P) (\<lambda>P'.
       Ret (allSessions P \<noteq> [], P'\<lparr>countPaused := countPaused P' + size_of (allSessions P)\<rparr>))"

definition pool_resumeAll :: "('p, 'x) pool \<Rightarrow> (bool \<times> ('p, 'x) pool) outcome" where
  "pool_resumeAll P =
     obind (pool_each session_resume (session_ptrs P) P) (\<lambda>P'.
       Ret (allSessions P \<noteq> [], P'\<lparr>countPaused := countPaused P' - size_of (allSessions P)\<rparr>))"

section \<open>The loop of a worker\<close>

text \<open>
  Where a worker stands: at the top of its loop, before the garbage collection, before the choice
  of a session, about to run the session it chose, and the stages of its end.
\<close>

datatype worker_pc =
  W_top | W_collect | W_pick | W_run session_ptr | W_count | W_check | W_complete | W_notify | W_done

record worker =
  selectedSlot :: u64
  w_pc :: worker_pc

definition new_worker :: worker where
  "new_worker = \<lparr>selectedSlot = 0, w_pc = W_top\<rparr>"

definition ptr_cancelled :: "('p, 'x) pool \<Rightarrow> session_ptr \<Rightarrow> bool" where
  "ptr_cancelled P p = (case tp_heap P p of None \<Rightarrow> False | Some s \<Rightarrow> session_isCancelled s)"

text \<open>What a round of the collector does to the heap.\<close>

definition delete_sessions :: "'p disposal \<Rightarrow> ('p, 'x) pool \<Rightarrow> ('p, 'x) pool outcome" where
  "delete_sessions d P =
     (if \<exists>p \<in> set (d_sessions d) \<union> set (d_forgotten d). tp_heap P p = None then Fault Use_after_free
      else Ret (P\<lparr>tp_heap := (\<lambda>p. if p \<in> set (d_sessions d) then None else tp_heap P p)\<rparr>))"

definition worker_collect :: "('p, 'x) pool \<Rightarrow> ('p, 'x) pool outcome" where
  "worker_collect P =
     (if gc_active (tp_gc P) then Ret P
      else obind (gc_dispose (ptr_cancelled P) (tp_gc P)) (\<lambda>(d, g).
             delete_sessions d (P\<lparr>tp_gc := g\<rparr>)))"

text \<open>
  \<open>cloneSessionsMap2Vector\<close>: the sessions that are paused at this moment are left out.
\<close>

fun clone_online :: "session_ptr list \<Rightarrow> ('p, 'x) pool \<Rightarrow> session_ptr list outcome" where
  "clone_online [] P = Ret []"
| "clone_online (p # ps) P =
     obind (pool_deref p P) (\<lambda>s. obind (clone_online ps P) (\<lambda>qs.
       Ret (if session_isPaused s then qs else p # qs)))"

definition state_cloneSessionsMap2Vector :: "('p, 'x) pool \<Rightarrow> ('p, 'x) pool outcome" where
  "state_cloneSessionsMap2Vector P =
     obind (clone_online (session_ptrs P) P) (\<lambda>ps. Ret (P\<lparr>onlineSessions := ps\<rparr>))"

text \<open>
  The critical section of a worker with number \<open>selector\<close>: the session it will run, if any. The
  range looked at is always the one of processor 0 (\<open>ii\<close> never changes), and the slot computed
  from it is not used: the session is the one at position \<open>selector\<close>.
\<close>

definition resize_bounds :: "('p, 'x) pool \<Rightarrow> ('p, 'x) pool" where
  "resize_bounds P =
     (if size_of (vectProc2Bounds P) \<noteq> actualThreadsCount (tpcfg P)
      then P\<lparr>vectProc2Bounds := replicate (unat (actualThreadsCount (tpcfg P))) \<lparr>lowBound = 0, rangeLength = 0\<rparr>\<rparr>
      else P)"

definition next_slot :: "tp_range \<Rightarrow> u64 \<Rightarrow> u64" where
  "next_slot tcr slot =
     (if lowBound tcr \<le> slot + 1 \<and> rangeLength tcr + lowBound tcr > slot + 1 then slot + 1 else lowBound tcr)"

definition worker_pick ::
  "nat \<Rightarrow> u64 \<Rightarrow> ('p, 'x) pool \<Rightarrow> ((u64 \<times> session_ptr option) \<times> ('p, 'x) pool) outcome" where
  "worker_pick selector slot P =
     (let tpc = tpcfg P; P0 = resize_bounds P in
      obind (state_reassignProcs tpc (size_of (onlineSessions P0)) P0) (\<lambda>(_, P1).
        case vectProc2Bounds P1 of
          [] \<Rightarrow> Fault Out_of_range
        | tcr # _ \<Rightarrow>
            if rangeLength tcr = 0 \<or> onlineSessions P1 = [] then Ret ((slot, None), P1)
            else (let slot' = next_slot tcr slot in
                  if selector \<ge> length (onlineSessions P1) then Ret ((slot', None), P1)
                  else (let ss = onlineSessions P1 ! selector in
                    obind (pool_deref ss P1) (\<lambda>s.
                      if session_cancellationRequested s
                      then obind (state_cloneSessionsMap2Vector P1) (\<lambda>P2.
                             obind (state_reassignProcs (tpcfg P1) (size_of (onlineSessions P2)) P2)
                               (\<lambda>(_, P3). Ret ((slot', None), P3)))
                      else Ret ((slot', Some ss), P1))))))"

text \<open>
  Running the chosen session. \<open>None\<close> says that \<open>select\<close> has not come back within the fuel.
\<close>

definition worker_run ::
  "nat \<Rightarrow> 'x expcond \<Rightarrow> i64 \<Rightarrow> session_ptr \<Rightarrow> ('p, 'x) pool \<Rightarrow> ('p, 'x) pool outcome option" where
  "worker_run fuel X occ ss P =
     (case tp_heap P ss of
        None \<Rightarrow> Some (Fault Use_after_free)
      | Some s \<Rightarrow>
          if session_isPaused s then Some (Ret P)
          else map_option (\<lambda>res. obind res (\<lambda>(_, r).
                 Ret ((pool_store ss (r_session r) P)\<lparr>tp_gc := r_gc r, tp_events := r_events r\<rparr>)))
               (composing_select fuel X occ 0 \<lparr>r_session = s, r_gc = tp_gc P, r_events = tp_events P\<rparr>))"

text \<open>The last worker empties the collector; the flag goes up before.\<close>

definition worker_complete :: "('p, 'x) pool \<Rightarrow> ('p, 'x) pool outcome" where
  "worker_complete P =
     obind (returns (gc_disposeAll (ptr_cancelled P) (tp_gc P))) (\<lambda>(d, g).
       delete_sessions d (P\<lparr>shutdownComplete := True, tp_gc := g\<rparr>))"

fun tworker_step ::
  "nat \<Rightarrow> 'x expcond \<Rightarrow> i64 \<Rightarrow> nat \<Rightarrow> worker \<times> ('p, 'x) pool \<Rightarrow>
   (worker \<times> ('p, 'x) pool) outcome option" where
  "tworker_step fuel X occ selector (w, P) =
     (case w_pc w of
        W_top \<Rightarrow> Some (Ret (w\<lparr>w_pc := (if toShutdown P then W_count else W_collect)\<rparr>, P))
      | W_collect \<Rightarrow> Some (obind (worker_collect P) (\<lambda>P'. Ret (w\<lparr>w_pc := W_pick\<rparr>, P')))
      | W_pick \<Rightarrow> Some (obind (worker_pick selector (selectedSlot w) P) (\<lambda>((slot, ss), P').
          Ret (w\<lparr>selectedSlot := slot, w_pc := (case ss of None \<Rightarrow> W_top | Some p \<Rightarrow> W_run p)\<rparr>, P')))
      | W_run p \<Rightarrow> map_option (\<lambda>res. obind res (\<lambda>P'. Ret (w\<lparr>w_pc := W_top\<rparr>, P'))) (worker_run fuel X occ p P)
      | W_count \<Rightarrow> Some (Ret (w\<lparr>w_pc := W_check\<rparr>, P\<lparr>shutdownCont := shutdownCont P - 1\<rparr>))
      | W_check \<Rightarrow> Some (Ret (w\<lparr>w_pc := (if shutdownCont P = 0 then W_complete else W_notify)\<rparr>, P))
      | W_complete \<Rightarrow> Some (obind (worker_complete P) (\<lambda>P'. Ret (w\<lparr>w_pc := W_notify\<rparr>, P')))
      | W_notify \<Rightarrow> Some (Ret (w\<lparr>w_pc := W_done\<rparr>, P))
      | W_done \<Rightarrow> Some (Ret (w, P)))"

end
