(* ===== verification/Threadpool_Frames.thy ===== *)
theory Threadpool_Frames
  imports Threadpool
begin

text \<open>
  What a session's work leaves alone: \<open>flush\<close> and \<open>select\<close> hand data and wrappers to the
  collector, and never touch its list of killed sessions.
\<close>

abbreviation run_killed :: "('p, 'x) run \<Rightarrow> session_ptr queue" where
  "run_killed r \<equiv> killedSessions (r_gc r)"

section \<open>Flushing\<close>

lemma gc_cast_wrapper_killed [simp]: "killedSessions (gc_cast_wrapper w g) = killedSessions g"
  by (simp add: gc_cast_wrapper_def)

lemma fold_casts_killed [simp]:
  "killedSessions (fold gc_cast_data ps g) = killedSessions g"
  "killedSessions (fold (\<lambda>t. gc_cast_data (Some t)) ts g) = killedSessions g"
  "killedSessions (fold gc_cast_wrapper ws g) = killedSessions g"
  by (induction ps arbitrary: g, simp_all, induction ts arbitrary: g, simp_all,
      induction ws arbitrary: g, simp_all)

lemma discard_killed [simp]: "killedSessions (discard ad ts g) = killedSessions g"
  by (simp add: discard_def)

lemma flush_queues_killed:
  "flush_queues ad hs busy g = Some (hs', busy', g') \<Longrightarrow> killedSessions g' = killedSessions g"
proof (induction hs arbitrary: busy g hs' busy' g')
  case Nil
  then show ?case by simp
next
  case (Cons h hs)
  then show ?case by (fastforce simp: bind_eq_Some_conv split: prod.splits)
qed

lemma flush_locked_killed:
  "composing_flush_locked s g = Some (s', g') \<Longrightarrow> killedSessions g' = killedSessions g"
  by (auto simp: composing_flush_locked_def bind_eq_Some_conv split: prod.splits
      dest!: flush_queues_killed)

lemma flush_killed: "composing_flush s g = Some (s', g') \<Longrightarrow> killedSessions g' = killedSessions g"
  by (simp add: composing_flush_def flush_locked_killed)

section \<open>Routines\<close>

lemma call_routine_killed [simp]:
  "killedSessions (w_gc (call_routine ad sid f w)) = killedSessions (w_gc w)"
  by (simp add: call_routine_def Let_def split: prod.split)

lemma call_lambda_killed:
  "call_lambda ad sid u w = Ret w' \<Longrightarrow> killedSessions (w_gc w') = killedSessions (w_gc w)"
  by (auto simp: call_lambda_def split: option.splits)

lemma run_unit_killed:
  "run_unit prio ad sid u w = Ret w' \<Longrightarrow> killedSessions (w_gc w') = killedSessions (w_gc w)"
  by (cases prio) (auto simp: call_method_def dest!: call_lambda_killed)

lemma run_routines_killed:
  "run_routines prio ad sid us w = Ret (b, w') \<Longrightarrow> killedSessions (w_gc w') = killedSessions (w_gc w)"
proof (induction us arbitrary: w)
  case Nil
  then show ?case by simp
next
  case (Cons u us)
  then show ?case by (auto split: if_splits dest!: run_unit_killed)
qed

section \<open>The parts of select\<close>

lemma on_session_killed [simp]: "run_killed (on_session f r) = run_killed r"
  by (simp add: on_session_def)

lemma log_event_killed [simp]: "run_killed (log_event e r) = run_killed r"
  by (simp add: log_event_def)

lemma dispose_result_killed [simp]: "run_killed (dispose_result p r) = run_killed r"
  by (simp add: dispose_result_def)

lemma call_cancel_handler_killed [simp]: "run_killed (call_cancel_handler h r) = run_killed r"
  by (simp add: call_cancel_handler_def split: option.split)

lemma invoke_cancel_killed [simp]: "run_killed (composing_invokeCancellationHandler h r) = run_killed r"
  by (simp add: composing_invokeCancellationHandler_def)

lemma run_flush_killed:
  "run_flush composing_flush r = Ret r' \<Longrightarrow> run_killed r' = run_killed r"
  "run_flush composing_flush_locked r = Ret r' \<Longrightarrow> run_killed r' = run_killed r"
  by (auto simp: run_flush_def returns_def flush_killed flush_locked_killed split: option.splits)

lemma cancel_path_killed:
  assumes "\<And>h r. run_killed (finish h r) = run_killed r" and "cancel_path finish r = Ret r'"
  shows "run_killed r' = run_killed r"
  using assms by (auto simp: cancel_path_def Let_def dest!: run_flush_killed split: prod.splits)

lemma expire_path_killed: "expire_path r = Ret r' \<Longrightarrow> run_killed r' = run_killed r"
  by (auto simp: expire_path_def Let_def dest!: run_flush_killed split: option.splits)

lemma flush_if_requested_killed:
  "flush_if_requested p r = Ret (q, r') \<Longrightarrow> run_killed r' = run_killed r"
  by (auto simp: flush_if_requested_def Let_def dest!: run_flush_killed split: if_splits)

lemma summarise_killed [simp]: "run_killed (summarise p r) = run_killed r"
  by (auto simp: summarise_def Let_def split: prod.splits option.splits)

lemma select_head_killed:
  assumes "select_head X r = Ret (b, r')"
  shows "run_killed r' = run_killed r"
  using assms
  by (auto simp: select_head_def Let_def dest!: cancel_path_killed [rotated] expire_path_killed
      split: if_splits prod.splits)

lemma process_item_killed:
  assumes "process_item X ind item st r = Ret (b, r')"
  shows "run_killed r' = run_killed r"
proof -
  let ?s = "on_queue tq_unoccupy (r_session r)"
  obtain stopped w where w: "run_routines (runprioML ?s) (s_autodelete ?s) (session_sid ?s)
      (routinesHnds ?s ! unat ind) \<lparr>w_r0 = item, w_result = item, w_cb = s_cblk ?s, w_gc = r_gc r\<rparr> =
      Ret (stopped, w)"
    using assms by (auto simp: process_item_def Let_def)
  have k: "killedSessions (w_gc w) = run_killed r" using run_routines_killed [OF w] by simp
  from assms k show ?thesis
    unfolding process_item_def Let_def w obind.simps prod.case
    by (auto dest!: cancel_path_killed [rotated] expire_path_killed flush_if_requested_killed
        split: if_splits prod.splits)
qed

lemma select_turn_killed:
  assumes "select_turn X occ ii r = Ret (b, r')"
  shows "run_killed r' = run_killed r"
proof (cases "cancel_requested (r_session r)")
  case True
  with assms show ?thesis
    by (auto simp: select_turn_def dest!: cancel_path_killed [rotated])
next
  case False
  obtain r1 where r1: "(if cb_flushRequested (s_cblk (r_session r))
      then run_flush composing_flush_locked r else Ret r) = Ret r1"
    using assms False by (auto simp: select_turn_def)
  then have k: "run_killed r1 = run_killed r" by (auto dest!: run_flush_killed split: if_splits)
  obtain sw ind s1 where sw: "session_switchRoutinesHandlers (r_session r1) = ((sw, ind), s1)"
    by (metis prod.exhaust)
  obtain s2 where s2: "(if sw then obind (composing_reconfigureDataqueues occ s1)
        (\<lambda>s. Ret (session_resetPriorityQueue s)) else Ret s1) = Ret s2"
    using assms False by (auto simp: select_turn_def r1 sw)
  show ?thesis
  proof (cases "dataQueues s2")
    case Nil
    then show ?thesis using assms False k unfolding select_turn_def r1 obind.simps sw prod.case s2 by auto
  next
    case (Cons h hs)
    obtain item i st h1 where p: "hyb_pullAndOccupyWithId ii new_qstat h = Ret ((item, i, st), h1)"
      using assms False Cons unfolding select_turn_def r1 obind.simps sw prod.case s2 by auto
    show ?thesis
      using assms False k unfolding select_turn_def r1 obind.simps sw prod.case s2 Cons list.case p Let_def
      by (auto dest!: process_item_killed split: if_splits)
  qed
qed

lemma select_loop_killed:
  "select_loop fuel X occ ii r = Some (Ret (b, r')) \<Longrightarrow> run_killed r' = run_killed r"
proof (induction fuel arbitrary: r)
  case 0
  then show ?case by simp
next
  case (Suc fuel)
  then show ?case
    by (auto split: outcome.splits prod.splits option.splits dest!: select_turn_killed)
qed

lemma select_killed:
  "composing_select fuel X occ ii r = Some (Ret (b, r')) \<Longrightarrow> run_killed r' = run_killed r"
  by (auto simp: composing_select_def split: outcome.splits prod.splits option.splits
      dest!: select_head_killed select_loop_killed)

end
