(* ===== verification/Threadpool_Inv.thy ===== *)
theory Threadpool_Inv
  imports Threadpool_Frames Transitions
begin

text \<open>
  The pool as a transition system: users' calls and steps of the worker threads in any order.
  The invariant of the reachable states: no identifier and no address is registered twice, the
  registered sessions and those waiting for the collector are allocated. It follows that no call
  of a user touches a deleted session. (Workers also look at \<open>onlineSessions\<close>, which may hold
  deleted ones.)
\<close>

section \<open>Calls and steps\<close>

datatype ('p, 'x) pool_call =
    Create control_block i64 "('p, 'x) session_params option"
  | Cast num_id "'p option"
  | CastVector num_id "'p option list"
  | SetRoutines num_id "'p exec_unit list"
  | SetCancellation num_id "handle option"
  | SetSummary num_id "'p routine option"
  | SetProgress num_id "handle option"
  | SetExpiration num_id "handle option"
  | ItemsCount num_id
  | Flush num_id
  | FlushAll
  | Cancel num_id
  | Pause num_id
  | Resume num_id
  | PauseAll
  | ResumeAll
  | Shutdown

definition effect :: "('r \<times> 's) outcome \<Rightarrow> 's outcome" where
  "effect m = obind m (\<lambda>(_, s). Ret s)"

text \<open>What a call does to the pool. \<open>shutdown\<close> raises the flag (and then waits).\<close>

fun pool_apply :: "('p, 'x) pool_call \<Rightarrow> ('p, 'x) pool \<Rightarrow> ('p, 'x) pool outcome" where
  "pool_apply (Create cb occ sp) P = effect (pool_createComposingSession cb occ sp P)"
| "pool_apply (Cast i d) P = effect (pool_castObjectForSession i d P)"
| "pool_apply (CastVector i ds) P = effect (pool_castVectorForSession i ds P)"
| "pool_apply (SetRoutines i us) P = effect (pool_setRoutinesInSession i us P)"
| "pool_apply (SetCancellation i h) P = effect (pool_setCancellationRoutineInSession i h P)"
| "pool_apply (SetSummary i f) P = effect (pool_setExecSummaryRoutineInSession i f P)"
| "pool_apply (SetProgress i h) P = effect (pool_setProgressRoutineInSession i h P)"
| "pool_apply (SetExpiration i h) P = effect (pool_setExpirationRoutine i h P)"
| "pool_apply (ItemsCount i) P = effect (pool_itemsCountForSession i P)"
| "pool_apply (Flush i) P = effect (pool_flushSession i P)"
| "pool_apply FlushAll P = pool_flushAll P"
| "pool_apply (Cancel i) P = effect (pool_cancelSession i P)"
| "pool_apply (Pause i) P = effect (pool_pauseSession i P)"
| "pool_apply (Resume i) P = effect (pool_resumeSession i P)"
| "pool_apply PauseAll P = effect (pool_pauseAll P)"
| "pool_apply ResumeAll P = effect (pool_resumeAll P)"
| "pool_apply Shutdown P = Ret (P\<lparr>toShutdown := True\<rparr>)"

type_synonym ('p, 'x) system = "worker list \<times> ('p, 'x) pool"

inductive sys_step :: "'x expcond \<Rightarrow> ('p, 'x) system \<Rightarrow> ('p, 'x) system \<Rightarrow> bool" for X where
  call: "pool_apply c P = Ret P' \<Longrightarrow> sys_step X (ws, P) (ws, P')"
| work: "i < length ws \<Longrightarrow> tworker_step fuel X occ i (ws ! i, P) = Some (Ret (w, P')) \<Longrightarrow>
    sys_step X (ws, P) (ws[i := w], P')"

definition sys_start :: "('p, 'x) system \<Rightarrow> bool" where
  "sys_start S \<longleftrightarrow> (\<exists>n k P. new_pool n = Ret (k, P) \<and> S = (replicate k new_worker, P))"

abbreviation sys_reachable :: "'x expcond \<Rightarrow> ('p, 'x) system \<Rightarrow> bool" where
  "sys_reachable X \<equiv> reach sys_start (sys_step X)"

lemma sys_reachable_start: "new_pool n = Ret (k, P) \<Longrightarrow> sys_reachable X (replicate k new_worker, P)"
  by (rule reach_start) (auto simp: sys_start_def)

lemma sys_reachable_call:
  "sys_reachable X (ws, P) \<Longrightarrow> pool_apply c P = Ret P' \<Longrightarrow> sys_reachable X (ws, P')"
  by (rule reach_step) (auto intro: sys_step.call)

lemma sys_reachable_work:
  "sys_reachable X (ws, P) \<Longrightarrow> i < length ws \<Longrightarrow>
   tworker_step fuel X occ i (ws ! i, P) = Some (Ret (w, P')) \<Longrightarrow> sys_reachable X (ws[i := w], P')"
  by (blast intro: reach_step sys_step.work)

inductive_cases sys_stepE: "sys_step X S S'"

section \<open>The invariant\<close>

abbreviation killed :: "('p, 'x) pool \<Rightarrow> session_ptr list" where
  "killed P \<equiv> itsQ (killedSessions (tp_gc P))"

definition heap_ok :: "session_ptr list \<Rightarrow> (session_ptr \<Rightarrow> 's option) \<Rightarrow> session_ptr \<Rightarrow> bool" where
  "heap_ok ps h n \<longleftrightarrow> distinct ps \<and> (\<forall>p \<in> set ps. h p \<noteq> None) \<and> (\<forall>p. h p \<noteq> None \<longrightarrow> p < n)"

definition pool_ok :: "('p, 'x) pool \<Rightarrow> bool" where
  "pool_ok P \<longleftrightarrow> distinct (map fst (allSessions P)) \<and>
     heap_ok (session_ptrs P @ killed P) (tp_heap P) (tp_next P)"

lemma heap_ok_new: "heap_ok ps h n \<Longrightarrow> n \<notin> set ps \<and> h n = None"
  by (auto simp: heap_ok_def)

lemma heap_ok_fresh:
  "heap_ok (ps @ qs) h n \<Longrightarrow> heap_ok ((ps @ [n]) @ qs) (h(n := Some s)) (Suc n)"
  by (auto simp: heap_ok_def less_Suc_eq)

lemma heap_ok_skip: "heap_ok ps h n \<Longrightarrow> heap_ok ps (h(n := None)) (Suc n)"
  by (auto simp: heap_ok_def less_Suc_eq)

lemma heap_ok_sub: "heap_ok ps h n \<Longrightarrow> distinct qs \<Longrightarrow> set qs \<subseteq> set ps \<Longrightarrow> heap_ok qs h n"
  by (auto simp: heap_ok_def)

lemma heap_ok_cong: "(\<And>p. h' p = None \<longleftrightarrow> h p = None) \<Longrightarrow> heap_ok ps h' n = heap_ok ps h n"
  by (simp add: heap_ok_def)

lemma heap_ok_delete:
  "heap_ok ps h n \<Longrightarrow> distinct qs \<Longrightarrow> set qs \<subseteq> set ps \<Longrightarrow> set qs \<inter> D = {} \<Longrightarrow>
   heap_ok qs (\<lambda>p. if p \<in> D then None else h p) n"
  by (auto simp: heap_ok_def)

lemma pool_ok_live:
  "pool_ok P \<Longrightarrow> p \<in> set (session_ptrs P @ killed P) \<Longrightarrow> \<exists>s. tp_heap P p = Some s"
  unfolding pool_ok_def heap_ok_def by blast

text \<open>Operations that change the contents of sessions, and no more.\<close>

definition pool_same :: "('p, 'x) pool \<Rightarrow> ('p, 'x) pool \<Rightarrow> bool" where
  "pool_same P P' \<longleftrightarrow> allSessions P' = allSessions P \<and> killed P' = killed P \<and>
     tp_next P' = tp_next P \<and> (\<forall>p. tp_heap P' p = None \<longleftrightarrow> tp_heap P p = None)"

lemma pool_same_ok: "pool_same P P' \<Longrightarrow> pool_ok P' = pool_ok P"
  by (simp add: pool_same_def pool_ok_def heap_ok_def)

lemma pool_same_refl [simp]: "pool_same P P"
  by (simp add: pool_same_def)

lemma pool_same_trans: "pool_same P Q \<Longrightarrow> pool_same Q R \<Longrightarrow> pool_same P R"
  by (simp add: pool_same_def)

lemma pool_same_frame [simp]:
  "pool_same P (P'\<lparr>countPaused := c\<rparr>) = pool_same P P'"
  "pool_same P (P'\<lparr>toShutdown := b\<rparr>) = pool_same P P'"
  "pool_same P (P'\<lparr>shutdownCont := n\<rparr>) = pool_same P P'"
  "pool_same P (P'\<lparr>tp_events := e\<rparr>) = pool_same P P'"
  "pool_same P (P'\<lparr>onlineSessions := os\<rparr>) = pool_same P P'"
  by (simp_all add: pool_same_def)

lemma pool_same_store: "tp_heap P p \<noteq> None \<Longrightarrow> pool_same P (pool_store p s P)"
  by (simp add: pool_same_def pool_store_def)

lemma pool_deref_Ret [simp]: "pool_deref p P = Ret s \<longleftrightarrow> tp_heap P p = Some s"
  by (simp add: pool_deref_def split: option.split)

lemma pool_with_same: "pool_with i r0 f P = Ret (r, P') \<Longrightarrow> pool_same P P'"
  by (auto simp: pool_with_def pool_same_store split_beta split: option.splits)

lemma pool_each_same: "pool_each f ps P = Ret P' \<Longrightarrow> pool_same P P'"
proof (induction ps arbitrary: P)
  case Nil
  then show ?case by simp
next
  case (Cons p ps)
  then show ?case by (auto intro: pool_same_trans [OF pool_same_store])
qed

lemma pool_flush_ptr_same: "pool_flush_ptr p P = Ret P' \<Longrightarrow> pool_same P P'"
  by (auto simp: pool_flush_ptr_def returns_def pool_same_def pool_store_def flush_killed
      split: option.splits if_splits)

lemma flush_each_same: "flush_each ps P = Ret P' \<Longrightarrow> pool_same P P'"
proof (induction ps arbitrary: P)
  case Nil
  then show ?case by simp
next
  case (Cons p ps)
  then show ?case by (auto intro: pool_same_trans [OF pool_flush_ptr_same])
qed

lemmas pool_setters = pool_castObjectForSession_def pool_postData_def pool_castVectorForSession_def
  pool_postDataAsVector_def pool_setRoutinesInSession_def pool_setCancellationRoutineInSession_def
  pool_setExecSummaryRoutineInSession_def pool_setProgressRoutineInSession_def
  pool_setExpirationRoutine_def pool_itemsCountForSession_def pool_pauseSession_def
  pool_resumeSession_def pool_pauseAll_def pool_resumeAll_def pool_flushSession_def pool_flushAll_def

lemma effect_Ret [simp]: "effect m = Ret s \<longleftrightarrow> (\<exists>r. m = Ret (r, s))"
  by (auto simp: effect_def)

text \<open>Every call but creation and cancellation is of that kind.\<close>

lemma pool_apply_same:
  assumes "pool_apply c P = Ret P'" and "\<nexists>cb occ sp. c = Create cb occ sp" and "\<nexists>i. c = Cancel i"
  shows "pool_same P P'"
  using assms
  by (cases c)
    (auto simp: pool_setters dest!: pool_with_same pool_each_same pool_flush_ptr_same flush_each_same
      split: if_splits option.splits)

lemma killed_cast: "itsQ (snd (queue_castObject x q)) = itsQ q \<or> itsQ (snd (queue_castObject x q)) = itsQ q @ [x]"
  by (simp add: queue_castObject_def Let_def)

lemma composing_deploy_new:
  "dataQueues s = [] \<Longrightarrow> \<exists>s'. composing_deploy occ s = Ret s'"
  by (simp add: composing_deploy_def composing_reconfigureDataqueues_def)

lemma pool_configure_dataQueues [simp]: "dataQueues (pool_configure sp s) = dataQueues s"
  by (simp add: pool_configure_def Let_def session_setSummary_def session_setProgressRoutine_def
      composing_setRoutines_def session_setRoutines_raw_def session_setCancellationHandler_def
      session_setInternalCancellationHandler_def session_setExpirationSummary_def
      session_setExpirationCondition_def split: option.split)

lemma new_csession_dataQueues [simp]: "dataQueues (new_csession mode on ad name cb occ) = []"
  by (simp add: new_csession_def session.extend_def new_session_def)

text \<open>Creation, in both cases.\<close>

lemma create_cases:
  fixes sp :: "('p, 'x) session_params" and cb occ
  defines "s \<equiv> pool_configure sp (new_csession (sp_blockCallMode sp) True (sp_autodelete sp) (sp_sessionName sp) cb occ)"
  obtains (fresh) s' where "map_of (allSessions P) (session_sid s) = None"
      and "composing_deploy occ s = Ret s'"
      and "pool_createComposingSession cb occ (Some sp) P = Ret (session_sid s,
        P\<lparr>allSessions := allSessions P @ [(session_sid s, tp_next P)],
          onlineSessions := onlineSessions P @ [tp_next P],
          tp_heap := (tp_heap P)(tp_next P := Some s'), tp_next := Suc (tp_next P)\<rparr>)"
  | (clash) "map_of (allSessions P) (session_sid s) \<noteq> None"
      and "pool_createComposingSession cb occ (Some sp) P = Ret (new_num_id,
        P\<lparr>tp_heap := (tp_heap P)(tp_next P := None), tp_next := Suc (tp_next P)\<rparr>)"
proof (cases "map_of (allSessions P) (session_sid s)")
  case None
  obtain s' where s': "composing_deploy occ s = Ret s'"
    using composing_deploy_new [of s occ] by (auto simp: s_def)
  show thesis
    by (rule fresh [OF None s'])
      (use None s' in \<open>simp add: pool_createComposingSession_def pool_addSession_def Let_def
        pool_deref_def pool_store_def flip: s_def\<close>)
next
  case (Some q)
  show thesis
    by (rule clash)
      (use Some in \<open>simp_all add: pool_createComposingSession_def pool_addSession_def Let_def
        pool_store_def flip: s_def\<close>)
qed

lemma create_ok:
  assumes "pool_ok P" and "pool_createComposingSession cb occ separams P = Ret (i, P')"
  shows "pool_ok P'"
proof (cases separams)
  case None
  with assms show ?thesis by (simp add: pool_createComposingSession_def)
next
  case (Some sp)
  from assms(1) have ok: "heap_ok (session_ptrs P @ killed P) (tp_heap P) (tp_next P)"
    "distinct (map fst (allSessions P))"
    by (simp_all add: pool_ok_def)
  show ?thesis
  proof (cases rule: create_cases [where P = P and sp = sp and cb = cb and occ = occ])
    case (fresh s')
    then have "P' = P\<lparr>allSessions := allSessions P @ [(i, tp_next P)],
          onlineSessions := onlineSessions P @ [tp_next P],
          tp_heap := (tp_heap P)(tp_next P := Some s'), tp_next := Suc (tp_next P)\<rparr>"
      and "map_of (allSessions P) i = None"
      using assms(2) Some by auto
    with ok(2) heap_ok_fresh [OF ok(1), of s'] show ?thesis
      by (simp add: pool_ok_def map_of_eq_None_iff)
  next
    case clash
    with assms(2) Some ok(2) heap_ok_skip [OF ok(1)] show ?thesis by (auto simp: pool_ok_def)
  qed
qed

lemma map_snd_delete: "set (map snd (AList.delete k al)) \<subseteq> set (map snd al)"
  by (induction al) auto

lemma distinct_snd_delete: "distinct (map snd al) \<Longrightarrow> distinct (map snd (AList.delete k al))"
proof (induction al)
  case Nil
  then show ?case by simp
next
  case (Cons e al)
  then show ?case using map_snd_delete [of k al] by (cases e) auto
qed

lemma deleted_value:
  "distinct (map fst al) \<Longrightarrow> distinct (map snd al) \<Longrightarrow> map_of al k = Some v \<Longrightarrow>
   v \<notin> set (map snd (AList.delete k al))"
proof (induction al)
  case Nil
  then show ?case by simp
next
  case (Cons e al)
  then show ?case
    by (cases e) (auto simp: delete_idem map_of_eq_None_iff [symmetric] dest: map_of_SomeD
      intro: rev_image_eqI split: if_splits)
qed

lemma cancel_eq:
  assumes "map_of (allSessions P) i = Some p" and "tp_heap P p = Some ss"
  obtains c where "pool_cancelSession i P = Ret (True, (pool_store p (composing_cancel ss) P)
     \<lparr>countPaused := c, allSessions := AList.delete i (allSessions P),
      tp_gc := gc_cast_session p (tp_gc P)\<rparr>)"
  by (rule that [of "if session_isPaused ss then countPaused P - 1 else countPaused P"])
    (use assms in \<open>simp add: pool_cancelSession_def pool_deref_def pool_store_def Let_def\<close>)

lemma cancel_ok:
  assumes ok: "pool_ok P" and c: "pool_cancelSession i P = Ret (b, P')"
  shows "pool_ok P'"
proof (cases "map_of (allSessions P) i")
  case None
  with assms show ?thesis by (simp add: pool_cancelSession_def)
next
  case (Some p)
  then have p: "p \<in> set (session_ptrs P)" by (force dest: map_of_SomeD)
  with pool_ok_live [OF ok, of p] obtain ss where ss: "tp_heap P p = Some ss" by auto
  obtain n where P': "P' = (pool_store p (composing_cancel ss) P)
     \<lparr>countPaused := n, allSessions := AList.delete i (allSessions P),
      tp_gc := gc_cast_session p (tp_gc P)\<rparr>"
    using cancel_eq [OF Some ss] c by (metis outcome.inject prod.inject)
  have d: "distinct (map fst (AList.delete i (allSessions P)))"
    "distinct (map snd (AList.delete i (allSessions P)))"
    "p \<notin> set (map snd (AList.delete i (allSessions P)))"
    using ok Some deleted_value [of "allSessions P" i p]
    by (simp_all add: pool_ok_def heap_ok_def distinct_delete distinct_snd_delete)
  have k: "killed P' = killed P \<or> killed P' = killed P @ [p]"
    using killed_cast by (simp add: P' gc_cast_session_def)
  have heap: "heap_ok (session_ptrs P @ killed P) (tp_heap P') (tp_next P')"
    using ok ss heap_ok_cong [of "tp_heap P'" "tp_heap P"] by (simp add: pool_ok_def P' pool_store_def)
  have "distinct (session_ptrs P' @ killed P')"
    "set (session_ptrs P' @ killed P') \<subseteq> set (session_ptrs P @ killed P)"
    using k d p map_snd_delete [of i "allSessions P"] ok unfolding pool_ok_def heap_ok_def
    by (auto simp: P' simp del: set_map)
  from heap_ok_sub [OF heap this] d(1) show ?thesis by (simp add: pool_ok_def P')
qed

section \<open>The workers' steps\<close>

lemma reassign_keeps:
  assumes "state_reassignProcs tpc n P = Ret (tpc', P')"
  shows "pool_same P P'" and "onlineSessions P' = onlineSessions P" and "tp_heap P' = tp_heap P"
  using assms by (auto simp: state_reassignProcs_def Let_def pool_same_def)

lemma resize_keeps [simp]:
  "pool_same P (resize_bounds P)" "onlineSessions (resize_bounds P) = onlineSessions P"
  "tp_heap (resize_bounds P) = tp_heap P"
  by (simp_all add: resize_bounds_def pool_same_def)

lemma clone_same: "state_cloneSessionsMap2Vector P = Ret P' \<Longrightarrow> pool_same P P'"
  by (auto simp: state_cloneSessionsMap2Vector_def)

lemma pick_same:
  assumes "worker_pick sel slot P = Ret (r, P')"
  shows "pool_same P P'"
proof -
  obtain tpc' P1 where r: "state_reassignProcs (tpcfg P) (size_of (onlineSessions (resize_bounds P)))
      (resize_bounds P) = Ret (tpc', P1)"
    using assms by (auto simp: worker_pick_def Let_def simp del: resize_keeps)
  have s1: "pool_same P P1" using pool_same_trans [OF resize_keeps(1) reassign_keeps(1) [OF r]] .
  have clone: "pool_same P P3"
    if "state_cloneSessionsMap2Vector P1 = Ret P2" "state_reassignProcs c n P2 = Ret (c', P3)"
    for P2 P3 c n c'
    using pool_same_trans [OF s1 pool_same_trans [OF clone_same [OF that(1)] reassign_keeps(1) [OF that(2)]]] .
  show ?thesis
    using assms s1 clone unfolding worker_pick_def Let_def r obind.simps prod.case
    by (auto split: list.splits if_splits)
qed

lemma run_same: "worker_run fuel X occ ss P = Some (Ret P') \<Longrightarrow> pool_same P P'"
proof (cases "tp_heap P ss")
  case None
  assume "worker_run fuel X occ ss P = Some (Ret P')"
  with None show ?thesis by (simp add: worker_run_def)
next
  case (Some s)
  assume "worker_run fuel X occ ss P = Some (Ret P')"
  with Some show ?thesis
    by (auto simp: worker_run_def pool_same_def pool_store_def dest!: select_killed split: if_splits)
qed

text \<open>A pull loop takes a prefix of any queue, whatever its configuration.\<close>

lemma queue_pull_splits:
  "queue_pull q = Ret (Some x, q') \<Longrightarrow> itsQ q = x # itsQ q'"
  "queue_pull q = Ret (None, q') \<Longrightarrow> itsQ q' = itsQ q"
  by (auto simp: queue_pull_def queue_pull_take_def split: if_splits list.splits)

lemma pull_upto_splits:
  "pull_upto queue_pull n q = Ret (xs, q') \<Longrightarrow> itsQ q = xs @ itsQ q'"
proof (induction n arbitrary: q xs)
  case 0
  then show ?case by simp
next
  case (Suc n)
  then show ?case by (fastforce dest: queue_pull_splits split: option.splits)
qed

lemma pull_all_splits:
  fixes q :: "('a, 'b) queue_scheme"
  assumes "pull_all queue_pull acc q = Some (xs, q')"
  shows "\<exists>ys. xs = acc @ ys \<and> itsQ q = ys @ itsQ q'"
proof -
  let ?P = "\<lambda>(d :: ('a, 'b) queue_scheme \<Rightarrow> ('a option \<times> ('a, 'b) queue_scheme) outcome) acc q y. d = queue_pull \<longrightarrow>
    (\<exists>ys. fst y = acc @ ys \<and> itsQ q = ys @ itsQ (snd y :: ('a, 'b) queue_scheme))"
  have "?P queue_pull acc q (xs, q')"
  proof (rule pull_all.raw_induct [where P = ?P, OF _ assms], rule impI)
    fix f and d :: "('a, 'b) queue_scheme \<Rightarrow> ('a option \<times> ('a, 'b) queue_scheme) outcome"
      and acc q y
    assume IH: "\<And>d acc q y. f d acc q = Some y \<Longrightarrow> ?P d acc q y" and d: "d = queue_pull"
      and run: "(case d q of Ret (Some x, q') \<Rightarrow> f d (acc @ [x]) q' | Ret (None, q') \<Rightarrow> Some (acc, q')
        | Blocked \<Rightarrow> None | Fault e \<Rightarrow> None) = Some y"
    show "\<exists>ys. fst y = acc @ ys \<and> itsQ q = ys @ itsQ (snd y)"
    proof (cases "queue_pull q")
      case (Ret t)
      obtain r q1 where t: "t = (r, q1)" by (cases t)
      show ?thesis
      proof (cases r)
        case None
        with run Ret t d queue_pull_splits(2) [of q q1] show ?thesis by auto
      next
        case (Some x)
        with run Ret t d have "f d (acc @ [x]) q1 = Some y" by simp
        from IH [OF this] d obtain ys where "fst y = (acc @ [x]) @ ys" "itsQ q1 = ys @ itsQ (snd y)"
          by blast
        with Ret t Some queue_pull_splits(1) [of q x q1] show ?thesis by simp
      qed
    qed (use run d in simp_all)
  qed
  then show ?thesis by simp
qed

lemma dispose_splits:
  assumes "gc_dispose c g = Ret (d, g')"
  obtains ts where "itsQ (killedSessions g) = ts @ itsQ (killedSessions g')"
    and "d_sessions d = filter c ts" and "d_forgotten d = filter (\<lambda>p. \<not> c p) ts"
proof -
  from assms obtain ows q1 wcs q2 ts q3 where
    "pull_upto queue_pull releasing_batch_size (killedSessions g) = Ret (ts, q3)"
    "d = \<lparr>d_data = ows, d_wrappers = wcs, d_sessions = filter c ts, d_forgotten = filter (\<lambda>p. \<not> c p) ts\<rparr>"
    "g' = g\<lparr>userDataCollection := q1, wrapperCollection := q2, killedSessions := q3\<rparr>"
    by (auto simp: gc_dispose_def)
  then show thesis using that [of ts] pull_upto_splits by force
qed

lemma disposeAll_splits:
  assumes "gc_disposeAll c g = Some (d, g')"
  obtains ts where "itsQ (killedSessions g) = ts @ itsQ (killedSessions g')"
    and "d_sessions d = filter c ts" and "d_forgotten d = filter (\<lambda>p. \<not> c p) ts"
proof -
  from assms obtain ows q1 wcs q2 ts q3 where
    "pull_all queue_pull [] (killedSessions g) = Some (ts, q3)"
    "d = \<lparr>d_data = ows, d_wrappers = wcs, d_sessions = filter c ts, d_forgotten = filter (\<lambda>p. \<not> c p) ts\<rparr>"
    "g' = g\<lparr>userDataCollection := q1, wrapperCollection := q2, killedSessions := q3\<rparr>"
    by (auto simp: gc_disposeAll_def bind_eq_Some_conv)
  then show thesis using that [of ts] pull_all_splits by force
qed

text \<open>What a round takes out is deleted if cancelled, and forgotten otherwise.\<close>

lemma delete_sessions_ok:
  assumes ok: "pool_ok P" and ts: "killed P = ts @ itsQ (killedSessions g)"
    and d: "d_sessions d = filter c ts" "d_forgotten d = filter (\<lambda>p. \<not> c p) ts"
    and P': "delete_sessions d (P\<lparr>tp_gc := g\<rparr>) = Ret P'"
  shows "pool_ok P'"
proof -
  have heap: "heap_ok (session_ptrs P @ ts @ itsQ (killedSessions g)) (tp_heap P) (tp_next P)"
    using ok ts by (simp add: pool_ok_def)
  then have "heap_ok (session_ptrs P @ itsQ (killedSessions g))
      (\<lambda>p. if p \<in> set (d_sessions d) then None else tp_heap P p) (tp_next P)"
    by (rule heap_ok_delete) (use heap d in \<open>auto simp: heap_ok_def\<close>)
  moreover have "P' = P\<lparr>tp_gc := g, tp_heap := (\<lambda>p. if p \<in> set (d_sessions d) then None else tp_heap P p)\<rparr>"
    using P' by (auto simp: delete_sessions_def split: if_splits cong: if_cong)
  ultimately show ?thesis using ok by (simp add: pool_ok_def)
qed

lemma collect_ok:
  assumes "pool_ok P" and "worker_collect P = Ret P'"
  shows "pool_ok P'"
proof (cases "gc_active (tp_gc P)")
  case True
  with assms show ?thesis by (simp add: worker_collect_def)
next
  case False
  with assms(2) obtain d g where d: "gc_dispose (ptr_cancelled P) (tp_gc P) = Ret (d, g)"
    "delete_sessions d (P\<lparr>tp_gc := g\<rparr>) = Ret P'"
    by (auto simp: worker_collect_def)
  from dispose_splits [OF d(1)] delete_sessions_ok [OF assms(1) _ _ _ d(2)] show ?thesis by metis
qed

lemma complete_ok:
  assumes "pool_ok P" and "worker_complete P = Ret P'"
  shows "pool_ok P'"
proof -
  let ?P = "P\<lparr>shutdownComplete := True\<rparr>"
  from assms(2) obtain d g where d: "gc_disposeAll (ptr_cancelled P) (tp_gc P) = Some (d, g)"
    "delete_sessions d (?P\<lparr>tp_gc := g\<rparr>) = Ret P'"
    by (auto simp: worker_complete_def returns_def split: option.splits)
  have "pool_ok ?P" "killed ?P = killed P" using assms(1) by (simp_all add: pool_ok_def)
  with disposeAll_splits [OF d(1)] delete_sessions_ok [OF _ _ _ _ d(2)] show ?thesis by metis
qed

lemma worker_step_ok:
  assumes "pool_ok P" and "tworker_step fuel X occ i (w, P) = Some (Ret (w', P'))"
  shows "pool_ok P'"
proof (cases "w_pc w")
  case W_top
  with assms show ?thesis by simp
next
  case W_collect
  with assms collect_ok [of P] show ?thesis by auto
next
  case W_pick
  with assms show ?thesis by (auto dest!: pick_same simp: pool_same_ok)
next
  case (W_run p)
  with assms(2) obtain res where "worker_run fuel X occ p P = Some res"
    "obind res (\<lambda>P'. Ret (w\<lparr>w_pc := W_top\<rparr>, P')) = Ret (w', P')"
    by auto
  with assms(1) show ?thesis by (auto dest!: run_same simp: pool_same_ok)
next
  case W_count
  with assms show ?thesis by (auto simp: pool_ok_def)
next
  case W_check
  with assms show ?thesis by simp
next
  case W_complete
  with assms complete_ok [of P] show ?thesis by auto
next
  case W_notify
  with assms show ?thesis by simp
next
  case W_done
  with assms show ?thesis by simp
qed

lemma pool_apply_ok:
  assumes "pool_ok P" and "pool_apply c P = Ret P'"
  shows "pool_ok P'"
proof (cases "(\<exists>cb occ sp. c = Create cb occ sp) \<or> (\<exists>i. c = Cancel i)")
  case True
  with assms create_ok cancel_ok show ?thesis by fastforce
next
  case False
  then have "pool_same P P'" using pool_apply_same [OF assms(2)] by blast
  with assms(1) pool_same_ok show ?thesis by blast
qed

lemma new_pool_ok: "new_pool n = Ret (k, P) \<Longrightarrow> pool_ok P"
  by (auto simp: new_pool_def pool_createThreads_def Let_def new_state_def new_sched_def
      sched.extend_def pool_ok_def heap_ok_def new_gc_def split: if_splits)

interpretation pool_invariant: invariant sys_start "sys_step X" "\<lambda>S. pool_ok (snd S)"
proof (unfold_locales, goal_cases)
  case (1 S)
  then show ?case by (auto simp: sys_start_def new_pool_ok)
next
  case (2 S S')
  then show ?case by (auto elim!: sys_stepE intro: pool_apply_ok worker_step_ok)
qed

lemmas reachable_ok = pool_invariant.reachable_inv

end
