(* ===== verification/Threadpool_Correct.thy ===== *)
theory Threadpool_Correct
  imports Threadpool_Inv ComposingSession_Data
begin

text \<open>
  What the pool does when a session is created and paused, and how a worker chooses a session: the
  facts on creation, collection and choice that the theories on the workers use.
\<close>

section \<open>Creation\<close>

definition demo_params :: "('p, 'x) session_params" where
  "demo_params = new_session_params\<lparr>sp_sessionName := ''demo'', sp_routines := [lambda_unit id],
     sp_rpML := AFK_RUN_METHOD_ONLY, sp_autodelete := True,
     sp_summaryRoutine := Some (pure_routine id), sp_cancellationRoutine := Some 9\<rparr>"

text \<open>The setters leave everything else as it was.\<close>

lemma session_setSummary_frame [simp]:
  "s_cblk (snd (session_setSummary x s)) = s_cblk s"
  "routinesHnds (snd (session_setSummary x s)) = routinesHnds s"
  "hotRoutR (snd (session_setSummary x s)) = hotRoutR s"
  "hotRoutW (snd (session_setSummary x s)) = hotRoutW s"
  "routinesHndReload (snd (session_setSummary x s)) = routinesHndReload s"
  "runprioML (snd (session_setSummary x s)) = runprioML s"
  "queueZero (snd (session_setSummary x s)) = queueZero s"
  "busyCount (snd (session_setSummary x s)) = busyCount s"
  "s_cancelled (snd (session_setSummary x s)) = s_cancelled s"
  "dataQueues (snd (session_setSummary x s)) = dataQueues s"
  "s_paused (snd (session_setSummary x s)) = s_paused s"
  "s_isStopped (snd (session_setSummary x s)) = s_isStopped s"
  "s_autodelete (snd (session_setSummary x s)) = s_autodelete s"
  by (simp_all add: session_setSummary_def split: option.split)

lemma session_setCancellationHandler_frame [simp]:
  "s_cblk (snd (session_setCancellationHandler x s)) = s_cblk s"
  "routinesHnds (snd (session_setCancellationHandler x s)) = routinesHnds s"
  "hotRoutR (snd (session_setCancellationHandler x s)) = hotRoutR s"
  "hotRoutW (snd (session_setCancellationHandler x s)) = hotRoutW s"
  "routinesHndReload (snd (session_setCancellationHandler x s)) = routinesHndReload s"
  "runprioML (snd (session_setCancellationHandler x s)) = runprioML s"
  "queueZero (snd (session_setCancellationHandler x s)) = queueZero s"
  "busyCount (snd (session_setCancellationHandler x s)) = busyCount s"
  "s_cancelled (snd (session_setCancellationHandler x s)) = s_cancelled s"
  "dataQueues (snd (session_setCancellationHandler x s)) = dataQueues s"
  "s_paused (snd (session_setCancellationHandler x s)) = s_paused s"
  "s_isStopped (snd (session_setCancellationHandler x s)) = s_isStopped s"
  "s_autodelete (snd (session_setCancellationHandler x s)) = s_autodelete s"
  by (simp_all add: session_setCancellationHandler_def split: option.split)

lemma session_setInternalCancellationHandler_frame [simp]:
  "s_cblk (session_setInternalCancellationHandler x s) = s_cblk s"
  "routinesHnds (session_setInternalCancellationHandler x s) = routinesHnds s"
  "hotRoutR (session_setInternalCancellationHandler x s) = hotRoutR s"
  "hotRoutW (session_setInternalCancellationHandler x s) = hotRoutW s"
  "routinesHndReload (session_setInternalCancellationHandler x s) = routinesHndReload s"
  "runprioML (session_setInternalCancellationHandler x s) = runprioML s"
  "queueZero (session_setInternalCancellationHandler x s) = queueZero s"
  "busyCount (session_setInternalCancellationHandler x s) = busyCount s"
  "s_cancelled (session_setInternalCancellationHandler x s) = s_cancelled s"
  "dataQueues (session_setInternalCancellationHandler x s) = dataQueues s"
  "s_paused (session_setInternalCancellationHandler x s) = s_paused s"
  "s_isStopped (session_setInternalCancellationHandler x s) = s_isStopped s"
  "s_autodelete (session_setInternalCancellationHandler x s) = s_autodelete s"
  by (simp_all add: session_setInternalCancellationHandler_def split: option.split)

lemma session_setExpirationSummary_frame [simp]:
  "s_cblk (snd (session_setExpirationSummary x s)) = s_cblk s"
  "routinesHnds (snd (session_setExpirationSummary x s)) = routinesHnds s"
  "hotRoutR (snd (session_setExpirationSummary x s)) = hotRoutR s"
  "hotRoutW (snd (session_setExpirationSummary x s)) = hotRoutW s"
  "routinesHndReload (snd (session_setExpirationSummary x s)) = routinesHndReload s"
  "runprioML (snd (session_setExpirationSummary x s)) = runprioML s"
  "queueZero (snd (session_setExpirationSummary x s)) = queueZero s"
  "busyCount (snd (session_setExpirationSummary x s)) = busyCount s"
  "s_cancelled (snd (session_setExpirationSummary x s)) = s_cancelled s"
  "dataQueues (snd (session_setExpirationSummary x s)) = dataQueues s"
  "s_paused (snd (session_setExpirationSummary x s)) = s_paused s"
  "s_isStopped (snd (session_setExpirationSummary x s)) = s_isStopped s"
  "s_autodelete (snd (session_setExpirationSummary x s)) = s_autodelete s"
  by (simp_all add: session_setExpirationSummary_def split: option.split)

lemma session_setExpirationCondition_frame [simp]:
  "s_cblk (session_setExpirationCondition x s) = s_cblk s"
  "routinesHnds (session_setExpirationCondition x s) = routinesHnds s"
  "hotRoutR (session_setExpirationCondition x s) = hotRoutR s"
  "hotRoutW (session_setExpirationCondition x s) = hotRoutW s"
  "routinesHndReload (session_setExpirationCondition x s) = routinesHndReload s"
  "runprioML (session_setExpirationCondition x s) = runprioML s"
  "queueZero (session_setExpirationCondition x s) = queueZero s"
  "busyCount (session_setExpirationCondition x s) = busyCount s"
  "s_cancelled (session_setExpirationCondition x s) = s_cancelled s"
  "dataQueues (session_setExpirationCondition x s) = dataQueues s"
  "s_paused (session_setExpirationCondition x s) = s_paused s"
  "s_isStopped (session_setExpirationCondition x s) = s_isStopped s"
  "s_autodelete (session_setExpirationCondition x s) = s_autodelete s"
  by (simp_all add: session_setExpirationCondition_def split: option.split)

lemma session_setProgressRoutine_frame [simp]:
  "routinesHnds (snd (session_setProgressRoutine x s)) = routinesHnds s"
  "hotRoutR (snd (session_setProgressRoutine x s)) = hotRoutR s"
  "hotRoutW (snd (session_setProgressRoutine x s)) = hotRoutW s"
  "routinesHndReload (snd (session_setProgressRoutine x s)) = routinesHndReload s"
  "runprioML (snd (session_setProgressRoutine x s)) = runprioML s"
  "queueZero (snd (session_setProgressRoutine x s)) = queueZero s"
  "busyCount (snd (session_setProgressRoutine x s)) = busyCount s"
  "s_cancelled (snd (session_setProgressRoutine x s)) = s_cancelled s"
  "dataQueues (snd (session_setProgressRoutine x s)) = dataQueues s"
  "s_paused (snd (session_setProgressRoutine x s)) = s_paused s"
  "s_isStopped (snd (session_setProgressRoutine x s)) = s_isStopped s"
  "s_autodelete (snd (session_setProgressRoutine x s)) = s_autodelete s"
  "cb_getSessionId (s_cblk (snd (session_setProgressRoutine x s))) = cb_getSessionId (s_cblk s)"
  "cb_flushed (s_cblk (snd (session_setProgressRoutine x s))) = cb_flushed (s_cblk s)"
  "abortByCallback (s_cblk (snd (session_setProgressRoutine x s))) = abortByCallback (s_cblk s)"
  "abortByCaller (s_cblk (snd (session_setProgressRoutine x s))) = abortByCaller (s_cblk s)"
  by (simp_all add: session_setProgressRoutine_def cb_setProgressRoutine_def cb_getSessionId_def
      split: option.split)

lemma new_csession_fields [simp]:
  "s_cblk (new_csession mode on ad name cb occ) = cb"
  "routinesHnds (new_csession mode on ad name cb occ) = [[], []]"
  "hotRoutR (new_csession mode on ad name cb occ) = 1"
  "hotRoutW (new_csession mode on ad name cb occ) = 0"
  "runprioML (new_csession mode on ad name cb occ) = AFK_RUN_LAMBDA_ONLY"
  "queueZero (new_csession mode on ad name cb occ) = new_tqueue occ"
  "busyCount (new_csession mode on ad name cb occ) = 0"
  "s_cancelled (new_csession mode on ad name cb occ) = False"
  "s_paused (new_csession mode on ad name cb occ) = False"
  "s_isStopped (new_csession mode on ad name cb occ) = False"
  by (simp_all add: new_csession_def session.extend_def new_session_def)

lemma configured_slots:
  fixes sp :: "('p, 'x) session_params"
  assumes "s = pool_configure sp (new_csession mode on ad name cb occ)"
  shows "routinesHnds s = [sp_routines sp, []]" and "hotRoutR s = 1" and "hotRoutW s = 0"
    and "routinesHndReload s" and "runprioML s = AFK_RUN_LAMBDA_ONLY"
    and "queueZero s = new_tqueue occ" and "busyCount s = 0"
    and "cb_getSessionId (s_cblk s) = cb_getSessionId cb" and "cb_flushed (s_cblk s) = cb_flushed cb"
    and "abortByCallback (s_cblk s) = abortByCallback cb" and "abortByCaller (s_cblk s) = abortByCaller cb"
    and "\<not> s_cancelled s" and "\<not> s_paused s" and "\<not> s_isStopped s"
  unfolding assms
  by (simp_all add: pool_configure_def Let_def composing_setRoutines_def session_setRoutines_raw_def)

lemma configure_cblk [simp]:
  "session_sid (pool_configure sp (new_csession mode on ad name cb occ)) = cb_getSessionId cb"
  by (simp add: session_sid_def configured_slots(8) [OF refl])

text \<open>
  C30: Creation registers a session or changes nothing that counts. With an identifier that is not
  in use, \<open>createComposingSession\<close> gives it back; the session is found under it, is put last among
  the online ones, and will use the routines of the parameters from its first swap on (called as
  lambdas, whatever priority the parameters ask for). But it has no queue yet, so that an object
  cast to it at once is refused. With an identifier in use, the result is the invalid identifier
  0 and the registered and the online sessions are as before.
\<close>

theorem create_registers:
  "if map_of (allSessions P) (cb_getSessionId cb) = None
   then (\<exists>P' s P''. pool_createComposingSession cb occ (Some sp) P = Ret (cb_getSessionId cb, P') \<and>
     pool_getThreadpoolSessionWithId (cb_getSessionId cb) P' = Some (tp_next P) \<and>
     onlineSessions P' = onlineSessions P @ [tp_next P] \<and> tp_heap P' (tp_next P) = Some s \<and>
     (case session_switchRoutinesHandlers s of
        ((switched, i), s') \<Rightarrow> switched \<and> routinesHnds s' ! unat i = sp_routines sp) \<and>
     runprioML s = AFK_RUN_LAMBDA_ONLY \<and> dataQueues s = [] \<and>
     pool_castObjectForSession (cb_getSessionId cb) d P' = Ret (False, P''))
   else (\<exists>P'. pool_createComposingSession cb occ (Some sp) P = Ret (new_num_id, P') \<and>
     allSessions P' = allSessions P \<and> onlineSessions P' = onlineSessions P)"
proof (cases rule: create_cases [where P = P and sp = sp and cb = cb and occ = occ])
  case (fresh s')
  define s where "s = pool_configure sp (new_csession (sp_blockCallMode sp) True (sp_autodelete sp)
    (sp_sessionName sp) cb occ)"
  note slots = configured_slots [OF s_def]
  have s': "s' = s\<lparr>dataQueues := []\<rparr>"
    using fresh(2) slots
    by (simp add: composing_deploy_def composing_reconfigureDataqueues_def flip: s_def)
  have sw: "case session_switchRoutinesHandlers s' of
      ((switched, i), s') \<Rightarrow> switched \<and> routinesHnds s' ! unat i = sp_routines sp"
    using slots by (simp add: s' session_switchRoutinesHandlers_def Let_def)
  define P' where "P' = P\<lparr>allSessions := allSessions P @ [(cb_getSessionId cb, tp_next P)],
      onlineSessions := onlineSessions P @ [tp_next P],
      tp_heap := (tp_heap P)(tp_next P := Some s'), tp_next := Suc (tp_next P)\<rparr>"
  have P': "pool_createComposingSession cb occ (Some sp) P = Ret (cb_getSessionId cb, P')"
    using fresh(3) by (simp add: P'_def)
  have find: "map_of (allSessions P') (cb_getSessionId cb) = Some (tp_next P)"
    using fresh(1) by (simp add: P'_def map_add_def)
  have "\<exists>s''. composing_postData d s' = (False, s'')" by (simp add: composing_postData_def s')
  then have "\<exists>P''. pool_castObjectForSession (cb_getSessionId cb) d P' = Ret (False, P'')"
    using find by (auto simp: pool_castObjectForSession_def pool_postData_def pool_with_def
        pool_deref_def P'_def)
  then show ?thesis
    using fresh(1) P' find sw slots(5)
    by (auto simp: pool_getThreadpoolSessionWithId_def P'_def s')
next
  case clash
  then show ?thesis by auto
qed

section \<open>Pausing\<close>

text \<open>
  The number of paused sessions counts calls. After \<open>n\<close> pauses of one session it is
  higher by \<open>n\<close>, although one session is paused at most, and after a single \<open>resumeSession\<close> the
  session is running while the count is still higher by \<open>n - 1\<close>.
\<close>

lemma paused_count_drifts:
  assumes "map_of (allSessions P) i = Some p" and "tp_heap P p = Some s" and "0 < n"
  shows "\<exists>P1 P2. ((\<lambda>m. obind m (\<lambda>P. effect (pool_pauseSession i P))) ^^ n) (Ret P) = Ret P1 \<and>
     pool_pausedSessionsCount P1 = pool_pausedSessionsCount P + word_of_nat n \<and>
     pool_resumeSession i P1 = Ret (True, P2) \<and>
     pool_isPausedSession i P2 = Ret (False, P2) \<and>
     pool_pausedSessionsCount P2 = pool_pausedSessionsCount P + word_of_nat n - 1"
proof -
  have pause: "effect (pool_pauseSession i Q) = Ret ((pool_store p (session_pause s) Q)
      \<lparr>countPaused := countPaused Q + 1\<rparr>)"
    if "map_of (allSessions Q) i = Some p" "tp_heap Q p = Some s" for Q and s :: "('a, 'b) csession"
    using that by (simp add: effect_def pool_pauseSession_def pool_with_def pool_deref_def pool_store_def)
  have "\<exists>P1 s1. ((\<lambda>m. obind m (\<lambda>P. effect (pool_pauseSession i P))) ^^ n) (Ret P) = Ret P1 \<and>
      allSessions P1 = allSessions P \<and> tp_heap P1 p = Some s1 \<and>
      countPaused P1 = countPaused P + word_of_nat n"
  proof (induction n)
    case 0
    then show ?case using assms(2) by simp
  next
    case (Suc n)
    then obtain P1 s1 where "((\<lambda>m. obind m (\<lambda>P. effect (pool_pauseSession i P))) ^^ n) (Ret P) = Ret P1"
      "allSessions P1 = allSessions P" "tp_heap P1 p = Some s1"
      "countPaused P1 = countPaused P + word_of_nat n" by auto
    with pause [of P1 s1] assms(1) show ?case by (auto simp: pool_store_def algebra_simps)
  qed
  then obtain P1 s1 where P1: "((\<lambda>m. obind m (\<lambda>P. effect (pool_pauseSession i P))) ^^ n) (Ret P) = Ret P1"
    "allSessions P1 = allSessions P" "tp_heap P1 p = Some s1"
    "countPaused P1 = countPaused P + word_of_nat n" by auto
  define P2 where "P2 = (pool_store p (session_resume s1) P1)\<lparr>countPaused := countPaused P1 - 1\<rparr>"
  have "pool_resumeSession i P1 = Ret (True, P2)"
    using P1(2,3) assms(1)
    by (simp add: pool_resumeSession_def pool_with_def pool_deref_def pool_store_def P2_def)
  moreover have "pool_isPausedSession i P2 = Ret (False, P2)"
    using P1(2) assms(1)
    by (simp add: pool_isPausedSession_def pool_with_def pool_deref_def pool_store_def P2_def
        session_resume_def session_isPaused_def)
  ultimately show ?thesis
    using P1(1,4) by (simp add: pool_pausedSessionsCount_def P2_def pool_store_def)
qed

text \<open>A pool with one registered session at address 0, for the examples.\<close>

definition demo_pool :: "('p, 'x) csession \<Rightarrow> ('p, 'x) pool" where
  "demo_pool s = new_state\<lparr>allSessions := [(NumId 7, 0)], onlineSessions := [0], tp_heap := (\<lambda>_. None)(0 := Some s),
     tp_next := 1, numCPUs := 2, tpcfg := \<lparr>tp_share = 1, tp_residue = 0, actualThreadsCount = 2,
       requiredThreadsCount = 2\<rparr>\<rparr>"

lemma demo_pool_fields [simp]:
  "allSessions (demo_pool s) = [(NumId 7, 0)]" "onlineSessions (demo_pool s) = [0]"
  "tp_heap (demo_pool s) = (\<lambda>_. None)(0 := Some s)" "tp_next (demo_pool s) = 1"
  "tp_gc (demo_pool s) = new_gc" "countPaused (demo_pool s) = 0" "numCPUs (demo_pool s) = 2"
  "actualThreadsCount (tpcfg (demo_pool s)) = 2" "requiredThreadsCount (tpcfg (demo_pool s)) = 2"
  "killed (demo_pool s) = []" "tp_events (demo_pool s) = []"
  by (simp_all add: demo_pool_def new_state_def sched.extend_def new_sched_def new_gc_def)

lemma demo_pool_ok: "pool_ok (demo_pool s)"
  by (simp add: pool_ok_def heap_ok_def new_gc_def)

section \<open>The choice of a session\<close>

text \<open>A configuration with processors and a request, as \<open>createThreads\<close> leaves it.\<close>

definition scheduled :: "('p, 'x) pool \<Rightarrow> bool" where
  "scheduled P \<longleftrightarrow> numCPUs P \<noteq> 0 \<and> actualThreadsCount (tpcfg P) = ucast (numCPUs P) \<and>
     0 < sint (requiredThreadsCount (tpcfg P)) \<and> sint (requiredThreadsCount (tpcfg P)) < 2 ^ 62"

lemma word_nat_unat: "w = word_of_nat (unat w)"
  by simp

lemma reassign_fields:
  assumes "state_reassignProcs tpc n P = Ret (tpc', P')"
  shows "\<exists>vs. P' = P\<lparr>tpcfg := (tpcfg P)\<lparr>requiredThreadsCount := n\<rparr>, vectProc2Bounds := vs\<rparr>"
  using assms by (auto simp: state_reassignProcs_def Let_def)

lemma scheduled_reassign:
  assumes "scheduled P"
  obtains tpc' tcr rest where
    "state_reassignProcs (tpcfg P) n (resize_bounds P) =
       Ret (tpc', P\<lparr>tpcfg := (tpcfg P)\<lparr>requiredThreadsCount := n\<rparr>, vectProc2Bounds := tcr # rest\<rparr>)" and "rangeLength tcr \<noteq> 0"
proof -
  let ?m = "unat (requiredThreadsCount (tpcfg P))" and ?n = "unat (numCPUs P)"
  let ?R = "resize_bounds P"
  have "uint (requiredThreadsCount (tpcfg P)) = sint (requiredThreadsCount (tpcfg P))"
    using assms by (intro uint_eq_sint) (simp add: scheduled_def)
  then have u: "0 < uint (requiredThreadsCount (tpcfg P))" "uint (requiredThreadsCount (tpcfg P)) < 2 ^ 62"
    using assms by (simp_all add: scheduled_def)
  have m: "0 < ?m" "?m < 2 ^ 62"
    using u word_less_nat_alt [of 0 "requiredThreadsCount (tpcfg P)"]
      word_less_nat_alt [of "requiredThreadsCount (tpcfg P)" "2 ^ 62"]
    by (simp_all add: word_less_def)
  have n: "0 < ?n" "?n < 2 ^ 16"
    using assms unsigned_less [of "numCPUs P"] by (simp_all add: scheduled_def unat_gt_0)
  have "unat (actualThreadsCount (tpcfg P)) = ?n"
    using n(2) assms by (simp add: scheduled_def unsigned_ucast_eq take_bit_nat_eq_self)
  moreover have "unat (size_of xs) \<le> length xs" for xs :: "tp_range list"
    by (simp add: size_of_def unat_of_nat)
  ultimately have len: "?n \<le> length (vectProc2Bounds ?R)"
    by (simp add: resize_bounds_def) metis
  have req: "requiredThreadsCount (tpcfg P) = word_of_nat ?m" "numCPUs ?R = word_of_nat ?n"
    by (simp_all add: resize_bounds_def)
  obtain tpc' P1 where r: "state_reassignProcs (tpcfg P) n ?R = Ret (tpc', P1)"
    "set (bounds_slots ?n (vectProc2Bounds P1)) = {0..<?m}"
    "if ?n \<le> ?m then bounds_slots ?n (vectProc2Bounds P1) = [0..<?m] \<and>
        (\<forall>r \<in> set (take ?n (vectProc2Bounds P1)).
           unat (rangeLength r) = ?m div ?n \<or> unat (rangeLength r) = ?m div ?n + 1)
      else \<forall>r \<in> set (take ?n (vectProc2Bounds P1)). unat (rangeLength r) = 1"
    using reassign_shares [OF req(1) m req(2) n len, of n] by blast
  from r(2) m(1) obtain tcr rest where vs: "vectProc2Bounds P1 = tcr # rest"
    by (cases "vectProc2Bounds P1") (auto simp: bounds_slots_def)
  with n(1) have "tcr \<in> set (take ?n (vectProc2Bounds P1))" by (cases ?n) auto
  then have "unat (rangeLength tcr) \<noteq> 0"
    using r(3) n(1) by (auto simp: div_greater_zero_iff split: if_splits)
  then have nz: "rangeLength tcr \<noteq> 0" by auto
  from reassign_fields [OF r(1)]
  have "P1 = P\<lparr>tpcfg := (tpcfg P)\<lparr>requiredThreadsCount := n\<rparr>, vectProc2Bounds := tcr # rest\<rparr>"
    using vs by (auto simp: resize_bounds_def split: if_splits)
  with that [OF _ nz] r(1) show thesis by blast
qed

text \<open>What a scheduled worker does: it looks at the session at its own position.\<close>

definition with_bounds :: "tp_range list \<Rightarrow> ('p, 'x) pool \<Rightarrow> ('p, 'x) pool" where
  "with_bounds vs P = P\<lparr>tpcfg := (tpcfg P)\<lparr>requiredThreadsCount := size_of (onlineSessions P)\<rparr>,
     vectProc2Bounds := vs\<rparr>"

lemma with_bounds_frame [simp]:
  "allSessions (with_bounds vs P) = allSessions P" "onlineSessions (with_bounds vs P) = onlineSessions P"
  "tp_gc (with_bounds vs P) = tp_gc P" "tp_heap (with_bounds vs P) = tp_heap P"
  "tp_next (with_bounds vs P) = tp_next P" "toShutdown (with_bounds vs P) = toShutdown P"
  "tp_events (with_bounds vs P) = tp_events P" "pool_ok (with_bounds vs P) = pool_ok P"
  "pool_deref p (with_bounds vs P) = pool_deref p P"
  by (simp_all add: with_bounds_def pool_ok_def pool_deref_def)

lemma scheduled_with_bounds:
  "scheduled P \<Longrightarrow> onlineSessions P \<noteq> [] \<Longrightarrow> length (onlineSessions P) < 2 ^ 62 \<Longrightarrow>
   scheduled (with_bounds vs P)"
  using sint_size_of [of "onlineSessions P"] by (simp add: scheduled_def with_bounds_def)

lemma pick_scheduled:
  assumes "scheduled P" and "sel < length (onlineSessions P)"
  obtains slot' vs where
    "worker_pick sel slot P =
      obind (pool_deref (onlineSessions P ! sel) P) (\<lambda>s.
        if session_cancellationRequested s
        then obind (state_cloneSessionsMap2Vector (with_bounds vs P)) (\<lambda>P2.
               obind (state_reassignProcs (tpcfg (with_bounds vs P)) (size_of (onlineSessions P2)) P2)
                 (\<lambda>(_, P3). Ret ((slot', None), P3)))
        else Ret ((slot', Some (onlineSessions P ! sel)), with_bounds vs P))"
proof -
  obtain tpc' tcr rest where r: "state_reassignProcs (tpcfg P) (size_of (onlineSessions P)) (resize_bounds P) =
       Ret (tpc', P\<lparr>tpcfg := (tpcfg P)\<lparr>requiredThreadsCount := size_of (onlineSessions P)\<rparr>,
         vectProc2Bounds := tcr # rest\<rparr>)" and nz: "rangeLength tcr \<noteq> 0"
    by (rule scheduled_reassign [OF assms(1)])
  have wb: "with_bounds (tcr # rest) P = P\<lparr>tpcfg := (tpcfg P)\<lparr>requiredThreadsCount := size_of (onlineSessions P)\<rparr>,
         vectProc2Bounds := tcr # rest\<rparr>" by (simp add: with_bounds_def)
  have vs: "vectProc2Bounds (with_bounds (tcr # rest) P) = tcr # rest" by (simp add: with_bounds_def)
  have ne: "onlineSessions P \<noteq> []" using assms(2) by auto
  show thesis
    by (rule that [of "tcr # rest" "next_slot tcr slot"])
      (use assms(2) nz ne vs in \<open>simp add: worker_pick_def Let_def r flip: wb\<close>)
qed

lemma collect_runs:
  assumes "pool_ok P" and "gc_open (tp_gc P)" and "\<not> gc_active (tp_gc P)"
  obtains g where
    "worker_collect P = Ret (P\<lparr>tp_gc := g,
       tp_heap := (\<lambda>p. if p \<in> set (take 1000 (killed P)) \<and> ptr_cancelled P p then None else tp_heap P p)\<rparr>)"
    "gc_open g" "\<not> gc_active g" "itsQ (killedSessions g) = drop 1000 (killed P)"
proof -
  from gc_dispose_eq [OF assms(2), of "ptr_cancelled P"] obtain g where
    g: "gc_dispose (ptr_cancelled P) (tp_gc P) = Ret
      (\<lparr>d_data = take 1000 (gc_data (tp_gc P)), d_wrappers = take 1000 (itsQ (wrapperCollection (tp_gc P))),
        d_sessions = filter (ptr_cancelled P) (take 1000 (killed P)),
        d_forgotten = filter (\<lambda>s. \<not> ptr_cancelled P s) (take 1000 (killed P))\<rparr>, g)"
    "gc_open g" "gc_active g = gc_active (tp_gc P)" "itsQ (killedSessions g) = drop 1000 (killed P)"
    by blast
  have live: "\<forall>p \<in> set (take 1000 (killed P)). tp_heap P p \<noteq> None"
    using pool_ok_live [OF assms(1)] by (auto dest: in_set_takeD)
  show thesis
    by (rule that [OF _ g(2) _ g(4)])
      (use g(1,3) assms(3) live in \<open>auto simp: worker_collect_def delete_sessions_def cong: if_cong\<close>)
qed

lemma collect_then_pick_faults:
  assumes "pool_ok P" and "scheduled P" and "gc_open (tp_gc P)" and "\<not> gc_active (tp_gc P)"
    and "sel < length (onlineSessions P)" and "onlineSessions P ! sel \<in> set (take 1000 (killed P))"
    and "ptr_cancelled P (onlineSessions P ! sel)"
  shows "\<exists>P'. worker_collect P = Ret P' \<and> worker_pick sel slot P' = Fault Use_after_free"
proof -
  obtain g where g: "worker_collect P = Ret (P\<lparr>tp_gc := g,
       tp_heap := (\<lambda>p. if p \<in> set (take 1000 (killed P)) \<and> ptr_cancelled P p then None else tp_heap P p)\<rparr>)"
    (is "_ = Ret ?P'")
    by (rule collect_runs [OF assms(1,3,4)])
  have s: "scheduled ?P'" "sel < length (onlineSessions ?P')" using assms(2,5) by (simp_all add: scheduled_def)
  have "worker_pick sel slot ?P' = Fault Use_after_free"
    by (rule pick_scheduled [OF s, of slot]) (use assms(6,7) in \<open>simp add: pool_deref_def\<close>)
  with g show ?thesis by blast
qed

end
