(* ===== verification/Session_Types.thy ===== *)
theory Session_Types
  imports ComposingSession
begin

text \<open>
  The type of a session: what holds of its state whatever its users' routines do. The slots of
  the handlers are in range, the queues are in their default configuration and their counters
  agree with what they hold, the internal handler is set. No bound on sizes is needed. Select_Types
  shows that \<open>select\<close> keeps it.

  The predicate carries three parameters: \<open>full\<close> says that all execution units have their
  routine, \<open>occs\<close> which occupants the queues may have besides -1, and \<open>n\<close> bounds the number of
  items, so that the same lemmas show that \<open>select\<close> ends.
\<close>

section \<open>Queues\<close>

definition bq_typed :: "('a, 'z) bqueue_scheme \<Rightarrow> bool" where
  "bq_typed q \<longleftrightarrow> minQSize q = 0 \<and> \<not> q_blockingR q \<and> \<not> q_blockingW q \<and>
     netCount q = size_of (bq_contents q)"

lemma bq_typed_clear [simp]: "bq_typed (bq_clearRelaxQ q) = bq_typed q"
  by (simp add: bq_typed_def)

lemma bq_typed_new [simp]: "bq_typed new_bqueue"
  by (simp add: bq_typed_def new_bqueue_def bq_reset_state_def bq_contents_def bq_clearRelaxQ_def)

lemma bq_typed_cast: "bq_typed q \<Longrightarrow> bq_typed (snd (bq_castObject x q))"
  by (auto simp: bq_typed_def bq_castObject_def push_wrap_def Let_def bq_contents_def
      size_of_append size_of_Cons)

interpretation bqt: settling bq_pull "\<lambda>q. length (bq_contents q)" bq_typed
proof (unfold_locales, goal_cases)
  case (1 q)
  let ?c = "bq_clearRelaxQ q"
  consider (none) "bq_pull q = Ret (None, ?c)"
    | (take) w ws x xs where "itsBQ q = w # ws" "w_many w = x # xs" "\<not> q_paused q"
        "0 < sint (netCount q)"
  proof (cases "\<not> q_paused q \<and> 0 < sint (netCount q)")
    case True
    with 1 obtain w ws where w: "itsBQ q = w # ws"
      by (cases "itsBQ q") (auto simp: bq_typed_def bq_contents_def)
    show thesis
    proof (cases "w_many w")
      case Nil
      with w True 1 none show thesis by (simp add: bq_pull_def Let_def bq_typed_def)
    next
      case (Cons x xs)
      with w True take show thesis by blast
    qed
  next
    case False
    with 1 none show thesis by (auto simp: bq_pull_def Let_def bq_typed_def)
  qed
  then show ?case
  proof cases
    case none
    with 1 show ?thesis by simp
  next
    case take
    with 1 show ?thesis
      by (auto simp: bq_pull_def Let_def bq_typed_def bq_contents_def bq_sendToRelaxation_def
          size_of_append size_of_Cons)
  qed
qed

definition hyb_typed :: "i64 set \<Rightarrow> 'p hyb \<Rightarrow> bool" where
  "hyb_typed occs h \<longleftrightarrow> bq_typed (regQ h) \<and> blk_idle h \<and> occupant h \<in> insert (- 1) occs"

abbreviation hyb_items :: "'p hyb \<Rightarrow> nat" where
  "hyb_items h \<equiv> length (hyb_data h)"

lemma hyb_typed_frame [simp]:
  "hyb_typed occs (h\<lparr>lastItem := l\<rparr>) = hyb_typed occs h" "hyb_typed occs (h\<lparr>qmapper := m\<rparr>) = hyb_typed occs h"
  "hyb_typed occs (h\<lparr>deqIndexes := d\<rparr>) = hyb_typed occs h" "hyb_data (h\<lparr>qmapper := m\<rparr>) = hyb_data h"
  "hyb_data (h\<lparr>deqIndexes := d\<rparr>) = hyb_data h"
  by (simp_all add: hyb_typed_def hyb_data_def blk_idle_def)

lemma hyb_typed_occupant [simp]:
  "hyb_typed occs h \<Longrightarrow> i \<in> insert (- 1) occs \<Longrightarrow> hyb_typed occs (h\<lparr>occupant := i\<rparr>)"
  by (simp add: hyb_typed_def blk_idle_def)

lemma hyb_typed_unoccupy [simp]: "hyb_typed occs h \<Longrightarrow> hyb_typed occs (tq_unoccupy h)"
  by (simp add: tq_unoccupy_def)

lemma new_hyb_fields [simp]: "regQ (new_hyb occ mode) = new_bqueue" "occupant (new_hyb occ mode) = occ"
  by (simp_all add: new_hyb_def tqueue.extend_def new_tqueue_def queue.extend_def)

lemma hyb_typed_new: "occ \<in> occs \<Longrightarrow> hyb_typed occs (new_hyb occ mode)"
  using hyb_inv_new [of occ mode] by (auto simp: hyb_typed_def hyb_inv_def)

lemma hyb_typed_size_raw:
  assumes "hyb_typed occs h"
  shows "hyb_typed occs (snd (hyb_size_raw h))" and "hyb_data (snd (hyb_size_raw h)) = hyb_data h"
  using assms
  by (cases h, auto simp: hyb_typed_def hyb_size_raw_def bq_size_def Let_def blk_idle_def hyb_data_def
      bq_clearRelaxQ_def bq_typed_def bq_contents_def split: option.splits)

text \<open>
  One read. A success hands out an item and leaves fewer; without one the queue reports itself
  as empty, unless another reader occupies it.
\<close>

lemma hyb_pull_reg_typed:
  assumes "hyb_typed occs h"
  obtains p k st' h' where "hyb_pull_reg n st h = Ret ((p, k, st'), h')" and "hyb_typed occs h'"
    and "hyb_items h' \<le> hyb_items h"
    and "st' = st \<and> p = None \<or> st' = st\<lparr>qs_validrv := True\<rparr> \<and> hyb_items h' < hyb_items h"
proof (cases "0 < sint (netCount (regQ h))")
  case False
  with assms that show thesis
    by (simp add: hyb_pull_reg_def bq_size_def Let_def hyb_typed_def hyb_data_def blk_idle_def)
next
  case True
  from bqt.pull_comes_back [of "bq_clearRelaxQ (regQ h)"] assms obtain r q where q:
    "bq_pull (bq_clearRelaxQ (regQ h)) = Ret (r, q)" "bq_typed q"
    "length (bq_contents q) \<le> hyb_items h" "r \<noteq> None \<longrightarrow> length (bq_contents q) < hyb_items h"
    by (auto simp: hyb_typed_def hyb_data_def)
  have "hyb_typed occs (h\<lparr>lastItem := ASFK_E_QSPEC_REG, regQ := q\<rparr>)"
    using assms q(2) by (simp add: hyb_typed_def blk_idle_def)
  with True q that show thesis
    by (cases r) (auto simp: hyb_pull_reg_def bq_size_def Let_def hyb_data_def qmapper_consume_def)
qed

lemma hyb_pull_blk_typed:
  assumes "hyb_typed occs h"
  obtains st' h' where "hyb_pull_blk spec n st h = ((None, - 1, st'), h')" and "hyb_typed occs h'"
    and "hyb_data h' = hyb_data h" and "qs_validrv st' = qs_validrv st"
proof (cases "blkQ h")
  case None
  with assms that show thesis by (simp add: hyb_pull_blk_def)
next
  case (Some b)
  with assms have "deferred (blk_inner b) = []" "itsBQ (blk_inner b) = []"
    by (simp_all add: hyb_typed_def blk_idle_def)
  then have "bq2_pullAndBatchStatus False (blk_inner b) = ((None, False, False), blk_inner b)"
    by (simp add: bq2_pullAndBatchStatus_def bq2_pull_front_def)
  with Some assms that show thesis
    by (simp add: hyb_pull_blk_def hyb_typed_def blk_idle_def hyb_data_def)
qed

lemma hyb_settle_typed:
  assumes "hyb_typed occs h" and "i \<in> insert (- 1) occs"
  obtains st' h' where "hyb_settle i ((p, k, st), h) = ((p, k, st'), h')" and "hyb_typed occs h'"
    and "hyb_data h' = hyb_data h" and "qs_validrv st' = qs_validrv st"
    and "qs_validrv st \<or> qs_empty st'"
proof -
  obtain n h1 where h1: "hyb_size_raw h = (n, h1)" by (cases "hyb_size_raw h")
  with hyb_typed_size_raw [OF assms(1)] have t: "hyb_typed occs h1" "hyb_data h1 = hyb_data h"
    by simp_all
  show thesis
  proof (cases "qs_validrv st")
    case True
    then show thesis
      by (cases "sint n > 0")
        (rule that, simp add: hyb_settle_def h1, use t assms(2) True in simp_all,
         rule that, simp add: hyb_settle_def h1, use t True in simp_all)
  next
    case False
    then show thesis
      by (intro that) (simp add: hyb_settle_def, use assms(1) in simp_all)
  qed
qed

lemma hyb_pullAndOccupy_typed:
  assumes "hyb_typed occs h" and "i \<in> insert (- 1) occs"
  obtains p k st' h' where "hyb_pullAndOccupyWithId i st h = Ret ((p, k, st'), h')"
    and "hyb_typed occs h'" and "hyb_items h' \<le> hyb_items h"
    and "qs_validrv st' \<and> hyb_items h' < hyb_items h \<or>
         \<not> qs_validrv st' \<and> p = None \<and> (qs_empty st' \<or> occupied_by_other i h)"
proof -
  let ?st = "st\<lparr>qs_endbatch := False, qs_validrv := False\<rparr>"
  consider (other) "occupied_by_other i h" | (none) "\<not> occupied_by_other i h" "qmapper h = []"
    | (reg) n ms where "\<not> occupied_by_other i h" "qmapper h = (ASFK_E_QSPEC_REG, n) # ms"
    | (blk) s n ms where "\<not> occupied_by_other i h" "qmapper h = (s, n) # ms" "s \<noteq> ASFK_E_QSPEC_REG"
    by (metis list.exhaust prod.exhaust)
  then show thesis
  proof cases
    case other
    with hyb_typed_size_raw [OF assms(1)] show thesis
      by (cases "hyb_size_raw h")
        (rule that, auto simp: hyb_pullAndOccupyWithId_def Let_def)
  next
    case none
    then show thesis
      by (intro that [where h' = "h\<lparr>lastItem := ASFK_E_QSPEC_NONE\<rparr>"])
        (simp add: hyb_pullAndOccupyWithId_def Let_def, use assms(1) in simp_all)
  next
    case reg
    obtain p k st1 h1 where h1: "hyb_pull_reg n ?st h = Ret ((p, k, st1), h1)" "hyb_typed occs h1"
      "hyb_items h1 \<le> hyb_items h"
      "st1 = ?st \<and> p = None \<or> st1 = ?st\<lparr>qs_validrv := True\<rparr> \<and> hyb_items h1 < hyb_items h"
      by (rule hyb_pull_reg_typed [OF assms(1)])
    obtain st2 h2 where h2: "hyb_settle i ((p, k, st1), h1) = ((p, k, st2), h2)" "hyb_typed occs h2"
      "hyb_data h2 = hyb_data h1" "qs_validrv st2 = qs_validrv st1" "qs_validrv st1 \<or> qs_empty st2"
      by (rule hyb_settle_typed [OF h1(2) assms(2)])
    show thesis
      by (rule that [of p k st2 h2])
        (use reg h1 h2 in \<open>auto simp: hyb_pullAndOccupyWithId_def Let_def\<close>)
  next
    case blk
    obtain st1 h1 where h1: "hyb_pull_blk s n ?st h = ((None, - 1, st1), h1)" "hyb_typed occs h1"
      "hyb_data h1 = hyb_data h" "qs_validrv st1 = qs_validrv ?st"
      by (rule hyb_pull_blk_typed [OF assms(1)])
    obtain st2 h2 where h2: "hyb_settle i ((None, - 1, st1), h1) = ((None, - 1, st2), h2)" "hyb_typed occs h2"
      "hyb_data h2 = hyb_data h1" "qs_validrv st2 = qs_validrv st1" "qs_validrv st1 \<or> qs_empty st2"
      by (rule hyb_settle_typed [OF h1(2) assms(2)])
    show thesis
      by (rule that [of None "- 1" st2 h2])
        (use blk h1 h2 in \<open>auto simp: hyb_pullAndOccupyWithId_def Let_def\<close>)
  qed
qed

interpretation hyt: settling hyb_pull hyb_items "hyb_typed occs" for occs
proof (unfold_locales, goal_cases)
  case (1 h)
  obtain p k st' h' where "hyb_pullAndOccupyWithId (- 1) new_qstat h = Ret ((p, k, st'), h')"
    "hyb_typed occs h'" "hyb_items h' \<le> hyb_items h"
    "qs_validrv st' \<and> hyb_items h' < hyb_items h \<or>
     \<not> qs_validrv st' \<and> p = None \<and> (qs_empty st' \<or> occupied_by_other (- 1) h)"
    by (rule hyb_pullAndOccupy_typed [OF 1, of "- 1"]) (simp, rule that)
  then show ?case by (auto simp: hyb_pull_def)
qed

lemma residual_typed:
  assumes "hyb_typed occs h"
  obtains h' where "pull_all (\<lambda>q. Ret (hyb_getResidual q)) [] h = Some ([], h')"
    and "hyb_typed occs h'" and "hyb_data h' = hyb_data h"
proof -
  obtain h' where h': "hyb_getResidual h = (None, h')" "hyb_typed occs h'" "hyb_data h' = hyb_data h"
    using assms
    by (cases "blkQ h") (auto simp: hyb_getResidual_def bq2_pullDeferred_def hyb_typed_def
        blk_idle_def hyb_data_def)
  show thesis by (rule that [OF _ h'(2,3)]) (subst pull_all.simps, simp add: h'(1))
qed

lemma hyb_typed_destroy: "hyb_typed occs h \<Longrightarrow> hyb_destroy (hyb_reset h) = Ret ()"
proof -
  assume h: "hyb_typed occs h"
  obtain q where q: "bq_reset (regQ h) = Ret q"
    using h bq_purge_runs [of "regQ h"] by (auto simp: hyb_typed_def bq_typed_def bq_reset_def)
  have "\<exists>q. bq_reset (blk_inner b) = Ret q" if "blkQ (hyb_reset h) = Some b" for b
  proof -
    from that h have "itsBQ (blk_inner b) = []"
      by (auto simp: hyb_reset_def hyb_releaseBlockedAll_def hyb_typed_def blk_idle_def
          bq2_releaseAll_def)
    then show ?thesis using bq_purge_runs [of "blk_inner b"] by (auto simp: bq_reset_def)
  qed
  then show ?thesis using q
    by (cases "blkQ (hyb_reset h)")
      (auto simp: hyb_destroy_def hyb_reset_def hyb_releaseBlockedAll_def)
qed

text \<open>The queue of early data: every item has an index.\<close>

definition tq_typed :: "('p, 'z) tqueue_scheme \<Rightarrow> bool" where
  "tq_typed q \<longleftrightarrow> length (itsQ q) \<le> length (deqIndexes q)"

interpretation tqt: settling tq_pull "\<lambda>q. length (itsQ q)" tq_typed
proof (unfold_locales, goal_cases)
  case (1 q)
  then show ?case
    by (cases "deqIndexes q")
      (auto simp: tq_pull_def tq_pullAndOccupyWithId_def tq_typed_def split: list.split)
qed

section \<open>Sessions\<close>

definition session_items :: "('p, 'x, 'z) session_scheme \<Rightarrow> nat" where
  "session_items s = sum_list (map hyb_items (dataQueues s))"

definition lambdas_set :: "('p, 'x, 'z) session_scheme \<Rightarrow> bool" where
  "lambdas_set s \<longleftrightarrow> (\<forall>us \<in> set (routinesHnds s). \<forall>u \<in> set us. runL u \<noteq> None)"

definition session_typed ::
  "bool \<Rightarrow> i64 set \<Rightarrow> nat \<Rightarrow> ('p, 'x, 'z) session_scheme \<Rightarrow> bool" where
  "session_typed full occs n s \<longleftrightarrow> session_slots_ok s \<and> tq_typed (queueZero s) \<and>
     internalCancellationHandler s \<noteq> None \<and> (\<forall>h \<in> set (dataQueues s). hyb_typed occs h) \<and>
     session_items s \<le> n \<and> (full \<longrightarrow> lambdas_set s)"

lemmas session_type_defs = session_typed_def session_items_def lambdas_set_def session_slots_ok_def

lemma session_typed_frame [simp]:
  "session_typed full occs n (s\<lparr>s_pq := p\<rparr>) = session_typed full occs n s"
  "session_typed full occs n (s\<lparr>busyCount := k\<rparr>) = session_typed full occs n s"
  "session_typed full occs n (s\<lparr>excond := e\<rparr>) = session_typed full occs n s"
  "session_typed full occs n (s\<lparr>expirationSummary := h\<rparr>) = session_typed full occs n s"
  "session_typed full occs n (s\<lparr>s_cblk := cb\<rparr>) = session_typed full occs n s"
  "session_typed full occs n (s\<lparr>s_paused := b\<rparr>) = session_typed full occs n s"
  "session_typed full occs n (s\<lparr>s_cancelled := b\<rparr>) = session_typed full occs n s"
  by (simp_all add: session_type_defs)

lemma session_typed_queueZero [simp]:
  "session_typed full occs n s \<Longrightarrow> tq_typed q \<Longrightarrow> session_typed full occs n (s\<lparr>queueZero := q\<rparr>)"
  by (simp add: session_type_defs)

lemma session_typed_mono:
  "session_typed full occs n s \<Longrightarrow> n \<le> m \<Longrightarrow> session_typed full occs m s"
  by (simp add: session_typed_def)

text \<open>New queues that hold no more than the old ones.\<close>

lemma session_typed_dataQueues:
  "session_typed full occs n s \<Longrightarrow> \<forall>h \<in> set hs. hyb_typed occs h \<Longrightarrow>
   sum_list (map hyb_items hs) \<le> m \<Longrightarrow> session_typed full occs m (s\<lparr>dataQueues := hs\<rparr>)"
  by (simp add: session_type_defs)

lemma session_typed_unoccupied [simp]:
  "session_typed full occs n s \<Longrightarrow> session_typed full occs n (s\<lparr>dataQueues := map tq_unoccupy (dataQueues s)\<rparr>)"
  by (rule session_typed_dataQueues) (auto simp: session_typed_def session_items_def comp_def)

lemma on_queue_typed:
  "session_typed full occs n s \<Longrightarrow>
   (\<And>h. hyb_typed occs h \<Longrightarrow> hyb_typed occs (f h) \<and> hyb_data (f h) = hyb_data h) \<Longrightarrow>
   session_typed full occs n (on_queue f s)"
  by (auto simp: on_queue_def session_type_defs split: list.split)

lemma hyb_typed_release:
  assumes "hyb_typed occs h"
  shows "hyb_typed occs (hyb_releaseBlocked h) \<and> hyb_data (hyb_releaseBlocked h) = hyb_data h"
proof -
  have "blk_releaseFirst b = b" if "blkQ h = Some b" for b
    using that assms
    by (cases b) (simp_all add: hyb_typed_def blk_idle_def bq2_releaseFirst_def bq3_releaseFirst_def)
  then have "hyb_releaseBlocked h = h" by (cases "blkQ h") (simp_all add: hyb_releaseBlocked_def)
  with assms show ?thesis by simp
qed

lemma on_queue_unoccupy_typed [simp]:
  "session_typed full occs n s \<Longrightarrow> session_typed full occs n (on_queue tq_unoccupy s)"
  by (rule on_queue_typed) auto

lemma session_typed_reset [simp]: "tq_typed (tq_reset q)"
  by (simp add: tq_typed_def tq_reset_def queue_reset_def queue_init_def queue_releaseAll_def Let_def)

lemma session_typed_adopt [simp]:
  "session_typed full occs n s \<Longrightarrow> session_typed full occs n (session_adoptDataFromZeroQueue s)"
  by (simp add: session_adoptDataFromZeroQueue_def Let_def)

text \<open>The swaps: what comes out is a valid index of its vector.\<close>

lemma slots_swap: "slots_ok r w hs \<Longrightarrow> slots_ok ((r + 1) mod 2) ((w + 1) mod 2) hs"
  by (auto simp: slots_ok_def)

lemma slots_index: "slots_ok r w hs \<Longrightarrow> unat r < length hs \<and> unat w < length hs"
  by (auto simp: slots_ok_def)

lemma switch_cancellation_typed:
  assumes "session_typed full occs n s" and "session_switchCancellationHandlers s = ((b, i), s')"
  shows "session_typed full occs n s'"
  using assms by (auto simp: session_switchCancellationHandlers_def Let_def session_type_defs slots_swap
      split: if_splits)

lemma switch_summary_typed:
  assumes "session_typed full occs n s" and "session_switchSummaryHandlers s = ((b, i), s')"
  shows "session_typed full occs n s'"
  using assms by (auto simp: session_switchSummaryHandlers_def Let_def session_type_defs slots_swap
      split: if_splits)

lemma switch_routines_typed:
  assumes "session_typed full occs n s" and "session_switchRoutinesHandlers s = ((b, i), s')"
  shows "session_typed full occs n s'" and "unat i < length (routinesHnds s')"
  using assms slots_index [OF slots_swap [of "hotRoutR s" "hotRoutW s" "routinesHnds s"]]
    slots_index [of "hotRoutR s" "hotRoutW s" "routinesHnds s"]
  by (auto simp: session_switchRoutinesHandlers_def Let_def session_type_defs slots_swap
      split: if_splits)

end
