(* ===== verification/Select_Types.thy ===== *)
theory Select_Types
  imports Session_Types
begin

text \<open>
  \<open>select\<close> is type-safe: every part of it keeps the type of the session (preservation), and from
  a session of that type no part of it blocks or runs into a fault, but for the call of an empty
  function the user put in (progress). Each turn that goes on has taken an item out, unless another
  reader occupies the queue.
\<close>

section \<open>Outcomes\<close>

text \<open>
  A step comes back in a state that satisfies \<open>Q\<close>; unless all routines are set, it may instead
  be a call of an empty function.
\<close>

fun comes_back :: "bool \<Rightarrow> ('r \<Rightarrow> bool) \<Rightarrow> 'r outcome \<Rightarrow> bool" where
  "comes_back full Q (Ret r) = Q r"
| "comes_back full Q Blocked = False"
| "comes_back full Q (Fault e) = (\<not> full \<and> e = Bad_function_call)"

lemma comes_obind:
  "comes_back full Q m \<Longrightarrow> (\<And>r. Q r \<Longrightarrow> comes_back full R (f r)) \<Longrightarrow> comes_back full R (obind m f)"
  by (cases m) simp_all

lemma comes_mono: "comes_back full Q m \<Longrightarrow> (\<And>r. Q r \<Longrightarrow> R r) \<Longrightarrow> comes_back full R m"
  by (cases m) simp_all

section \<open>The collector and the runs\<close>

definition gc_typed :: "'p gc \<Rightarrow> bool" where
  "gc_typed g \<longleftrightarrow> \<not> q_blockingR (userDataCollection g) \<and> \<not> q_blockingR (wrapperCollection g) \<and>
     \<not> q_blockingR (killedSessions g)"

lemma gc_typed_new [simp]: "gc_typed new_gc"
  by (simp add: gc_typed_def new_gc_def)

lemma gc_typed_cast [simp]:
  "gc_typed (gc_cast_data p g) = gc_typed g" "gc_typed (gc_cast_wrapper w g) = gc_typed g"
  "gc_typed (gc_cast_session i g) = gc_typed g"
  by (simp_all add: gc_typed_def gc_cast_data_def gc_cast_wrapper_def gc_cast_session_def)

lemma gc_typed_discard [simp]: "gc_typed (discard ad ts g) = gc_typed g"
  by (simp add: discard_def) (induction ts arbitrary: g, simp_all)

text \<open>Reading a queue that does not block comes back, whatever else is configured.\<close>

interpretation gct: settling queue_pull "\<lambda>q. length (itsQ q)" "\<lambda>q. \<not> q_blockingR q"
  by unfold_locales
    (auto simp: queue_pull_nonblocking queue_pull_take_def split: list.split)

definition run_typed :: "bool \<Rightarrow> i64 set \<Rightarrow> nat \<Rightarrow> ('p, 'x) run \<Rightarrow> bool" where
  "run_typed full occs n r \<longleftrightarrow> session_typed full occs n (r_session r) \<and> gc_typed (r_gc r)"

lemma run_typed_frame [simp]:
  "run_typed full occs n (log_event e r) = run_typed full occs n r"
  "run_typed full occs n (dispose_result p r) = run_typed full occs n r"
  "run_typed full occs n (call_cancel_handler h r) = run_typed full occs n r"
  "run_typed full occs n (composing_invokeCancellationHandler h r) = run_typed full occs n r"
  "run_typed full occs n (on_session composing_cancel r) = run_typed full occs n r"
  "run_typed full occs n (on_session session_resetPriorityQueue r) = run_typed full occs n r"
  "run_typed full occs n (on_session (\<lambda>s. s\<lparr>busyCount := f s\<rparr>) r) = run_typed full occs n r"
  "run_typed full occs n (on_session (\<lambda>s. s\<lparr>s_cblk := c s\<rparr>) r) = run_typed full occs n r"
  by (simp_all add: run_typed_def log_event_def dispose_result_def call_cancel_handler_def on_session_def
      composing_invokeCancellationHandler_def composing_cancel_def session_resetPriorityQueue_def
      split: option.split)

lemma run_typed_mono: "run_typed full occs n r \<Longrightarrow> n \<le> m \<Longrightarrow> run_typed full occs m r"
  by (auto simp: run_typed_def intro: session_typed_mono)

section \<open>Flushing\<close>

lemma flush_queues_typed:
  "\<forall>h \<in> set hs. hyb_typed occs h \<Longrightarrow> gc_typed g \<Longrightarrow>
   \<exists>hs' busy' g'. flush_queues ad hs busy g = Some (hs', busy', g') \<and>
     (\<forall>h \<in> set hs'. hyb_typed occs h) \<and> sum_list (map hyb_items hs') \<le> sum_list (map hyb_items hs) \<and>
     gc_typed g'"
proof (induction hs arbitrary: busy g)
  case Nil
  then show ?case by simp
next
  case (Cons h hs)
  then have h: "hyb_typed occs h" by simp
  from hyt.pull_all_comes_back [OF h, of "[]"] obtain ts h1 where
    h1: "pull_all hyb_pull [] h = Some (ts, h1)" "hyb_typed occs h1" "hyb_items h1 \<le> hyb_items h" by blast
  obtain h2 where h2: "pull_all (\<lambda>q. Ret (hyb_getResidual q)) [] h1 = Some ([], h2)" "hyb_typed occs h2"
    "hyb_data h2 = hyb_data h1" by (rule residual_typed [OF h1(2)])
  from Cons.prems have "\<forall>h \<in> set hs. hyb_typed occs h" "gc_typed (discard ad ts g)" by simp_all
  from Cons.IH [OF this, of "busy - word_of_nat (length ts)"] h1 h2 show ?case
    by (auto intro: add_mono)
qed

lemma flush_locked_typed:
  assumes "session_typed full occs n s" and "gc_typed g"
  obtains s' g' where "composing_flush_locked s g = Some (s', g')" and "session_typed full occs n s'"
    and "gc_typed g'"
proof -
  have q: "tq_typed (queueZero s)" "\<forall>h \<in> set (dataQueues s). hyb_typed occs h"
    "sum_list (map hyb_items (dataQueues s)) \<le> n"
    using assms(1) by (simp_all add: session_typed_def session_items_def)
  from tqt.pull_all_comes_back [OF q(1), of "[]"] obtain ts q0 where
    q0: "pull_all tq_pull [] (queueZero s) = Some (ts, q0)" "tq_typed q0" by blast
  from flush_queues_typed [OF q(2), of "discard (s_autodelete s) ts g" "s_autodelete s" "busyCount s"] assms(2)
  obtain hs busy g' where f: "flush_queues (s_autodelete s) (dataQueues s) (busyCount s)
      (discard (s_autodelete s) ts g) = Some (hs, busy, g')" "\<forall>h \<in> set hs. hyb_typed occs h"
    "sum_list (map hyb_items hs) \<le> sum_list (map hyb_items (dataQueues s))" "gc_typed g'" by auto
  show thesis
  proof (rule that [OF _ _ f(4)])
    show "composing_flush_locked s g = Some (s\<lparr>queueZero := q0, dataQueues := hs, busyCount := busy,
        s_cblk := cb_set_flushRequested False (s_cblk s)\<rparr>, g')"
      by (simp add: composing_flush_locked_def q0 f)
    have "session_typed full occs n (s\<lparr>queueZero := q0\<rparr>\<lparr>dataQueues := hs\<rparr>)"
      using session_typed_queueZero [OF assms(1) q0(2)] f(2,3) q(3) by (intro session_typed_dataQueues) auto
    then show "session_typed full occs n (s\<lparr>queueZero := q0, dataQueues := hs, busyCount := busy,
        s_cblk := cb_set_flushRequested False (s_cblk s)\<rparr>)" by simp
  qed
qed

lemma flush_typed:
  assumes "session_typed full occs n s" and "gc_typed g"
  obtains s' g' where "composing_flush s g = Some (s', g')" and "session_typed full occs n s'"
    and "gc_typed g'"
proof -
  have "session_typed full occs n (s\<lparr>s_cblk := cb_set_flushRequested True (s_cblk s)\<rparr>)"
    using assms(1) by simp
  from flush_locked_typed [OF this assms(2)] that show thesis by (auto simp: composing_flush_def)
qed

lemma run_flush_typed:
  assumes "run_typed full occs n r"
  shows "comes_back full' (run_typed full occs n) (run_flush composing_flush r)"
    and "comes_back full' (run_typed full occs n) (run_flush composing_flush_locked r)"
proof -
  have t: "session_typed full occs n (r_session r)" "gc_typed (r_gc r)"
    using assms by (simp_all add: run_typed_def)
  show "comes_back full' (run_typed full occs n) (run_flush composing_flush r)"
    by (rule flush_typed [OF t]) (simp add: run_flush_def returns_def run_typed_def)
  show "comes_back full' (run_typed full occs n) (run_flush composing_flush_locked r)"
    by (rule flush_locked_typed [OF t]) (simp add: run_flush_def returns_def run_typed_def)
qed

section \<open>Routines\<close>

lemma call_routine_typed [simp]: "gc_typed (w_gc (call_routine ad sid f w)) = gc_typed (w_gc w)"
  by (simp add: call_routine_def Let_def split: prod.split)

lemma run_unit_typed:
  assumes "gc_typed (w_gc w)" and "full \<longrightarrow> runL u \<noteq> None"
  shows "comes_back full (\<lambda>w'. gc_typed (w_gc w')) (run_unit prio ad sid u w)"
proof -
  have l: "comes_back full (\<lambda>w'. gc_typed (w_gc w')) (call_lambda ad sid u w)" if "gc_typed (w_gc w)" for w
    using that assms(2) by (simp add: call_lambda_def split: option.split) auto
  have m: "comes_back full (\<lambda>w'. gc_typed (w_gc w')) (call_method ad sid u w)" if "gc_typed (w_gc w)" for w
    using that by (simp add: call_method_def)
  show ?thesis
    using assms(1) by (cases prio) (auto intro: comes_obind l m)
qed

lemma run_routines_typed:
  "gc_typed (w_gc w) \<Longrightarrow> full \<longrightarrow> (\<forall>u \<in> set us. runL u \<noteq> None) \<Longrightarrow>
   comes_back full (\<lambda>(b, w'). gc_typed (w_gc w')) (run_routines prio ad sid us w)"
proof (induction us arbitrary: w)
  case Nil
  then show ?case by simp
next
  case (Cons u us)
  have u: "full \<longrightarrow> runL u \<noteq> None" "full \<longrightarrow> (\<forall>u \<in> set us. runL u \<noteq> None)"
    using Cons.prems(2) by simp_all
  show ?case
    unfolding run_routines.simps
    by (rule comes_obind [OF run_unit_typed [OF Cons.prems(1) u(1)]]) (simp add: Cons.IH [OF _ u(2)])
qed

section \<open>The parts of select\<close>

lemma cancel_path_typed:
  assumes "run_typed full occs n r"
    and "\<And>h r. run_typed full occs n r \<Longrightarrow> run_typed full occs n (finish h r)"
  shows "comes_back full' (run_typed full occs n) (cancel_path finish r)"
proof -
  obtain b i s1 where sw: "session_switchCancellationHandlers (r_session r) = ((b, i), s1)"
    by (metis prod.exhaust)
  have t: "run_typed full occs n (r\<lparr>r_session := s1\<rparr>)"
    using assms(1) switch_cancellation_typed [OF _ sw] by (simp add: run_typed_def)
  show ?thesis
    unfolding cancel_path_def sw prod.case Let_def
    by (rule comes_obind [OF run_flush_typed(1) [OF t]]) (simp add: assms(2))
qed

lemma expire_path_typed:
  assumes "run_typed full occs n r"
  shows "comes_back full' (run_typed full occs n) (expire_path r)"
  unfolding expire_path_def
proof (rule comes_obind [OF run_flush_typed(1) [OF assms]], goal_cases)
  case (1 r1)
  let ?r = "case expirationSummary (r_session (on_session composing_cancel r1)) of
      None \<Rightarrow> on_session composing_cancel r1
    | Some e \<Rightarrow> log_event (Expiration_called e) (on_session composing_cancel r1)"
  have r: "run_typed full occs n ?r" using 1 by (simp split: option.split)
  then obtain i where i: "internalCancellationHandler (r_session ?r) = Some i"
    by (auto simp: run_typed_def session_typed_def)
  show ?case unfolding Let_def i option.case using r by simp
qed

lemma flush_if_requested_typed:
  assumes "run_typed full occs n r"
  shows "comes_back full' (\<lambda>(p, r'). run_typed full occs n r') (flush_if_requested p r)"
proof (cases "cb_flushRequested (s_cblk (r_session r))")
  case True
  have "run_typed full occs n (on_session (on_queue tq_unoccupy) (dispose_result p r))"
    using assms by (simp add: run_typed_def on_session_def dispose_result_def)
  with True show ?thesis
    by (auto simp: flush_if_requested_def Let_def intro!: comes_obind [OF run_flush_typed(2)])
next
  case False
  with assms show ?thesis by (simp add: flush_if_requested_def)
qed

lemma summarise_typed:
  assumes "run_typed full occs n r"
  shows "run_typed full occs n (summarise p r)"
proof -
  obtain b i s1 where sw: "session_switchSummaryHandlers (r_session r) = ((b, i), s1)"
    by (metis prod.exhaust)
  have "run_typed full occs n (r\<lparr>r_session := s1\<rparr>)"
    using assms switch_summary_typed [OF _ sw] by (simp add: run_typed_def)
  then show ?thesis
    by (simp add: summarise_def sw Let_def split: option.split prod.split)
qed

lemma check_expiration_typed:
  "check_expiration met X s = (b, s') \<Longrightarrow> session_typed full occs n s \<Longrightarrow> session_typed full occs n s'"
  by (auto simp: check_expiration_def split: option.splits prod.splits)

lemma select_head_typed:
  assumes "run_typed full occs n r"
  shows "comes_back full (\<lambda>(b, r'). run_typed full occs n r') (select_head X r)"
proof -
  define s where "s = session_adoptDataFromZeroQueue (if s_paused (r_session r)
      then (r_session r)\<lparr>s_paused := False, dataQueues := map tq_unoccupy (dataQueues (r_session r))\<rparr>
      else r_session r)"
  obtain met s3 where c: "check_expiration allConditionsMet X s = (met, s3)"
    by (cases "check_expiration allConditionsMet X s")
  have s: "session_typed full occs n s" "gc_typed (r_gc r)"
    using assms session_typed_unoccupied [of full occs n "(r_session r)\<lparr>s_paused := False\<rparr>"]
    by (simp_all add: s_def run_typed_def)
  then have r: "run_typed full occs n (r\<lparr>r_session := s\<rparr>)" "run_typed full occs n (r\<lparr>r_session := s3\<rparr>)"
    using check_expiration_typed [OF c] by (simp_all add: run_typed_def)
  show ?thesis
    unfolding select_head_def Let_def s_def [symmetric] c prod.case
    using r by (auto intro!: comes_obind [OF cancel_path_typed] comes_obind [OF expire_path_typed])
qed

text \<open>The check that ends an item.\<close>

lemma end_item_typed:
  assumes "run_typed full occs n r"
  shows "comes_back full' (\<lambda>(b, r'). run_typed full occs n r')
    (case check_expiration someConditionsMet X (r_session r) of
       (met, s) \<Rightarrow> if met then obind (expire_path (r\<lparr>r_session := s\<rparr>)) (\<lambda>r'. Ret (Some eAFK_ES_HAS_NONE, r'))
         else Ret (None, r\<lparr>r_session := s\<rparr>))"
proof (cases "check_expiration someConditionsMet X (r_session r)")
  case (Pair met s)
  with check_expiration_typed [OF Pair] assms have "run_typed full occs n (r\<lparr>r_session := s\<rparr>)"
    by (simp add: run_typed_def)
  with Pair show ?thesis by (auto intro!: comes_obind [OF expire_path_typed])
qed

lemma process_item_typed:
  assumes r: "run_typed full occs n r" and i: "unat i < length (routinesHnds (r_session r))"
  shows "comes_back full (\<lambda>(b, r'). run_typed full occs n r') (process_item X i item st r)"
proof -
  let ?s = "on_queue tq_unoccupy (r_session r)"
  have rts: "routinesHnds ?s = routinesHnds (r_session r)" by (simp add: on_queue_def split: list.split)
  have s: "session_typed full occs n ?s" using r by (simp add: run_typed_def)
  have w0: "gc_typed (w_gc \<lparr>w_r0 = item, w_result = item, w_cb = s_cblk ?s, w_gc = r_gc r\<rparr>)"
    using r by (simp add: run_typed_def)
  have us: "full \<longrightarrow> (\<forall>u \<in> set (routinesHnds ?s ! unat i). runL u \<noteq> None)"
    using s nth_mem [OF i] unfolding rts session_typed_def lambdas_set_def by (auto simp: rts)
  show ?thesis
    unfolding process_item_def Let_def
  proof (rule comes_obind [OF run_routines_typed [OF w0 us]], goal_cases)
    case (1 bw)
    obtain stopped w where bw: "bw = (stopped, w)" by (cases bw)
    let ?r = "r\<lparr>r_session := ?s\<lparr>s_cblk := w_cb w\<rparr>, r_gc := w_gc w\<rparr>"
    have r1: "run_typed full occs n ?r" using 1 s by (simp add: bw run_typed_def)
    have r2: "run_typed full occs n
        (on_session (\<lambda>s. on_queue tq_unoccupy (session_resetPriorityQueue s)) (dispose_result p ?r))" for p
      using r1 by (simp add: run_typed_def on_session_def dispose_result_def session_resetPriorityQueue_def)
    have rel: "run_typed full occs n (on_session (on_queue hyb_releaseBlocked) q)" if "run_typed full occs n q" for q
      using that by (simp add: run_typed_def on_session_def on_queue_typed hyb_typed_release)
    show ?case
      unfolding bw prod.case
      using r1 r2
      by (auto intro!: comes_obind [OF cancel_path_typed] comes_obind [OF flush_if_requested_typed]
          end_item_typed rel summarise_typed split: prod.split)
  qed
qed

text \<open>
  One turn. If no other reader can occupy the queue, a turn that does not end the call has
  taken an item out.
\<close>

definition unshared :: "i64 set \<Rightarrow> i64 \<Rightarrow> bool" where
  "unshared occs i \<longleftrightarrow> (\<forall>k \<in> occs. 0 \<le> sint k \<longrightarrow> k = i)"

lemma unshared_free: "unshared occs i \<Longrightarrow> hyb_typed occs h \<Longrightarrow> \<not> occupied_by_other i h"
  by (auto simp: unshared_def hyb_typed_def occupied_by_other_def)

lemma reconfigure_typed:
  fixes s :: "('p, 'x) csession"
  assumes "session_typed full occs n s" and "occ \<in> occs"
  obtains s' where "composing_reconfigureDataqueues occ s = Ret s'" and "session_typed full occs n s'"
    and "routinesHnds s' = routinesHnds s"
proof -
  have "destroy_queues hs = Ret ()" if "\<forall>h \<in> set hs. hyb_typed occs h" for hs :: "'p hyb list"
    using that by (induction hs) (auto dest: hyb_typed_destroy)
  with assms(1) have d: "destroy_queues (dataQueues s) = Ret ()" by (simp add: session_typed_def)
  show thesis
    by (rule that, simp add: composing_reconfigureDataqueues_def d)
      (use assms in \<open>auto intro!: session_typed_dataQueues hyb_typed_new\<close>)
qed

lemma take_item_typed:
  assumes s: "session_typed full occs n s" "gc_typed (r_gc r)" and q: "dataQueues s = h # hs"
    and ind: "unat ind < length (routinesHnds s)" and ii: "ii \<in> insert (- 1) occs"
  shows "comes_back full (\<lambda>(b, r'). run_typed full occs n r' \<and>
      (b = None \<and> unshared occs ii \<longrightarrow> (\<exists>m < n. run_typed full occs m r')))
    (obind (hyb_pullAndOccupyWithId ii new_qstat h) (\<lambda>((item, _, st), h1).
       (let r2 = r\<lparr>r_session := s\<lparr>dataQueues := h1 # hs\<rparr>\<rparr>
        in if qs_validrv st then process_item X ind item st r2
           else if qs_empty st then Ret (Some eAFK_ES_HAS_NONE, r2) else Ret (None, r2))))"
    (is "comes_back full ?Q _")
proof -
  from s(1) q have h: "hyb_typed occs h" and hs: "\<forall>h \<in> set hs. hyb_typed occs h"
    and n: "hyb_items h + sum_list (map hyb_items hs) \<le> n"
    by (simp_all add: session_typed_def session_items_def)
  obtain p k st h' where p: "hyb_pullAndOccupyWithId ii new_qstat h = Ret ((p, k, st), h')"
    "hyb_typed occs h'" "hyb_items h' \<le> hyb_items h"
    "qs_validrv st \<and> hyb_items h' < hyb_items h \<or>
     \<not> qs_validrv st \<and> p = None \<and> (qs_empty st \<or> occupied_by_other ii h)"
    by (rule hyb_pullAndOccupy_typed [OF h ii])
  define m where "m = hyb_items h' + sum_list (map hyb_items hs)"
  let ?r = "r\<lparr>r_session := s\<lparr>dataQueues := h' # hs\<rparr>\<rparr>"
  have r2: "run_typed full occs m ?r"
    using session_typed_dataQueues [OF s(1), of "h' # hs" m] p(2) hs s(2) by (simp add: run_typed_def m_def)
  have m: "m \<le> n" using n p(3) by (simp add: m_def)
  show ?thesis
  proof (cases "qs_validrv st")
    case True
    with p(4) n have "m < n" by (simp add: m_def)
    moreover have "unat ind < length (routinesHnds (r_session ?r))" using ind by simp
    ultimately have "comes_back full ?Q (process_item X ind p st ?r)"
      by (intro comes_mono [OF process_item_typed [OF r2]]) (auto intro: run_typed_mono [OF _ m])
    with True show ?thesis by (simp add: p(1) Let_def)
  next
    case False
    with p(4) unshared_free [OF _ h, of ii] have "qs_empty st \<or> \<not> unshared occs ii" by blast
    with False run_typed_mono [OF r2 m] show ?thesis by (auto simp: p(1) Let_def)
  qed
qed

lemma select_turn_typed:
  assumes r: "run_typed full occs n r" and ii: "ii \<in> insert (- 1) occs" and occ: "occ \<in> occs"
  shows "comes_back full (\<lambda>(b, r'). run_typed full occs n r' \<and>
      (b = None \<and> unshared occs ii \<longrightarrow> (\<exists>m < n. run_typed full occs m r'))) (select_turn X occ ii r)"
proof (cases "cancel_requested (r_session r)")
  case True
  then show ?thesis using r
    by (auto simp: select_turn_def intro!: comes_obind [OF cancel_path_typed])
next
  case False
  have flush: "comes_back full (run_typed full occs n)
      (if cb_flushRequested (s_cblk (r_session r)) then run_flush composing_flush_locked r else Ret r)"
    using r run_flush_typed(2) [OF r] by simp
  show ?thesis
    unfolding select_turn_def if_not_P [OF False]
  proof (rule comes_obind [OF flush], goal_cases)
    case (1 r1)
    then have r1: "session_typed full occs n (r_session r1)" "gc_typed (r_gc r1)"
      by (simp_all add: run_typed_def)
    obtain sw ind s1 where sw: "session_switchRoutinesHandlers (r_session r1) = ((sw, ind), s1)"
      by (metis prod.exhaust)
    note s1 = switch_routines_typed [OF r1(1) sw]
    obtain s2 where s2: "(if sw then obind (composing_reconfigureDataqueues occ s1)
        (\<lambda>s. Ret (session_resetPriorityQueue s)) else Ret s1) = Ret s2"
      "session_typed full occs n s2" "unat ind < length (routinesHnds s2)"
      using s1 by (cases sw; cases rule: reconfigure_typed [OF s1(1) occ])
        (auto simp: session_resetPriorityQueue_def)
    show ?case
    proof (cases "dataQueues s2")
      case Nil
      then show ?thesis
        unfolding sw prod.case s2(1) obind.simps using s2(2) r1(2) by (simp add: run_typed_def)
    next
      case (Cons h hs)
      show ?thesis
        unfolding sw prod.case s2(1) obind.simps Cons list.case
        by (rule take_item_typed [OF s2(2) r1(2) Cons s2(3) ii])
    qed
  qed
qed

lemma select_loop_typed:
  assumes "run_typed full occs n r" and "ii \<in> insert (- 1) occs" and "occ \<in> occs"
  shows "case select_loop fuel X occ ii r of
      None \<Rightarrow> \<not> (unshared occs ii \<and> n < fuel)
    | Some res \<Rightarrow> comes_back full (\<lambda>(b, r'). run_typed full occs n r') res"
  using assms(1)
proof (induction fuel arbitrary: n r)
  case 0
  then show ?case by simp
next
  case (Suc fuel)
  note turn = select_turn_typed [OF Suc.prems assms(2,3), of X]
  show ?case
  proof (cases "select_turn X occ ii r")
    case (Ret br)
    obtain b r1 where br: "br = (b, r1)" by (cases br)
    show ?thesis
    proof (cases b)
      case None
      with turn Ret br have r1: "run_typed full occs n r1"
        "unshared occs ii \<longrightarrow> (\<exists>m < n. run_typed full occs m r1)" by simp_all
      show ?thesis
      proof (cases "unshared occs ii")
        case True
        with r1(2) obtain m where m: "m < n" "run_typed full occs m r1" by blast
        from Suc.IH [OF m(2)] Suc.IH [OF r1(1)] m(1) True show ?thesis
          using Ret br None by (auto split: option.splits)
      next
        case False
        with Suc.IH [OF r1(1)] Ret br None show ?thesis by (auto split: option.splits)
      qed
    next
      case (Some status)
      with turn Ret br show ?thesis by simp
    qed
  qed (use turn in simp_all)
qed

text \<open>\<open>select\<close>: preservation, progress and, when nobody else reads the queue, the end of it.\<close>

lemma select_typed:
  assumes "run_typed full occs n r" and "ii \<in> insert (- 1) occs" and "occ \<in> occs"
  shows "case composing_select fuel X occ ii r of
      None \<Rightarrow> \<not> (unshared occs ii \<and> n < fuel)
    | Some res \<Rightarrow> comes_back full (\<lambda>(b, r'). run_typed full occs n r') res"
proof (cases "select_head X r")
  case (Ret br)
  obtain b r1 where br: "br = (b, r1)" by (cases br)
  have r1: "run_typed full occs n r1" using select_head_typed [OF assms(1), of X] Ret br by simp
  with select_loop_typed [OF r1 assms(2,3), of fuel X] Ret br show ?thesis
    by (cases b) (simp_all add: composing_select_def)
qed (use select_head_typed [OF assms(1), of X] in \<open>simp_all add: composing_select_def\<close>)

end
