(* ===== verification/Threadpool_Types.thy ===== *)
theory Threadpool_Types
  imports Threadpool_Correct Select_Types
begin

text \<open>
  The pool is type-safe: in every reachable state all allocated sessions are well typed, the
  collector's queues do not block and the configuration has processors. From such a state every
  call of a user comes back, and a step of a worker fails in two ways only: it looks at a
  deleted session among the online ones, or it calls an empty function a user put in.
\<close>

section \<open>Well-typed sessions\<close>

definition well_typed :: "('p, 'x) csession \<Rightarrow> bool" where
  "well_typed s \<longleftrightarrow> session_typed False UNIV (session_items s) s"

lemma well_typedI: "session_typed full occs n s \<Longrightarrow> well_typed s"
  by (auto simp: well_typed_def session_typed_def hyb_typed_def)

lemma well_typed_session: "well_typed s \<Longrightarrow> session_items s \<le> n \<Longrightarrow> (full \<Longrightarrow> lambdas_set s) \<Longrightarrow>
   \<forall>h \<in> set (dataQueues s). occupant h \<in> insert (- 1) occs \<Longrightarrow> session_typed full occs n s"
  by (auto simp: well_typed_def session_typed_def hyb_typed_def)

lemma slots_ok_update: "slots_ok r w (hs[i := h]) = slots_ok r w hs"
  by (simp add: slots_ok_def)

lemmas setter_types = well_typed_def session_type_defs slots_ok_update

lemma setSummary_typed: "well_typed s \<Longrightarrow> well_typed (snd (session_setSummary f s))"
  by (simp add: session_setSummary_def setter_types split: option.split)

lemma setProgress_typed: "well_typed s \<Longrightarrow> well_typed (snd (session_setProgressRoutine h s))"
  by (simp add: session_setProgressRoutine_def setter_types split: option.split)

lemma setRoutines_typed: "well_typed s \<Longrightarrow> well_typed (snd (composing_setRoutines us s))"
  by (simp add: composing_setRoutines_def session_setRoutines_raw_def setter_types)

lemma setCancellation_typed: "well_typed s \<Longrightarrow> well_typed (snd (session_setCancellationHandler h s))"
  by (simp add: session_setCancellationHandler_def setter_types split: option.split)

lemma setExpiration_typed: "well_typed s \<Longrightarrow> well_typed (snd (session_setExpirationSummary h s))"
  by (simp add: session_setExpirationSummary_def setter_types split: option.split)

lemma pause_typed: "well_typed s \<Longrightarrow> well_typed (session_pause s)"
  "well_typed s \<Longrightarrow> well_typed (session_resume s)" "well_typed s \<Longrightarrow> well_typed (composing_cancel s)"
  by (simp_all add: session_pause_def session_resume_def composing_cancel_def setter_types)

text \<open>A new session, as the pool configures it, before it has queues and after \<open>deploy\<close>.\<close>

lemma configured_typed:
  "well_typed (pool_configure sp (new_csession mode on ad name cb occ))"
  by (simp add: pool_configure_def Let_def session_setSummary_def session_setProgressRoutine_def
      composing_setRoutines_def session_setRoutines_raw_def session_setCancellationHandler_def
      session_setInternalCancellationHandler_def session_setExpirationSummary_def
      session_setExpirationCondition_def new_csession_def session.extend_def new_session_def
      setter_types tq_typed_def new_tqueue_def queue.extend_def split: option.split)
    (simp add: slots_ok_def)

lemma deploy_typed: "well_typed s \<Longrightarrow> composing_deploy occ s = Ret s' \<Longrightarrow> well_typed s'"
  using reconfigure_typed [of False UNIV "session_items s" s occ]
  by (auto simp: composing_deploy_def well_typed_def intro: well_typedI [unfolded well_typed_def])

text \<open>Posting adds items to a queue, and the queue stays in order.\<close>

lemma well_typed_dataQueues:
  "well_typed s \<Longrightarrow> \<forall>h \<in> set hs. hyb_typed UNIV h \<Longrightarrow> well_typed (s\<lparr>dataQueues := hs\<rparr>)"
  by (simp add: setter_types)

lemma hyb_typed_castObject: "hyb_typed occs h \<Longrightarrow> hyb_typed occs (snd (hyb_castObject p i h))"
  by (simp add: hyb_castObject_def hyb_typed_def bq_typed_cast blk_idle_def)

lemma hyb_typed_castVector: "hyb_typed occs h \<Longrightarrow> hyb_typed occs (snd (hyb_castVector ps i h))"
  by (simp add: hyb_castVector_def hyb_typed_def bq_castVector_def blk_idle_def)

lemma well_typed_queueZero:
  "well_typed s \<Longrightarrow> tq_typed q \<Longrightarrow> well_typed (s\<lparr>queueZero := q\<rparr>)"
  "well_typed (s\<lparr>s_cblk := cb\<rparr>) = well_typed s"
  by (simp_all add: setter_types)

lemma tq_cast_typed:
  "tq_typed q \<Longrightarrow> tq_typed (snd (tq_castObject p i q))"
  "tq_typed q \<Longrightarrow> tq_typed (snd (tq_castVector ps i q))"
  by (simp_all add: tq_typed_def tq_castObject_def tq_castVector_def queue_castVector_def queue_unavailable_def)

lemma postData_typed:
  assumes "well_typed s"
  shows "well_typed (snd (composing_postData p s))"
proof -
  have q: "tq_typed (queueZero s)" "\<forall>h \<in> set (dataQueues s). hyb_typed UNIV h"
    using assms by (simp_all add: setter_types)
  show ?thesis
    using assms q hyb_typed_castObject [of UNIV "hd (dataQueues s)" p 0]
    by (cases "dataQueues s")
      (auto simp: composing_postData_def well_typed_queueZero tq_cast_typed
        intro!: well_typed_dataQueues split: prod.split)
qed

lemma postDataAsVector_typed:
  assumes "well_typed s"
  shows "well_typed (snd (composing_postDataAsVector ps s))"
proof -
  have q: "tq_typed (queueZero s)" "\<forall>h \<in> set (dataQueues s). hyb_typed UNIV h"
    using assms by (simp_all add: setter_types)
  show ?thesis
    using assms q hyb_typed_castVector [of UNIV "hd (dataQueues s)" ps 0]
    by (cases "dataQueues s")
      (auto simp: composing_postDataAsVector_def well_typed_queueZero tq_cast_typed
        intro!: well_typed_dataQueues split: prod.split)
qed

lemma queues_size_typed:
  "\<forall>h \<in> set hs. hyb_typed occs h \<Longrightarrow> \<forall>h \<in> set (snd (queues_size hs)). hyb_typed occs h"
proof (induction hs)
  case Nil
  then show ?case by simp
next
  case (Cons h hs)
  then show ?case
    using hyb_typed_size_raw(1) [of occs h]
    by (auto simp: hyb_size_def Let_def split: prod.splits)
qed

lemma itemsCount_typed: "well_typed s \<Longrightarrow> well_typed (snd (composing_getDataItemsCount s))"
  using queues_size_typed [of "dataQueues s" UNIV]
  by (auto simp: composing_getDataItemsCount_def Let_def split: prod.split intro!: well_typed_dataQueues)
    (auto simp: setter_types)

section \<open>Well-typed pools\<close>

definition heap_typed :: "('p, 'x) pool \<Rightarrow> bool" where
  "heap_typed P \<longleftrightarrow> (\<forall>p s. tp_heap P p = Some s \<longrightarrow> well_typed s)"

definition sched_typed :: "'z sched_scheme \<Rightarrow> bool" where
  "sched_typed st \<longleftrightarrow> numCPUs st \<noteq> 0 \<and> actualThreadsCount (tpcfg st) = ucast (numCPUs st)"

definition pool_typed :: "('p, 'x) pool \<Rightarrow> bool" where
  "pool_typed P \<longleftrightarrow> heap_typed P \<and> gc_typed (tp_gc P) \<and> sched_typed P"

lemma heap_typedD: "pool_typed P \<Longrightarrow> tp_heap P p = Some s \<Longrightarrow> well_typed s"
  by (simp add: pool_typed_def heap_typed_def)

lemma pool_typed_frame [simp]:
  "pool_typed (P\<lparr>countPaused := c\<rparr>) = pool_typed P" "pool_typed (P\<lparr>toShutdown := b\<rparr>) = pool_typed P"
  "pool_typed (P\<lparr>shutdownCont := n\<rparr>) = pool_typed P" "pool_typed (P\<lparr>shutdownComplete := b\<rparr>) = pool_typed P"
  "pool_typed (P\<lparr>tp_events := e\<rparr>) = pool_typed P" "pool_typed (P\<lparr>onlineSessions := os\<rparr>) = pool_typed P"
  "pool_typed (P\<lparr>allSessions := as\<rparr>) = pool_typed P" "pool_typed (P\<lparr>tp_next := m\<rparr>) = pool_typed P"
  by (simp_all add: pool_typed_def heap_typed_def sched_typed_def)

lemma pool_typed_gc [simp]: "pool_typed P \<Longrightarrow> gc_typed g \<Longrightarrow> pool_typed (P\<lparr>tp_gc := g\<rparr>)"
  by (simp add: pool_typed_def heap_typed_def sched_typed_def)

lemma pool_typed_heap:
  "pool_typed P \<Longrightarrow> (\<And>p s. h p = Some s \<Longrightarrow> well_typed s) \<Longrightarrow> pool_typed (P\<lparr>tp_heap := h\<rparr>)"
  by (simp add: pool_typed_def heap_typed_def sched_typed_def)

lemma pool_typed_store: "pool_typed P \<Longrightarrow> well_typed s \<Longrightarrow> pool_typed (pool_store p s P)"
  unfolding pool_store_def by (rule pool_typed_heap) (auto dest: heap_typedD split: if_splits)

text \<open>What a call gives: it comes back, and the pool is typed as before.\<close>

abbreviation runs :: "('p, 'x) pool outcome \<Rightarrow> bool" where
  "runs m \<equiv> comes_back True pool_typed m"

lemma runs_effect: "comes_back True (\<lambda>(r, P). pool_typed P) m \<Longrightarrow> runs (effect m)"
  by (cases m) (auto simp: effect_def)

lemma registered_live:
  assumes "pool_ok P" and "map_of (allSessions P) i = Some p"
  obtains s where "tp_heap P p = Some s"
proof -
  from map_of_SomeD [OF assms(2)] have "p \<in> set (session_ptrs P)" by force
  then have "p \<in> set (session_ptrs P @ killed P)" by simp
  from pool_ok_live [OF assms(1) this] that show thesis by blast
qed

lemma pool_with_runs:
  assumes "pool_ok P" and "pool_typed P" and "\<And>s. well_typed s \<Longrightarrow> well_typed (snd (f s))"
  shows "comes_back True (\<lambda>(r, P'). pool_typed P') (pool_with i r0 f P)"
proof (cases "map_of (allSessions P) i")
  case None
  with assms(2) show ?thesis by (simp add: pool_with_def)
next
  case (Some p)
  then obtain s where s: "tp_heap P p = Some s" by (rule registered_live [OF assms(1)])
  obtain r s' where f: "f s = (r, s')" by (cases "f s")
  with assms(3) [OF heap_typedD [OF assms(2) s]] have "well_typed s'" by simp
  with Some s f assms(2) show ?thesis by (simp add: pool_with_def pool_deref_def pool_typed_store)
qed

lemma pool_each_runs:
  assumes "\<And>s. well_typed s \<Longrightarrow> well_typed (f s)"
  shows "pool_typed P \<Longrightarrow> \<forall>p \<in> set ps. tp_heap P p \<noteq> None \<Longrightarrow> runs (pool_each f ps P)"
proof (induction ps arbitrary: P)
  case Nil
  then show ?case by simp
next
  case (Cons p ps)
  then obtain s where s: "tp_heap P p = Some s" by auto
  have "pool_typed (pool_store p (f s) P)" "\<forall>q \<in> set ps. tp_heap (pool_store p (f s) P) q \<noteq> None"
    using Cons.prems assms [OF heap_typedD [OF Cons.prems(1) s]]
    by (simp_all add: pool_typed_store) (simp add: pool_store_def)
  from Cons.IH [OF this] s show ?case by (simp add: pool_deref_def)
qed

lemma flush_ptr_runs:
  assumes "pool_typed P" and "tp_heap P p \<noteq> None"
  shows "runs (pool_flush_ptr p P)"
proof -
  from assms(2) obtain s where s: "tp_heap P p = Some s" by auto
  have "session_typed False UNIV (session_items s) s" "gc_typed (tp_gc P)"
    using heap_typedD [OF assms(1) s] assms(1) by (simp_all add: well_typed_def pool_typed_def)
  from flush_typed [OF this] obtain s' g' where f: "composing_flush s (tp_gc P) = Some (s', g')"
    "session_typed False UNIV (session_items s) s'" "gc_typed g'" by blast
  from pool_typed_store [OF assms(1) well_typedI [OF f(2)]] f(1,3) s show ?thesis
    by (simp add: pool_flush_ptr_def pool_deref_def returns_def)
qed

lemma flush_each_runs:
  "pool_typed P \<Longrightarrow> \<forall>p \<in> set ps. tp_heap P p \<noteq> None \<Longrightarrow> runs (flush_each ps P)"
proof (induction ps arbitrary: P)
  case Nil
  then show ?case by simp
next
  case (Cons p ps)
  from flush_ptr_runs [OF Cons.prems(1)] Cons.prems(2) have "runs (pool_flush_ptr p P)" by simp
  then obtain P1 where P1: "pool_flush_ptr p P = Ret P1" "pool_typed P1"
    by (cases "pool_flush_ptr p P") auto
  have "\<forall>q \<in> set ps. tp_heap P1 q \<noteq> None"
    using Cons.prems(2) pool_flush_ptr_same [OF P1(1)] by (simp add: pool_same_def)
  from Cons.IH [OF P1(2) this] P1(1) show ?case by simp
qed

lemma create_runs:
  assumes "pool_typed P"
  shows "comes_back True (\<lambda>(r, P'). pool_typed P') (pool_createComposingSession cb occ separams P)"
proof (cases separams)
  case None
  with assms show ?thesis by (simp add: pool_createComposingSession_def)
next
  case (Some sp)
  show ?thesis
  proof (cases rule: create_cases [where P = P and sp = sp and cb = cb and occ = occ])
    case (fresh s')
    from deploy_typed [OF configured_typed fresh(2)] have "well_typed s'" .
    with assms have "pool_typed (P\<lparr>tp_heap := (tp_heap P)(tp_next P := Some s')\<rparr>)"
      by (intro pool_typed_heap) (auto dest: heap_typedD split: if_splits)
    with fresh(3) Some show ?thesis
      by (simp add: pool_typed_def heap_typed_def sched_typed_def)
  next
    case clash
    from assms have "pool_typed (P\<lparr>tp_heap := (tp_heap P)(tp_next P := None)\<rparr>)"
      by (intro pool_typed_heap) (auto dest: heap_typedD split: if_splits)
    with clash Some show ?thesis by (simp add: pool_typed_def heap_typed_def sched_typed_def)
  qed
qed

lemma flushSession_runs:
  assumes "pool_ok P" and "pool_typed P"
  shows "comes_back True (\<lambda>(r, P'). pool_typed P') (pool_flushSession i P)"
proof (cases "map_of (allSessions P) i")
  case None
  with assms show ?thesis by (simp add: pool_flushSession_def)
next
  case (Some p)
  then obtain s where "tp_heap P p = Some s" by (rule registered_live [OF assms(1)])
  with flush_ptr_runs [OF assms(2), of p] Some show ?thesis
    by (auto simp: pool_flushSession_def intro!: comes_obind)
qed

lemma cancel_runs:
  assumes "pool_ok P" and "pool_typed P"
  shows "comes_back True (\<lambda>(r, P'). pool_typed P') (pool_cancelSession i P)"
proof (cases "map_of (allSessions P) i")
  case None
  with assms show ?thesis by (simp add: pool_cancelSession_def)
next
  case (Some p)
  then obtain s where s: "tp_heap P p = Some s" by (rule registered_live [OF assms(1)])
  obtain c where c: "pool_cancelSession i P = Ret (True, (pool_store p (composing_cancel s) P)
     \<lparr>countPaused := c, allSessions := AList.delete i (allSessions P),
      tp_gc := gc_cast_session p (tp_gc P)\<rparr>)"
    by (rule cancel_eq [OF Some s])
  have "pool_typed (pool_store p (composing_cancel s) P)"
    by (intro pool_typed_store assms(2) pause_typed heap_typedD [OF assms(2) s])
  moreover have "gc_typed (tp_gc P)" using assms(2) by (simp add: pool_typed_def)
  ultimately show ?thesis by (simp add: c)
qed

lemmas pool_calls = pool_castObjectForSession_def pool_postData_def pool_castVectorForSession_def
  pool_postDataAsVector_def pool_setRoutinesInSession_def pool_setCancellationRoutineInSession_def
  pool_setExecSummaryRoutineInSession_def pool_setProgressRoutineInSession_def
  pool_setExpirationRoutine_def pool_itemsCountForSession_def pool_pauseSession_def
  pool_resumeSession_def pool_pauseAll_def pool_resumeAll_def pool_flushAll_def

lemmas session_calls_typed = setSummary_typed setProgress_typed setRoutines_typed setCancellation_typed
  setExpiration_typed pause_typed postData_typed postDataAsVector_typed itemsCount_typed

lemma pool_apply_runs:
  assumes "pool_ok P" and "pool_typed P"
  shows "runs (pool_apply c P)"
proof -
  have all: "\<forall>p \<in> set (session_ptrs P). tp_heap P p \<noteq> None"
    using pool_ok_live [OF assms(1)] by auto
  show ?thesis
  proof (cases c)
    case FlushAll
    with flush_each_runs [OF assms(2) all] show ?thesis by (simp add: pool_flushAll_def)
  next
    case PauseAll
    with pool_each_runs [OF pause_typed(1) assms(2) all] show ?thesis
      by (auto simp: pool_pauseAll_def intro!: runs_effect comes_obind)
  next
    case ResumeAll
    with pool_each_runs [OF pause_typed(2) assms(2) all] show ?thesis
      by (auto simp: pool_resumeAll_def intro!: runs_effect comes_obind)
  qed (use assms(2) in \<open>auto simp: pool_calls intro!: runs_effect comes_obind [OF pool_with_runs [OF assms]]
      pool_with_runs [OF assms] create_runs flushSession_runs [OF assms] cancel_runs [OF assms]
      session_calls_typed\<close>)
qed

section \<open>The workers\<close>

text \<open>Sharing out the processors never divides by zero or leaves the vector of ranges.\<close>

lemma spread_length [simp]: "length (spread n res lb sh) = n"
  by (induction n arbitrary: res lb) (simp_all add: Let_def)

lemma cpus_value: "nat (sint (ucast (n :: u16) :: i64)) = unat n"
proof -
  have "unat n < 2 ^ 16" using unsigned_less [of n] by simp
  then have "(ucast n :: i64) = word_of_nat (unat n)" "unat n < 2 ^ 63"
    by (simp_all add: unsigned_ucast_eq word_eq_iff_unsigned unat_of_nat take_bit_nat_eq_self)
  then show ?thesis using sint_word_nat [of "unat n"] by simp
qed

lemma reassign_runs:
  assumes "sched_typed st" and "unat (numCPUs st) \<le> length (vectProc2Bounds st)"
  obtains tpc' vs where "state_reassignProcs tpc n st =
      Ret (tpc', st\<lparr>tpcfg := (tpcfg st)\<lparr>requiredThreadsCount := n\<rparr>, vectProc2Bounds := vs\<rparr>)"
    and "length vs = length (vectProc2Bounds st)"
proof -
  have nz: "(ucast (numCPUs st) :: i64) \<noteq> 0"
    using cpus_value [of "numCPUs st"] assms(1) by (auto simp: sched_typed_def unat_eq_zero)
  have "\<exists>tpc' vs. reassign_bounds (tpc\<lparr>actualThreadsCount := ucast (numCPUs st)\<rparr>) (vectProc2Bounds st) =
      Ret (tpc', vs) \<and> length vs = length (vectProc2Bounds st)"
    using assms(2) nz by (simp add: reassign_bounds_def cpus_value Let_def)
  with that show thesis by (auto simp: state_reassignProcs_def Let_def)
qed

lemma resize_runs:
  assumes "sched_typed P"
  shows "unat (numCPUs (resize_bounds P)) \<le> length (vectProc2Bounds (resize_bounds P))"
    and "sched_typed (resize_bounds P)"
proof -
  have "unat (size_of xs) \<le> length xs" for xs :: "tp_range list"
    by (simp add: size_of_def unat_of_nat)
  moreover have "unat (numCPUs P) < 2 ^ 16" using unsigned_less [of "numCPUs P"] by simp
  then have "unat (actualThreadsCount (tpcfg P)) = unat (numCPUs P)"
    using assms by (simp add: sched_typed_def unsigned_ucast_eq take_bit_nat_eq_self)
  ultimately show "unat (numCPUs (resize_bounds P)) \<le> length (vectProc2Bounds (resize_bounds P))"
    by (simp add: resize_bounds_def) metis
  show "sched_typed (resize_bounds P)" using assms by (simp add: resize_bounds_def sched_typed_def)
qed

lemma clone_online_runs:
  "\<forall>q \<in> set ps. tp_heap P q \<noteq> None \<Longrightarrow>
   clone_online ps P = Ret (filter (\<lambda>q. \<not> session_isPaused (the (tp_heap P q))) ps)"
  by (induction ps) (auto simp: pool_deref_def)

lemma clone_runs:
  assumes "pool_ok P"
  obtains ps where "state_cloneSessionsMap2Vector P = Ret (P\<lparr>onlineSessions := ps\<rparr>)"
proof -
  have "\<forall>p \<in> set (session_ptrs P). tp_heap P p \<noteq> None"
    using pool_ok_live [OF assms] by auto
  with that show thesis by (simp add: state_cloneSessionsMap2Vector_def clone_online_runs)
qed

text \<open>The two places where a worker shares out the sessions again.\<close>

lemma reassign_typed:
  assumes "pool_typed P" and "unat (numCPUs P) \<le> length (vectProc2Bounds P)"
  obtains tpc' P' where "state_reassignProcs tpc n P = Ret (tpc', P')" and "pool_typed P'"
    and "tp_heap P' = tp_heap P" and "onlineSessions P' = onlineSessions P"
    and "allSessions P' = allSessions P" and "pool_ok P' = pool_ok P"
    and "unat (numCPUs P') \<le> length (vectProc2Bounds P')" and "numCPUs P' = numCPUs P"
proof -
  have "sched_typed P" using assms(1) by (simp add: pool_typed_def)
  from reassign_runs [OF this assms(2)] obtain tpc' vs where r: "state_reassignProcs tpc n P =
      Ret (tpc', P\<lparr>tpcfg := (tpcfg P)\<lparr>requiredThreadsCount := n\<rparr>, vectProc2Bounds := vs\<rparr>)"
    "length vs = length (vectProc2Bounds P)" by blast
  show thesis
    by (rule that [OF r(1)])
      (use assms r(2) in \<open>simp_all add: pool_typed_def heap_typed_def sched_typed_def pool_ok_def\<close>)
qed

lemma resize_typed:
  assumes "pool_typed P"
  shows "pool_typed (resize_bounds P)" and "pool_ok (resize_bounds P) = pool_ok P"
    and "unat (numCPUs (resize_bounds P)) \<le> length (vectProc2Bounds (resize_bounds P))"
    and "numCPUs (resize_bounds P) = numCPUs P"
  using assms resize_runs [of P]
  by (simp_all add: pool_typed_def heap_typed_def pool_same_ok [OF resize_keeps(1)])
    (simp_all add: resize_bounds_def)

text \<open>Choosing: the only fault is a look at a deleted session among the online ones.\<close>

lemma pick_runs:
  assumes ok: "pool_ok P" and ty: "pool_typed P"
  shows "(\<exists>r P'. worker_pick sel slot P = Ret (r, P') \<and> pool_typed P') \<or>
    worker_pick sel slot P = Fault Use_after_free \<and> sel < length (onlineSessions P) \<and>
      tp_heap P (onlineSessions P ! sel) = None"
proof -
  obtain tpc Q1 where r: "state_reassignProcs (tpcfg P) (size_of (onlineSessions (resize_bounds P)))
      (resize_bounds P) = Ret (tpc, Q1)" and t1: "pool_typed Q1"
    and h1: "tp_heap Q1 = tp_heap P" "onlineSessions Q1 = onlineSessions P"
    and ok1: "pool_ok Q1" and len1: "unat (numCPUs Q1) \<le> length (vectProc2Bounds Q1)"
    and cpus: "numCPUs Q1 = numCPUs P"
    using ok resize_typed [OF ty]
    by (cases rule: reassign_typed [OF resize_typed(1,3) [OF ty]]) auto
  have "0 < unat (numCPUs P)" using ty by (simp add: pool_typed_def sched_typed_def unat_gt_0)
  with len1 cpus obtain tcr rest where vs: "vectProc2Bounds Q1 = tcr # rest"
    by (cases "vectProc2Bounds Q1") simp_all
  obtain ps where cl: "state_cloneSessionsMap2Vector Q1 = Ret (Q1\<lparr>onlineSessions := ps\<rparr>)"
    by (rule clone_runs [OF ok1])
  obtain tpc' Q3 where r2: "state_reassignProcs (tpcfg Q1) (size_of ps) (Q1\<lparr>onlineSessions := ps\<rparr>) =
      Ret (tpc', Q3)" and t3: "pool_typed Q3"
    by (rule reassign_typed [of "Q1\<lparr>onlineSessions := ps\<rparr>"]) (use t1 len1 in simp_all)
  show ?thesis
  proof (cases "sel < length (onlineSessions P) \<and> rangeLength tcr \<noteq> 0")
    case False
    with t1 h1 show ?thesis unfolding worker_pick_def Let_def r obind.simps prod.case vs list.case by auto
  next
    case True
    then have ne: "onlineSessions P \<noteq> []" by auto
    show ?thesis
    proof (cases "tp_heap P (onlineSessions P ! sel)")
      case None
      with True ne h1 show ?thesis
        unfolding worker_pick_def Let_def r obind.simps prod.case vs list.case by (simp add: pool_deref_def)
    next
      case (Some s)
      with True ne h1 t1 t3 show ?thesis
        unfolding worker_pick_def Let_def r obind.simps prod.case vs list.case
        by (simp add: pool_deref_def cl r2)
    qed
  qed
qed

lemma gc_dispose_runs:
  assumes "gc_typed g"
  obtains d g' where "gc_dispose c g = Ret (d, g')" and "gc_typed g'"
proof -
  from assms have q: "\<not> q_blockingR (userDataCollection g)" "\<not> q_blockingR (wrapperCollection g)"
    "\<not> q_blockingR (killedSessions g)" by (simp_all add: gc_typed_def)
  from gct.pull_upto_comes_back [OF q(1)] gct.pull_upto_comes_back [OF q(2)]
    gct.pull_upto_comes_back [OF q(3)] that
  show thesis by (fastforce simp: gc_dispose_def gc_typed_def)
qed

lemma gc_disposeAll_runs:
  assumes "gc_typed g"
  obtains d g' where "gc_disposeAll c g = Some (d, g')" and "gc_typed g'"
proof -
  from assms have q: "\<not> q_blockingR (userDataCollection g)" "\<not> q_blockingR (wrapperCollection g)"
    "\<not> q_blockingR (killedSessions g)" by (simp_all add: gc_typed_def)
  from gct.pull_all_comes_back [OF q(1), of "[]"] gct.pull_all_comes_back [OF q(2), of "[]"]
    gct.pull_all_comes_back [OF q(3), of "[]"] that
  show thesis by (fastforce simp: gc_disposeAll_def gc_typed_def)
qed

text \<open>What the collector takes out of its queue is still allocated.\<close>

lemma delete_sessions_runs:
  assumes "pool_ok P" and "pool_typed P" and "gc_typed g"
    and "killed P = ts @ itsQ (killedSessions g)"
    and "d_sessions d = filter c ts" and "d_forgotten d = filter (\<lambda>p. \<not> c p) ts"
  shows "runs (delete_sessions d (P\<lparr>tp_gc := g\<rparr>))"
proof -
  have "\<forall>p \<in> set (d_sessions d) \<union> set (d_forgotten d). tp_heap P p \<noteq> None"
    using pool_ok_live [OF assms(1)] assms(4-6) by auto
  moreover have "pool_typed (P\<lparr>tp_gc := g\<rparr>\<lparr>tp_heap := (\<lambda>p. if p \<in> set (d_sessions d) then None else tp_heap P p)\<rparr>)"
    using assms(2,3) by (intro pool_typed_heap) (auto dest: heap_typedD split: if_splits)
  ultimately show ?thesis by (auto simp: delete_sessions_def cong: if_cong)
qed

lemma collect_comes_back:
  assumes "pool_ok P" and "pool_typed P"
  shows "runs (worker_collect P)"
proof -
  have "gc_typed (tp_gc P)" using assms(2) by (simp add: pool_typed_def)
  then obtain d g where d: "gc_dispose (ptr_cancelled P) (tp_gc P) = Ret (d, g)" "gc_typed g"
    by (rule gc_dispose_runs)
  from dispose_splits [OF d(1)] delete_sessions_runs [OF assms d(2)]
  have "runs (delete_sessions d (P\<lparr>tp_gc := g\<rparr>))" by metis
  with assms(2) d(1) show ?thesis by (simp add: worker_collect_def)
qed

lemma complete_comes_back:
  assumes "pool_ok P" and "pool_typed P"
  shows "runs (worker_complete P)"
proof -
  let ?P = "P\<lparr>shutdownComplete := True\<rparr>"
  have "gc_typed (tp_gc P)" using assms(2) by (simp add: pool_typed_def)
  then obtain d g where d: "gc_disposeAll (ptr_cancelled P) (tp_gc P) = Some (d, g)" "gc_typed g"
    by (rule gc_disposeAll_runs)
  have P: "pool_ok ?P" "pool_typed ?P" using assms by (simp_all add: pool_ok_def)
  have "killed ?P = killed P" by simp
  with disposeAll_splits [OF d(1)] delete_sessions_runs [OF P d(2)]
  have "runs (delete_sessions d (?P\<lparr>tp_gc := g\<rparr>))" by metis
  with d(1) show ?thesis by (simp add: worker_complete_def returns_def)
qed

text \<open>A run of a session.\<close>

lemma run_comes_back:
  assumes P: "pool_typed P" and p: "tp_heap P p = Some s" and full: "full \<Longrightarrow> lambdas_set s"
  shows "case worker_run fuel X occ p P of
      None \<Rightarrow> \<not> (sint occ \<le> 0 \<and> (\<forall>h \<in> set (dataQueues s). sint (occupant h) \<le> 0) \<and> session_items s < fuel)
    | Some res \<Rightarrow> comes_back full pool_typed res"
proof (cases "session_isPaused s")
  case True
  with P p show ?thesis by (simp add: worker_run_def)
next
  case False
  define r where "r = \<lparr>r_session = s, r_gc = tp_gc P, r_events = tp_events P\<rparr>"
  let ?n = "session_items s"
  have s: "well_typed s" "gc_typed (tp_gc P)" using heap_typedD [OF P p] P by (simp_all add: pool_typed_def)
  have run: "worker_run fuel X occ p P = map_option (\<lambda>res. obind res (\<lambda>(_, r).
      Ret ((pool_store p (r_session r) P)\<lparr>tp_gc := r_gc r, tp_events := r_events r\<rparr>)))
      (composing_select fuel X occ 0 r)"
    using False p by (simp add: worker_run_def r_def)
  have U: "run_typed full UNIV ?n r"
    using s well_typed_session [of s ?n full UNIV] full by (simp add: run_typed_def r_def)
  have store: "comes_back full pool_typed (obind res (\<lambda>(_, r).
      Ret ((pool_store p (r_session r) P)\<lparr>tp_gc := r_gc r, tp_events := r_events r\<rparr>)))"
    if "comes_back full (\<lambda>(b, r'). run_typed full UNIV ?n r') res"
    for res :: "(exec_status \<times> ('a, 'b) run) outcome"
    by (rule comes_obind [OF that])
      (auto simp: run_typed_def intro!: pool_typed_store pool_typed_gc P elim: well_typedI)
  show ?thesis
  proof (cases "composing_select fuel X occ 0 r")
    case None
    have "\<not> session_items s < fuel"
      if "sint occ \<le> 0" "\<forall>h \<in> set (dataQueues s). sint (occupant h) \<le> 0"
    proof -
      have "run_typed full {k. sint k \<le> 0} ?n r"
        using s well_typed_session [of s ?n full "{k. sint k \<le> 0}"] full that(2)
        by (simp add: run_typed_def r_def)
      from select_typed [OF this, of 0 occ fuel X] None that(1) show ?thesis
        by (auto simp: unshared_def) (metis antisym sint_0 signed_word_eqI)
    qed
    with None show ?thesis by (auto simp: run)
  next
    case (Some res)
    from select_typed [OF U, of 0 occ fuel X] Some show ?thesis by (simp add: run store)
  qed
qed

text \<open>The ways a step of a worker can fail.\<close>

definition known_fault :: "nat \<Rightarrow> worker \<Rightarrow> ('p, 'x) pool \<Rightarrow> cpp_error \<Rightarrow> bool" where
  "known_fault sel w P e \<longleftrightarrow> (case w_pc w of
     W_pick \<Rightarrow> e = Use_after_free \<and> sel < length (onlineSessions P) \<and>
       tp_heap P (onlineSessions P ! sel) = None
   | W_run p \<Rightarrow> (case tp_heap P p of
       None \<Rightarrow> e = Use_after_free
     | Some s \<Rightarrow> e = Bad_function_call \<and> \<not> lambdas_set s)
   | _ \<Rightarrow> False)"

lemma worker_step_typed:
  assumes ok: "pool_ok P" and ty: "pool_typed P"
  shows "case tworker_step fuel X occ sel (w, P) of
      None \<Rightarrow> \<exists>p. w_pc w = W_run p
    | Some (Ret (w', P')) \<Rightarrow> pool_typed P'
    | Some Blocked \<Rightarrow> False
    | Some (Fault e) \<Rightarrow> known_fault sel w P e"
proof (cases "w_pc w")
  case W_collect
  from collect_comes_back [OF ok ty] W_collect show ?thesis by (cases "worker_collect P") simp_all
next
  case W_pick
  from pick_runs [OF ok ty, of sel "selectedSlot w"] W_pick show ?thesis by (auto simp: known_fault_def)
next
  case (W_run p)
  show ?thesis
  proof (cases "tp_heap P p")
    case None
    with W_run show ?thesis by (simp add: worker_run_def known_fault_def)
  next
    case (Some s)
    note run = run_comes_back [OF ty Some, where full = "lambdas_set s" and fuel = fuel and X = X and occ = occ]
    show ?thesis
    proof (cases "worker_run fuel X occ p P")
      case None
      with W_run show ?thesis by simp
    next
      case (Some res)
      with run W_run \<open>tp_heap P p = Some s\<close> show ?thesis by (cases res) (simp_all add: known_fault_def)
    qed
  qed
next
  case W_complete
  from complete_comes_back [OF ok ty] W_complete show ?thesis by (cases "worker_complete P") simp_all
qed (use ty in simp_all)

lemma new_pool_typed: "new_pool n = Ret (k, P) \<Longrightarrow> pool_typed P"
  by (auto simp: new_pool_def pool_createThreads_def Let_def new_state_def new_sched_def
      sched.extend_def pool_typed_def heap_typed_def sched_typed_def split: if_splits)

interpretation typed_invariant: invariant sys_start "sys_step X" "\<lambda>S. pool_ok (snd S) \<and> pool_typed (snd S)"
proof (unfold_locales, goal_cases)
  case (1 S)
  then show ?case by (auto simp: sys_start_def new_pool_ok new_pool_typed)
next
  case (2 S S')
  from 2(2) show ?case
  proof cases
    case (call c P P' ws)
    with 2(1) pool_apply_runs [of P c] pool_apply_ok [of P c P'] show ?thesis by simp
  next
    case (work i ws fuel occ P w P')
    with 2(1) worker_step_typed [where P = P and fuel = fuel and X = X and occ = occ and sel = i and w = "ws ! i"]
      worker_step_ok [of P fuel X occ i "ws ! i" w P']
    show ?thesis by simp
  qed
qed

lemma reachable_typed: "sys_reachable X (ws, P) \<Longrightarrow> pool_ok P \<and> pool_typed P"
  using typed_invariant.reachable_inv [of X "(ws, P)"] by simp

lemma slots_apart: "slots_ok r w hs \<Longrightarrow> unat r < length hs \<and> unat w < length hs \<and> r \<noteq> w"
  by (auto simp: slots_ok_def)

section \<open>Properties\<close>



text \<open>
  C5: Type safety of the pool, whatever the users' routines do. In every reachable state the
  indices of the handlers of every session are inside their vectors and the two slots of each
  kind are different ones; and the next step of a worker comes back, unless its session never
  gives up (only in a run), or it meets a deleted session (at its own position of the online
  ones, or the one it chose), or a unit of the session it runs has no routine. No step blocks, divides
  by zero, reads from an empty queue or takes a lock twice.
\<close>

theorem reachable_steps_typed:
  assumes "sys_reachable X (ws, P)"
  shows "(\<forall>p s. tp_heap P p = Some s \<longrightarrow>
       unat (hotCancR s) < length (cancelHnds s) \<and> unat (hotCancW s) < length (cancelHnds s) \<and>
       unat (hotRoutR s) < length (routinesHnds s) \<and> unat (hotRoutW s) < length (routinesHnds s) \<and>
       unat (hotSumR s) < length (sumHnds s) \<and> unat (hotSumW s) < length (sumHnds s) \<and>
       hotCancR s \<noteq> hotCancW s \<and> hotRoutR s \<noteq> hotRoutW s \<and> hotSumR s \<noteq> hotSumW s) \<and>
     (tworker_step fuel X occ sel (w, P) = None \<longrightarrow> (\<exists>p. w_pc w = W_run p)) \<and>
     tworker_step fuel X occ sel (w, P) \<noteq> Some Blocked \<and>
     (\<forall>e. tworker_step fuel X occ sel (w, P) = Some (Fault e) \<longrightarrow>
       (case w_pc w of
          W_pick \<Rightarrow> e = Use_after_free \<and> sel < length (onlineSessions P) \<and>
            tp_heap P (onlineSessions P ! sel) = None
        | W_run p \<Rightarrow> (case tp_heap P p of
            None \<Rightarrow> e = Use_after_free
          | Some s \<Rightarrow> e = Bad_function_call \<and> \<not> lambdas_set s)
        | _ \<Rightarrow> False))"
proof (intro conjI allI impI)
  note r = reachable_typed [OF assms]
  note step = worker_step_typed [of P, where fuel = fuel and X = X and occ = occ and sel = sel and w = w]
  show "\<exists>p. w_pc w = W_run p" if "tworker_step fuel X occ sel (w, P) = None"
    using step r unfolding that by simp
  show "tworker_step fuel X occ sel (w, P) \<noteq> Some Blocked"
  proof
    assume that: "tworker_step fuel X occ sel (w, P) = Some Blocked"
    show False using step r unfolding that by simp
  qed
  show "case w_pc w of
          W_pick \<Rightarrow> e = Use_after_free \<and> sel < length (onlineSessions P) \<and>
            tp_heap P (onlineSessions P ! sel) = None
        | W_run p \<Rightarrow> (case tp_heap P p of
            None \<Rightarrow> e = Use_after_free
          | Some s \<Rightarrow> e = Bad_function_call \<and> \<not> lambdas_set s)
        | _ \<Rightarrow> False" if "tworker_step fuel X occ sel (w, P) = Some (Fault e)" for e
    using step r unfolding that by (simp add: known_fault_def)
qed (use reachable_typed [OF assms] in \<open>auto dest!: heap_typedD slots_apart simp: setter_types\<close>)

theorem reachable_steps_typed_witness:
  "\<exists>P :: (nat, unit) pool. new_pool 2 = Ret (2, P) \<and>
     (\<forall>fuel w. w_pc w = W_collect \<longrightarrow> (\<exists>w' P'. tworker_step fuel demo_cond (- 1) 0 (w, P) = Some (Ret (w', P'))))"
proof -
  obtain P :: "(nat, unit) pool" where P: "new_pool 2 = Ret (2, P)"
    by (simp add: new_pool_def pool_createThreads_def Let_def)
  then have r: "sys_reachable demo_cond (replicate 2 new_worker, P)" by (rule sys_reachable_start)
  have "\<exists>w' P'. tworker_step fuel demo_cond (- 1) 0 (w, P) = Some (Ret (w', P'))" if w: "w_pc w = W_collect" for fuel w
  proof (cases "tworker_step fuel demo_cond (- 1) 0 (w, P)")
    case None
    with reachable_steps_typed [OF r, of fuel "- 1" 0 w] w show ?thesis by auto
  next
    case (Some m)
    with reachable_steps_typed [OF r, of fuel "- 1" 0 w] w show ?thesis by (cases m) auto
  qed
  with P show ?thesis by blast
qed

end
