(* ===== verification/ItemUsers.thy ===== *)
theory ItemUsers
  imports ItemSteps SessionTurns Threadpool_Types
begin

text \<open>
  Users between the steps of a worker that has an item in its hands: they may post, flush (in two steps:
  the flag, then the queues), pause, cancel, and replace the routines and handlers of the session.
  The item goes through the routines it was pulled with, in a bounded number of steps, and its result
  reaches the summary routine, unless the session is cancelled or flushed.
\<close>

section \<open>Users between the steps\<close>

text \<open>
  The calls of users that reach the session, between any two steps. A flush is two calls here, because
  \<open>flush\<close> raises the flag before it takes the lock.
\<close>

datatype 'p user_act =
    U_post "'p option"
  | U_post_vector "'p option list"
  | U_raise_flush
  | U_flush
  | U_cancel
  | U_pause
  | U_resume
  | U_set_routines "'p exec_unit list"
  | U_set_summary "'p routine option"
  | U_set_cancellation "handle option"

fun user_apply :: "'p user_act \<Rightarrow> ('p, 'x) run \<Rightarrow> ('p, 'x) run outcome" where
  "user_apply (U_post p) r = Ret (on_session (\<lambda>s. snd (composing_postData p s)) r)"
| "user_apply (U_post_vector ps) r = Ret (on_session (\<lambda>s. snd (composing_postDataAsVector ps s)) r)"
| "user_apply U_raise_flush r = Ret (on_session (\<lambda>s. s\<lparr>s_cblk := cb_set_flushRequested True (s_cblk s)\<rparr>) r)"
| "user_apply U_flush r = run_flush composing_flush_locked r"
| "user_apply U_cancel r = Ret (on_session composing_cancel r)"
| "user_apply U_pause r = Ret (on_session session_pause r)"
| "user_apply U_resume r = Ret (on_session session_resume r)"
| "user_apply (U_set_routines us) r = Ret (on_session (\<lambda>s. snd (composing_setRoutines us s)) r)"
| "user_apply (U_set_summary f) r = Ret (on_session (\<lambda>s. snd (session_setSummary f s)) r)"
| "user_apply (U_set_cancellation c) r = Ret (on_session (\<lambda>s. snd (session_setCancellationHandler c s)) r)"

text \<open>
  The worker with its item among the users, with two records: whether the flush flag was up at the
  start or has been raised since, and the number of steps the worker has taken.
\<close>

record ('p, 'x) item_sys =
  it_pc :: "'p item_pc"
  it_run :: "('p, 'x) run"
  it_raised :: bool
  it_count :: nat

abbreviation it_session :: "('p, 'x) item_sys \<Rightarrow> ('p, 'x) csession" where
  "it_session S \<equiv> r_session (it_run S)"

fun item_over :: "'p item_pc \<Rightarrow> bool" where
  "item_over (Item_done b) = True"
| "item_over _ = False"

inductive item_sys_step ::
  "'x expcond \<Rightarrow> u64 \<Rightarrow> qstat \<Rightarrow> ('p, 'x) item_sys \<Rightarrow> ('p, 'x) item_sys \<Rightarrow> bool" for X indR st where
  item_work:
    "\<not> item_over (it_pc S) \<Longrightarrow> item_step X indR st (it_pc S, it_run S) = Ret (pc, r) \<Longrightarrow>
     item_sys_step X indR st S (S\<lparr>it_pc := pc, it_run := r, it_count := Suc (it_count S)\<rparr>)"
| item_user:
    "user_apply a (it_run S) = Ret r \<Longrightarrow>
     item_sys_step X indR st S (S\<lparr>it_run := r, it_raised := it_raised S \<or> a = U_raise_flush\<rparr>)"

section \<open>What stays as it is\<close>

definition routines_layout where
  "routines_layout s = (routinesHnds s, hotRoutR s, hotRoutW s, runprioML s, s_autodelete s)"

definition summary_layout where
  "summary_layout s = (sumHnds s, hotSumR s, hotSumW s, sumHndReload s)"

lemmas layout_defs = routines_layout_def summary_layout_def

lemma flush_locked_layout:
  assumes "composing_flush_locked s g = Some (s', g')"
  shows "routines_layout s' = routines_layout s" and "summary_layout s' = summary_layout s"
  using assms by (auto simp: composing_flush_locked_def layout_defs split: bind_splits)

lemma run_flush_layout:
  assumes "run_flush composing_flush_locked r = Ret r' \<or> run_flush composing_flush r = Ret r'"
  shows "routines_layout (r_session r') = routines_layout (r_session r)"
    and "summary_layout (r_session r') = summary_layout (r_session r)" and "r_events r' = r_events r"
  using assms flush_locked_layout
  by (fastforce simp: run_flush_def returns_def composing_flush_def layout_defs split: option.splits)+

lemma on_queue_layout [simp]:
  "routines_layout (on_queue f s) = routines_layout s" "summary_layout (on_queue f s) = summary_layout s"
  by (simp_all add: on_queue_def layout_defs split: list.split)

lemma layout_frame [simp]:
  "routines_layout (s\<lparr>s_cblk := cb\<rparr>) = routines_layout s" "summary_layout (s\<lparr>s_cblk := cb\<rparr>) = summary_layout s"
  "routines_layout (s\<lparr>busyCount := n\<rparr>) = routines_layout s" "summary_layout (s\<lparr>busyCount := n\<rparr>) = summary_layout s"
  "routines_layout (s\<lparr>s_cancelled := b\<rparr>) = routines_layout s" "summary_layout (s\<lparr>s_cancelled := b\<rparr>) = summary_layout s"
  "routines_layout (session_resetPriorityQueue s) = routines_layout s"
  "summary_layout (session_resetPriorityQueue s) = summary_layout s"
  "routines_layout (composing_cancel s) = routines_layout s" "summary_layout (composing_cancel s) = summary_layout s"
  by (simp_all add: layout_defs session_resetPriorityQueue_def composing_cancel_def)

lemma switch_layout:
  assumes "session_switchCancellationHandlers s = ((b, i), s')"
  shows "routines_layout s' = routines_layout s" and "summary_layout s' = summary_layout s"
  using assms by (auto simp: session_switchCancellationHandlers_def Let_def layout_defs split: if_splits)

lemma dispose_session [simp]: "r_session (dispose_result p r) = r_session r"
  by (simp add: dispose_result_def)

definition same_layout :: "('p, 'x) run \<Rightarrow> ('p, 'x) run \<Rightarrow> bool" where
  "same_layout r r' \<longleftrightarrow> routines_layout (r_session r') = routines_layout (r_session r) \<and>
     summary_layout (r_session r') = summary_layout (r_session r) \<and> summaries r' = summaries r"

lemma summaries_events: "r_events r' = r_events r \<Longrightarrow> summaries r' = summaries r"
  by (simp add: summaries_def)

lemma cancel_path_effect:
  assumes "cancel_path finish r = Ret r'"
  obtains h r1 where "r' = finish h r1" and "same_layout r r1" and "cancel_requested (r_session r1)"
proof -
  obtain b i s1 where sw: "session_switchCancellationHandlers (r_session r) = ((b, i), s1)"
    by (metis prod.exhaust)
  from assms obtain r1 where f: "run_flush composing_flush (r\<lparr>r_session := s1\<rparr>) = Ret r1"
    and r': "r' = finish (cancelHnds (r_session (on_session composing_cancel r1)) ! unat i) (on_session composing_cancel r1)"
    by (auto simp: cancel_path_def sw Let_def)
  have "same_layout r (on_session composing_cancel r1)"
    using run_flush_layout [of "r\<lparr>r_session := s1\<rparr>" r1] f switch_layout [OF sw]
    by (simp add: same_layout_def on_session_def) (simp add: summaries_def)
  moreover have "cancel_requested (r_session (on_session composing_cancel r1))"
    by (simp add: on_session_def request_cancels)
  ultimately show thesis by (rule that [OF r'])
qed

lemma expire_path_effect:
  assumes "expire_path r = Ret r'"
  shows "same_layout r r'"
proof -
  from assms obtain r1 where f: "run_flush composing_flush r = Ret r1" by (auto simp: expire_path_def)
  with run_flush_layout [of r r1] assms show ?thesis
    by (auto simp: expire_path_def same_layout_def on_session_def log_event_def Let_def summaries_def
        split: option.splits)
qed

lemma flush_flags:
  assumes "run_flush composing_flush_locked r = Ret r'"
  shows "\<not> cb_flushed (s_cblk (r_session r'))" and "cancel_requested (r_session r') = cancel_requested (r_session r)"
  using assms by (auto simp: run_flush_def returns_def composing_flush_locked_def cancel_requested_def
      session_cancellationRequestedByCallback_def session_cancellationRequestedByStarter_def cb_defs
      split: option.splits bind_splits)

lemma flush_if_requested_effect:
  assumes "flush_if_requested res r = Ret (res', r')"
  shows "same_layout r r' \<and> \<not> cb_flushed (s_cblk (r_session r')) \<and>
    res' = (if cb_flushed (s_cblk (r_session r)) \<and> s_autodelete (r_session r) then None else res)"
proof (cases "cb_flushRequested (s_cblk (r_session r))")
  case True
  let ?r = "on_session (on_queue tq_unoccupy) (dispose_result res r)"
  from assms True have f: "run_flush composing_flush_locked ?r = Ret r'"
    "res' = (if s_autodelete (r_session r) then None else res)"
    by (auto simp: flush_if_requested_def Let_def)
  have "summaries ?r = summaries r" "r_session ?r = on_queue tq_unoccupy (r_session r)"
    by simp (simp add: on_session_def)
  with run_flush_layout [of ?r r'] flush_flags(1) [OF f(1)] f True show ?thesis
    by (simp add: same_layout_def cb_flushRequested_def summaries_def)
next
  case False
  with assms show ?thesis by (simp add: flush_if_requested_def same_layout_def cb_flushRequested_def)
qed

lemma check_expiration_layout:
  assumes "check_expiration met X s = (b, s')"
  shows "routines_layout s' = routines_layout s" and "summary_layout s' = summary_layout s" and "s_cblk s' = s_cblk s"
  using assms by (auto simp: check_expiration_def layout_defs split: option.splits prod.splits)

lemma summarise_layout: "routines_layout (r_session (summarise p r)) = routines_layout (r_session r)"
proof -
  obtain b i s1 where sw: "session_switchSummaryHandlers (r_session r) = ((b, i), s1)"
    by (metis prod.exhaust)
  then have "routines_layout s1 = routines_layout (r_session r)"
    by (auto simp: session_switchSummaryHandlers_def Let_def layout_defs split: if_splits)
  then show ?thesis
    by (simp add: summarise_def sw Let_def on_session_def log_event_def split: option.split prod.split)
qed

text \<open>The last two parts keep everything but the summary handlers.\<close>

lemma closing_effect:
  assumes "item_step X indR st (Closing, r) = Ret (pc', r')"
  shows "item_over pc'" and "same_layout r r'"
proof -
  define r4 where "r4 = (if qs_endbatch st \<and> qs_called st
      then on_session (on_queue hyb_releaseBlocked) (on_session (\<lambda>s. s\<lparr>busyCount := busyCount s - 1\<rparr>) r)
      else on_session (\<lambda>s. s\<lparr>busyCount := busyCount s - 1\<rparr>) r)"
  obtain met s5 where c: "check_expiration someConditionsMet X (r_session r4) = (met, s5)"
    by (cases "check_expiration someConditionsMet X (r_session r4)")
  have r4: "same_layout r r4" "same_layout r4 (r4\<lparr>r_session := s5\<rparr>)"
    using check_expiration_layout [OF c]
    by (simp_all add: r4_def same_layout_def) (simp_all add: on_session_def)
  from assms have "if met then (\<exists>r6. expire_path (r4\<lparr>r_session := s5\<rparr>) = Ret r6 \<and> pc' = Item_done (Some eAFK_ES_HAS_NONE) \<and> r' = r6)
      else pc' = Item_done None \<and> r' = r4\<lparr>r_session := s5\<rparr>"
    unfolding item_step.simps Let_def r4_def [symmetric] c by (auto split: if_splits)
  then show "item_over pc'" and "same_layout r r'"
    using r4 expire_path_effect [of "r4\<lparr>r_session := s5\<rparr>" r']
    by (auto simp: same_layout_def split: if_splits)
qed

section \<open>Whatever the routines do\<close>

definition well_run :: "('p, 'x) run \<Rightarrow> bool" where
  "well_run r \<longleftrightarrow> well_typed (r_session r) \<and> gc_typed (r_gc r)"

lemma well_run_typed: "well_run r \<longleftrightarrow> run_typed False UNIV (session_items (r_session r)) r"
  by (simp add: well_run_def run_typed_def well_typed_def)

lemma well_runI: "run_typed full occs n r \<Longrightarrow> well_run r"
  by (auto simp: well_run_def run_typed_def intro: well_typedI)

text \<open>A user's call comes back, and leaves the slot alone from which the worker reads the routines.\<close>

lemma user_apply_typed:
  assumes "well_run r"
  shows "\<exists>r'. user_apply a r = Ret r' \<and> well_run r'"
proof -
  have g: "well_typed (r_session r)" "gc_typed (r_gc r)" using assms by (simp_all add: well_run_def)
  have on: "well_run (on_session f r)" if "well_typed (f (r_session r))" for f
    using that g by (simp add: well_run_def on_session_def)
  have "\<exists>r'. run_flush composing_flush_locked r = Ret r' \<and> well_run r'"
    using run_flush_typed(2) [OF iffD1 [OF well_run_typed assms], of True]
    by (cases "run_flush composing_flush_locked r") (auto intro: well_runI)
  then show ?thesis
    by (cases a) (use g(1) in \<open>simp_all add: on postData_typed postDataAsVector_typed pause_typed
      setRoutines_typed setSummary_typed setCancellation_typed well_typed_queueZero(2)\<close>)
qed

definition read_slot :: "('p, 'x) csession \<Rightarrow> u64 \<times> 'p exec_unit list \<times> run_prio_ML \<times> bool" where
  "read_slot s = (hotRoutR s, routinesHnds s ! unat (hotRoutR s), runprioML s, s_autodelete s)"

lemma layout_read_slot: "routines_layout s' = routines_layout s \<Longrightarrow> read_slot s' = read_slot s"
  by (simp add: read_slot_def routines_layout_def)

lemma read_slot_frame [simp]:
  "read_slot (s\<lparr>s_cblk := cb\<rparr>) = read_slot s" "read_slot (composing_cancel s) = read_slot s"
  "read_slot (session_pause s) = read_slot s" "read_slot (session_resume s) = read_slot s"
  "read_slot (snd (session_setSummary f s)) = read_slot s"
  "read_slot (snd (session_setCancellationHandler h s)) = read_slot s"
  "read_slot (snd (composing_postData p s)) = read_slot s"
  "read_slot (snd (composing_postDataAsVector ps s)) = read_slot s"
  by (auto simp: read_slot_def composing_cancel_def session_pause_def session_resume_def session_setSummary_def
      session_setCancellationHandler_def composing_postData_def composing_postDataAsVector_def
      split: option.split list.split prod.split)

lemma setRoutines_read_slot:
  assumes "well_typed s"
  shows "read_slot (snd (composing_setRoutines us s)) = read_slot s"
proof -
  have "slots_ok (hotRoutR s) (hotRoutW s) (routinesHnds s)"
    using assms by (simp add: well_typed_def session_typed_def session_slots_ok_def)
  then have "unat (hotRoutW s) \<noteq> unat (hotRoutR s)" by (auto simp: slots_ok_def)
  then show ?thesis
    by (simp add: read_slot_def composing_setRoutines_def session_setRoutines_raw_def)
qed

lemma user_apply_read_slot:
  assumes "well_run r" and "user_apply a r = Ret r'"
  shows "read_slot (r_session r') = read_slot (r_session r)"
proof (cases a)
  case U_flush
  with assms(2) run_flush_layout(1) [of r r'] show ?thesis by (intro layout_read_slot) simp
qed (use assms in \<open>auto simp: on_session_def well_run_def setRoutines_read_slot\<close>)

text \<open>The worker's steps.\<close>

lemma item_step_layout:
  assumes "item_step X indR st (pc, r) = Ret (pc', r')"
  shows "routines_layout (r_session r') = routines_layout (r_session r)"
proof (cases pc)
  case (Called k r0 res)
  with assms show ?thesis
    by (auto split: if_splits elim!: cancel_path_effect simp: same_layout_def on_session_def)
next
  case (Loop_left res)
  with assms show ?thesis
    by (auto split: if_splits elim!: cancel_path_effect simp: same_layout_def on_session_def)
next
  case (Flush_test res)
  with assms show ?thesis by (auto dest!: flush_if_requested_effect simp: same_layout_def)
next
  case Closing
  with assms closing_effect(2) [of X indR st r pc' r'] show ?thesis by (simp add: same_layout_def)
next
  case (Summing res)
  with assms summarise_layout [of res r] show ?thesis by simp
qed (use assms in \<open>auto simp: on_session_def Let_def split: if_splits\<close>)

text \<open>How many steps are left at most.\<close>

fun steps_left :: "nat \<Rightarrow> 'p item_pc \<Rightarrow> nat" where
  "steps_left n (Begin item) = 2 * n + 6"
| "steps_left n (Call k r0 res) = 2 * (n - k) + 5"
| "steps_left n (Called k r0 res) = 2 * (n - k) + 6"
| "steps_left n (Loop_left res) = 4"
| "steps_left n (Flush_test res) = 3"
| "steps_left n (Summing res) = 2"
| "steps_left n Closing = 1"
| "steps_left n (Item_done b) = 0"

lemma item_step_counts:
  assumes "item_step X indR st (pc, r) = Ret (pc', r')" and "\<not> item_over pc"
  shows "steps_left (length (routinesHnds (r_session r) ! unat indR)) pc' <
    steps_left (length (routinesHnds (r_session r) ! unat indR)) pc"
proof (cases pc)
  case Closing
  with assms closing_effect(1) [of X indR st r pc' r'] show ?thesis by (cases pc') simp_all
qed (use assms in \<open>auto simp: Let_def split: if_splits\<close>)

text \<open>Progress: a step comes back unless it calls an empty function.\<close>

fun empty_call :: "'p exec_unit list \<Rightarrow> 'p item_pc \<Rightarrow> bool" where
  "empty_call us (Call k r0 res) = (k < length us \<and> runL (us ! k) = None)"
| "empty_call us _ = False"

lemma comes_back_runs:
  assumes "comes_back full (run_typed False UNIV n) m"
    and "\<And>r. run_typed False UNIV n (g r) = run_typed False UNIV n r"
  shows "comes_back full (\<lambda>(pc', r'). well_run r') (obind m (\<lambda>r2. Ret (f r2, g r2)))"
  using assms by (cases m) (auto intro: well_runI [of False UNIV n])

lemma closing_typed:
  assumes t: "run_typed False UNIV n r"
  shows "comes_back full (\<lambda>(pc', r'). well_run r') (item_step X indR st (Closing, r))"
proof -
  let ?r = "on_session (\<lambda>s. s\<lparr>busyCount := busyCount s - 1\<rparr>) r"
  define r4 where "r4 = (if qs_endbatch st \<and> qs_called st then on_session (on_queue hyb_releaseBlocked) ?r else ?r)"
  obtain met s5 where c: "check_expiration someConditionsMet X (r_session r4) = (met, s5)"
    by (cases "check_expiration someConditionsMet X (r_session r4)")
  have "run_typed False UNIV n r4"
    using t by (auto simp: r4_def run_typed_def on_session_def intro!: on_queue_typed hyb_typed_release)
  then have "run_typed False UNIV n (r4\<lparr>r_session := s5\<rparr>)"
    using check_expiration_typed [OF c] by (simp add: run_typed_def)
  then show ?thesis
    unfolding item_step.simps Let_def r4_def [symmetric] c prod.case
    by (cases met) (auto intro!: comes_back_runs expire_path_typed intro: well_runI)
qed

lemma item_step_typed:
  assumes r: "well_run r"
  shows "comes_back (\<not> empty_call (routinesHnds (r_session r) ! unat indR) pc) (\<lambda>(pc', r'). well_run r')
    (item_step X indR st (pc, r))"
proof -
  define n where "n = session_items (r_session r)"
  have t: "run_typed False UNIV n r" using r by (simp add: well_run_typed n_def)
  show ?thesis
  proof (cases pc)
    case (Begin item)
    with t show ?thesis by (auto simp: run_typed_def on_session_def intro!: well_runI [of False UNIV n])
  next
    case (Call k r0 res)
    let ?s = "r_session r" and ?us = "routinesHnds (r_session r) ! unat indR"
    let ?w = "\<lparr>w_r0 = r0, w_result = res, w_cb = s_cblk ?s, w_gc = r_gc r\<rparr>"
    have "comes_back (\<not> empty_call ?us pc) (\<lambda>w'. gc_typed (w_gc w'))
        (run_unit (runprioML ?s) (s_autodelete ?s) (session_sid ?s) (?us ! k) ?w)" if "k < length ?us"
      using run_unit_typed [of ?w "\<not> empty_call ?us pc"] t that Call by (simp add: run_typed_def)
    with t Call show ?thesis
      by (auto simp: Let_def run_typed_def intro!: comes_obind [where Q = "\<lambda>w'. gc_typed (w_gc w')"] well_runI [of False UNIV n])
  next
    case (Called k r0 res)
    have "comes_back full (run_typed False UNIV n) (cancel_path call_cancel_handler (dispose_result res r))" for full
      by (rule cancel_path_typed) (simp_all add: t)
    with Called r show ?thesis by (auto intro!: comes_back_runs)
  next
    case (Loop_left res)
    let ?r = "on_session (\<lambda>s. on_queue tq_unoccupy (session_resetPriorityQueue s)) (dispose_result res r)"
    have "run_typed False UNIV n ?r"
      using t by (simp add: run_typed_def on_session_def session_resetPriorityQueue_def dispose_result_def)
    then have "comes_back full (run_typed False UNIV n)
        (cancel_path (\<lambda>h r. call_cancel_handler h (composing_invokeCancellationHandler h r)) ?r)" for full
      by (rule cancel_path_typed) simp
    with Loop_left r show ?thesis by (auto intro!: comes_back_runs)
  next
    case (Flush_test res)
    from flush_if_requested_typed [OF t, of True res] Flush_test show ?thesis
      by (cases "flush_if_requested res r") (auto intro: well_runI)
  next
    case (Summing res)
    with summarise_typed [OF t, of res] show ?thesis by (auto intro: well_runI)
  next
    case Closing
    show ?thesis unfolding Closing by (rule closing_typed [OF t])
  next
    case (Item_done b)
    with r show ?thesis by simp
  qed
qed

text \<open>The worker has pulled an item; the slot it reads is \<open>indR\<close>, with the units \<open>us\<close>.\<close>

definition item_start ::
  "u64 \<Rightarrow> 'p exec_unit list \<Rightarrow> run_prio_ML \<Rightarrow> bool \<Rightarrow> ('p, 'x) item_sys \<Rightarrow> bool" where
  "item_start indR us prio ad S \<longleftrightarrow> (\<exists>item. it_pc S = Begin item) \<and> it_count S = 0 \<and>
     it_raised S = cb_flushed (s_cblk (it_session S)) \<and> well_run (it_run S) \<and>
     read_slot (it_session S) = (indR, us, prio, ad)"

definition item_inv ::
  "u64 \<Rightarrow> 'p exec_unit list \<Rightarrow> run_prio_ML \<Rightarrow> bool \<Rightarrow> ('p, 'x) item_sys \<Rightarrow> bool" where
  "item_inv indR us prio ad S \<longleftrightarrow> well_run (it_run S) \<and> read_slot (it_session S) = (indR, us, prio, ad) \<and>
     it_count S + steps_left (length us) (it_pc S) \<le> 2 * length us + 6"

lemma item_inv_start: "item_start indR us prio ad S \<Longrightarrow> item_inv indR us prio ad S"
  by (auto simp: item_start_def item_inv_def)

lemma item_inv_step:
  assumes "item_sys_step X indR st S S'" and inv: "item_inv indR us prio ad S"
  shows "item_inv indR us prio ad S'"
  using assms(1)
proof cases
  case (item_work pc r)
  from inv have r: "well_run (it_run S)" "read_slot (it_session S) = (indR, us, prio, ad)"
    and n: "it_count S + steps_left (length us) (it_pc S) \<le> 2 * length us + 6" by (simp_all add: item_inv_def)
  have us: "routinesHnds (it_session S) ! unat indR = us" using r(2) by (auto simp: read_slot_def)
  have "well_run r" using item_step_typed [OF r(1), of indR "it_pc S" X st] item_work(3) by simp
  moreover have "read_slot (r_session r) = (indR, us, prio, ad)"
    using layout_read_slot [OF item_step_layout [OF item_work(3)]] r(2) by simp
  ultimately show ?thesis
    using n item_step_counts [OF item_work(3,2)] unfolding us by (simp add: item_inv_def item_work(1))
next
  case (item_user a r)
  from inv have r: "well_run (it_run S)" by (simp add: item_inv_def)
  have "well_run r" using user_apply_typed [OF r, of a] item_user(2) by auto
  with inv user_apply_read_slot [OF r item_user(2)] show ?thesis by (simp add: item_inv_def item_user(1))
qed

interpretation item_under_way: invariant "item_start indR us prio ad" "item_sys_step X indR st" "item_inv indR us prio ad"
  by unfold_locales (rule item_inv_start, assumption, rule item_inv_step)

text \<open>
  C11: An item and the users. Whatever the routines do and whatever users call between the worker's steps,
  an item goes through the routines that were in place when it was pulled: nobody writes to the slot
  the worker reads. The worker is done with the item after two steps for each routine and six more, no user's
  call is held up by it, and its next step comes back unless it calls an empty function.
\<close>

theorem item_keeps_its_routines:
  assumes "reach (item_start indR us prio ad) (item_sys_step X indR st) S"
  shows "hotRoutR (it_session S) = indR \<and> routinesHnds (it_session S) ! unat indR = us \<and>
     it_count S \<le> 2 * length us + 6 \<and> (it_count S = 2 * length us + 6 \<longrightarrow> item_over (it_pc S)) \<and>
     (\<forall>a. \<exists>r. user_apply a (it_run S) = Ret r) \<and>
     (case item_step X indR st (it_pc S, it_run S) of
        Ret S' \<Rightarrow> True
      | Blocked \<Rightarrow> False
      | Fault e \<Rightarrow> e = Bad_function_call \<and>
          (\<exists>k r0 res. it_pc S = Call k r0 res \<and> k < length us \<and> runL (us ! k) = None))"
proof -
  from item_under_way.reachable_inv [OF assms] have r: "well_run (it_run S)"
    "read_slot (it_session S) = (indR, us, prio, ad)"
    and n: "it_count S + steps_left (length us) (it_pc S) \<le> 2 * length us + 6" by (simp_all add: item_inv_def)
  have us: "hotRoutR (it_session S) = indR" "routinesHnds (it_session S) ! unat indR = us"
    using r(2) by (auto simp: read_slot_def)
  have "item_over (it_pc S)" if "steps_left (length us) (it_pc S) = 0"
    using that by (cases "it_pc S") simp_all
  moreover have "case item_step X indR st (it_pc S, it_run S) of
        Ret S' \<Rightarrow> True
      | Blocked \<Rightarrow> False
      | Fault e \<Rightarrow> e = Bad_function_call \<and>
          (\<exists>k r0 res. it_pc S = Call k r0 res \<and> k < length us \<and> runL (us ! k) = None)"
    using item_step_typed [OF r(1), of indR "it_pc S" X st] unfolding us(2)
    by (cases "it_pc S") (auto split: outcome.split)
  moreover have "\<exists>r. user_apply a (it_run S) = Ret r" for a using user_apply_typed [OF r(1), of a] by blast
  ultimately show ?thesis using us n by auto
qed

section \<open>Routines that leave the control block alone\<close>

text \<open>The summary handler that the next swap finds: the one stored last.\<close>

definition summary_handler :: "('p, 'x) csession \<Rightarrow> 'p routine option" where
  "summary_handler s = sumHnds s ! unat (if sumHndReload s then hotSumW s else hotSumR s)"

lemma layout_summary_handler: "summary_layout s' = summary_layout s \<Longrightarrow> summary_handler s' = summary_handler s"
  by (simp add: summary_handler_def summary_layout_def)

lemma summarise_handler:
  assumes "session_slots_ok (r_session r)" and "summary_handler (r_session r) \<noteq> None"
  shows "summaries (summarise p r) = summaries r @ [p]"
proof -
  obtain b i s1 where sw: "session_switchSummaryHandlers (r_session r) = ((b, i), s1)"
    by (metis prod.exhaust)
  have "slots_ok (hotSumR (r_session r)) (hotSumW (r_session r)) (sumHnds (r_session r))"
    using assms(1) by (simp add: session_slots_ok_def)
  then have "sumHnds s1 ! unat i = summary_handler (r_session r)"
    using sw by (auto simp: session_switchSummaryHandlers_def summary_handler_def Let_def slots_ok_def split: if_splits)
  with assms(2) obtain f where f: "sumHnds s1 ! unat i = Some f" by auto
  show ?thesis
    by (cases "f p (s_cblk s1) (session_sid s1)")
      (simp add: summarise_def sw f Let_def summaries_def on_session_def log_event_def dispose_result_def)
qed

text \<open>What the worker has in its hands after \<open>gs\<close>: the next argument and the last result.\<close>

definition carried ::
  "bool \<Rightarrow> ('p option \<Rightarrow> 'p option) list \<Rightarrow> 'p option \<Rightarrow> 'p option \<times> 'p option" where
  "carried ad gs item = (if ad then fold (\<lambda>g y. g y) gs item else item, composed ad gs item)"

lemma carried_unit:
  assumes "carried ad gs item = (r0, res)"
  shows "\<exists>g'. run_unit AFK_RUN_LAMBDA_ONLY ad sid (lambda_unit g) \<lparr>w_r0 = r0, w_result = res, w_cb = cb, w_gc = gc\<rparr> =
     Ret \<lparr>w_r0 = fst (carried ad (gs @ [g]) item), w_result = snd (carried ad (gs @ [g]) item), w_cb = cb, w_gc = g'\<rparr>"
  using assms
  by (auto simp: call_lambda_def lambda_unit_def call_routine_def pure_routine_def carried_def composed_def Let_def)

text \<open>What the summary routine is called with.\<close>

definition outcome_of ::
  "bool \<Rightarrow> ('p option \<Rightarrow> 'p option) list \<Rightarrow> 'p option \<Rightarrow> bool \<Rightarrow> 'p option \<Rightarrow> bool" where
  "outcome_of ad gs item raised x \<longleftrightarrow> x = composed ad gs item \<or> ad \<and> raised \<and> x = None"

fun item_result ::
  "bool \<Rightarrow> ('p option \<Rightarrow> 'p option) list \<Rightarrow> 'p option \<Rightarrow> 'p option list \<Rightarrow> ('p, 'x) item_sys \<Rightarrow> 'p item_pc \<Rightarrow> bool" where
  "item_result ad gs item ys S (Begin x) = (x = item \<and> summaries (it_run S) = ys)"
| "item_result ad gs item ys S (Call k r0 res) =
     (k \<le> length gs \<and> carried ad (take k gs) item = (r0, res) \<and> summaries (it_run S) = ys)"
| "item_result ad gs item ys S (Called k r0 res) =
     (k \<le> length gs \<and> carried ad (take k gs) item = (r0, res) \<and> summaries (it_run S) = ys)"
| "item_result ad gs item ys S (Loop_left res) = (res = composed ad gs item \<and> summaries (it_run S) = ys)"
| "item_result ad gs item ys S (Flush_test res) = (res = composed ad gs item \<and> summaries (it_run S) = ys)"
| "item_result ad gs item ys S (Summing res) =
     (outcome_of ad gs item (it_raised S) res \<and> summaries (it_run S) = ys)"
| "item_result ad gs item ys S Closing =
     (\<exists>x. outcome_of ad gs item (it_raised S) x \<and> summaries (it_run S) = ys @ [x])"
| "item_result ad gs item ys S (Item_done b) =
     ((\<exists>x. outcome_of ad gs item (it_raised S) x \<and> summaries (it_run S) = ys @ [x]) \<or>
      cancel_requested (it_session S) \<and> summaries (it_run S) = ys)"

fun before_summary :: "'p item_pc \<Rightarrow> bool" where
  "before_summary Closing = False"
| "before_summary (Item_done b) = False"
| "before_summary _ = True"

definition pure_inv ::
  "u64 \<Rightarrow> ('p option \<Rightarrow> 'p option) list \<Rightarrow> bool \<Rightarrow> 'p option \<Rightarrow> 'p option list \<Rightarrow> ('p, 'x) item_sys \<Rightarrow> bool" where
  "pure_inv indR gs ad item ys S \<longleftrightarrow> item_inv indR (map lambda_unit gs) AFK_RUN_LAMBDA_ONLY ad S \<and>
     (before_summary (it_pc S) \<longrightarrow>
        summary_handler (it_session S) \<noteq> None \<and> (cb_flushed (s_cblk (it_session S)) \<longrightarrow> it_raised S)) \<and>
     item_result ad gs item ys S (it_pc S)"

text \<open>Users' calls.\<close>

lemma posting_flags:
  "cb_flushed (s_cblk (snd (composing_postData p s))) \<Longrightarrow> cb_flushed (s_cblk s)"
  "cb_flushed (s_cblk (snd (composing_postDataAsVector ps s))) \<Longrightarrow> cb_flushed (s_cblk s)"
  "cancel_requested (snd (composing_postData p s)) = cancel_requested s"
  "cancel_requested (snd (composing_postDataAsVector ps s)) = cancel_requested s"
  "summary_layout (snd (composing_postData p s)) = summary_layout s"
  "summary_layout (snd (composing_postDataAsVector ps s)) = summary_layout s"
  by (auto simp: composing_postData_def composing_postDataAsVector_def cancel_requested_def layout_defs
      session_cancellationRequestedByCallback_def session_cancellationRequestedByStarter_def cb_defs
      split: list.splits prod.splits if_splits)

lemma setting_flags:
  "s_cblk (snd (composing_setRoutines us s)) = s_cblk s" "s_cblk (snd (session_setSummary f s)) = s_cblk s"
  "s_cblk (snd (session_setCancellationHandler h s)) = s_cblk s"
  "cb_flushed (s_cblk (composing_cancel s)) = cb_flushed (s_cblk s)"
  "cb_flushed (s_cblk (session_pause s)) = cb_flushed (s_cblk s)"
  "cb_flushed (s_cblk (session_resume s)) = cb_flushed (s_cblk s)"
  "summary_layout (snd (composing_setRoutines us s)) = summary_layout s"
  "summary_layout (snd (session_setCancellationHandler h s)) = summary_layout s"
  "summary_layout (session_pause s) = summary_layout s" "summary_layout (session_resume s) = summary_layout s"
  by (auto simp: composing_setRoutines_def session_setRoutines_raw_def session_setSummary_def layout_defs
      session_setCancellationHandler_def composing_cancel_def session_pause_def session_resume_def cb_defs
      split: option.split)

lemma cancel_requested_cblk: "s_cblk s' = s_cblk s \<Longrightarrow> cancel_requested s' = cancel_requested s"
  by (simp add: cancel_requested_def session_cancellationRequestedByCallback_def
      session_cancellationRequestedByStarter_def)

lemma cancel_requested_raise:
  "cancel_requested (s\<lparr>s_cblk := cb_set_flushRequested b (s_cblk s)\<rparr>) = cancel_requested s"
  by (simp add: cancel_requested_def session_cancellationRequestedByCallback_def
      session_cancellationRequestedByStarter_def cb_defs)

lemma user_apply_keeps:
  assumes "user_apply a r = Ret r'"
  shows "summaries r' = summaries r"
    and "cb_flushed (s_cblk (r_session r')) \<Longrightarrow> cb_flushed (s_cblk (r_session r)) \<or> a = U_raise_flush"
    and "cancel_requested (r_session r) \<Longrightarrow> cancel_requested (r_session r')"
proof -
  show "summaries r' = summaries r"
    using assms run_flush_layout(3) [of r r'] by (cases a) (auto simp: summaries_def on_session_def)
  show "cb_flushed (s_cblk (r_session r)) \<or> a = U_raise_flush" if "cb_flushed (s_cblk (r_session r'))"
    using assms that flush_flags(1) [of r r']
    by (cases a) (auto simp: on_session_def setting_flags dest: posting_flags(1,2))
  show "cancel_requested (r_session r')" if "cancel_requested (r_session r)"
    using assms that flush_flags(2) [of r r']
    by (cases a) (auto simp: on_session_def posting_flags(3,4) request_cancels cancel_requested_raise
        cancel_requested_cblk [OF setting_flags(1)] cancel_requested_cblk [OF setting_flags(2)]
        cancel_requested_cblk [OF setting_flags(3)])
qed

lemma setSummary_handler:
  assumes "session_slots_ok s" and "summary_handler s \<noteq> None"
  shows "summary_handler (snd (session_setSummary f s)) \<noteq> None"
proof (cases f)
  case None
  with assms(2) show ?thesis by (simp add: session_setSummary_def)
next
  case (Some g)
  have "unat (hotSumW s) < length (sumHnds s)"
    using assms(1) by (auto simp: session_slots_ok_def slots_ok_def)
  with Some show ?thesis by (simp add: session_setSummary_def summary_handler_def)
qed

lemma user_apply_handler:
  assumes "user_apply a r = Ret r'" and "well_run r" and "summary_handler (r_session r) \<noteq> None"
  shows "summary_handler (r_session r') \<noteq> None"
proof -
  have slots: "session_slots_ok (r_session r)"
    using assms(2) by (simp add: well_run_def well_typed_def session_typed_def)
  have same: "summary_handler (r_session r') \<noteq> None" if "summary_layout (r_session r') = summary_layout (r_session r)"
    using layout_summary_handler [OF that] assms(3) by simp
  show ?thesis
  proof (cases a)
    case (U_set_summary f)
    with assms(1,3) setSummary_handler [OF slots, of f] show ?thesis by (auto simp: on_session_def)
  next
    case U_flush
    with assms(1) run_flush_layout(2) [of r r'] show ?thesis by (intro same) simp
  next
    case U_raise_flush
    show ?thesis by (rule same) (use assms(1) U_raise_flush in \<open>auto simp: on_session_def\<close>)
  qed (rule same, use assms(1) in \<open>force simp: on_session_def posting_flags setting_flags\<close>)+
qed

lemma item_result_user:
  assumes "item_result ad gs item ys S pc" and "summaries r = summaries (it_run S)"
    and "cancel_requested (it_session S) \<Longrightarrow> cancel_requested (r_session r)"
  shows "item_result ad gs item ys (S\<lparr>it_run := r, it_raised := it_raised S \<or> b\<rparr>) pc"
  using assms by (cases pc) (auto simp: outcome_of_def)

text \<open>The worker's steps.\<close>

lemma item_result_call:
  assumes c: "carried ad (take k gs) item = (r0, res)" and k: "k \<le> length gs"
    and rs: "read_slot (r_session r) = (indR, map lambda_unit gs, AFK_RUN_LAMBDA_ONLY, ad)"
    and step: "item_step X indR st (Call k r0 res, r) = Ret (pc, r')"
  obtains (next_unit) r0' res' where "pc = Called (Suc k) r0' res'" and "Suc k \<le> length gs"
      "carried ad (take (Suc k) gs) item = (r0', res')" "r_events r' = r_events r" "s_cblk (r_session r') = s_cblk (r_session r)"
      "summary_layout (r_session r') = summary_layout (r_session r)"
  | (left) "pc = Loop_left (composed ad gs item)" "r' = r"
proof (cases "k < length gs")
  case False
  with c k have "res = composed ad gs item" by (simp add: carried_def)
  with False step rs show thesis by (intro left) (auto simp: read_slot_def)
next
  case True
  from rs have s: "routinesHnds (r_session r) ! unat indR = map lambda_unit gs"
    "runprioML (r_session r) = AFK_RUN_LAMBDA_ONLY" "s_autodelete (r_session r) = ad" by (auto simp: read_slot_def)
  obtain g' where g': "run_unit AFK_RUN_LAMBDA_ONLY ad (session_sid (r_session r)) (lambda_unit (gs ! k))
      \<lparr>w_r0 = r0, w_result = res, w_cb = s_cblk (r_session r), w_gc = r_gc r\<rparr> =
    Ret \<lparr>w_r0 = fst (carried ad (take (Suc k) gs) item), w_result = snd (carried ad (take (Suc k) gs) item),
      w_cb = s_cblk (r_session r), w_gc = g'\<rparr>"
    using carried_unit [OF c, where sid = "session_sid (r_session r)" and g = "gs ! k" and cb = "s_cblk (r_session r)"
        and gc = "r_gc r"] True by (auto simp: take_Suc_conv_app_nth)
  with step True s have "pc = Called (Suc k) (fst (carried ad (take (Suc k) gs) item)) (snd (carried ad (take (Suc k) gs) item))"
    "r' = r\<lparr>r_session := (r_session r)\<lparr>s_cblk := s_cblk (r_session r)\<rparr>, r_gc := g'\<rparr>"
    by (simp_all add: Let_def del: run_unit.simps)
  with True show thesis by (intro next_unit) (simp_all add: prod_eq_iff)
qed

lemma cancelled_summaries:
  assumes "cancel_path call_cancel_handler r = Ret r2 \<or>
    cancel_path (\<lambda>h r. call_cancel_handler h (composing_invokeCancellationHandler h r)) r = Ret r2"
  shows "summaries r2 = summaries r \<and> cancel_requested (r_session r2)"
proof -
  have m: "cancel_requested (s\<lparr>s_cancelled := b\<rparr>) = cancel_requested s" for s :: "('a, 'b) csession" and b
    by (rule cancel_requested_cblk) simp
  from assms obtain h r1 where "r2 = call_cancel_handler h r1 \<or>
      r2 = call_cancel_handler h (composing_invokeCancellationHandler h r1)"
    "same_layout r r1" "cancel_requested (r_session r1)"
    by (auto elim!: cancel_path_effect)
  then show ?thesis by (auto simp: same_layout_def m)
qed

text \<open>A cancellation that the worker notices, in the loop over the routines and after it.\<close>

lemma cancelled_steps:
  assumes "cancel_requested (r_session r)"
  shows "item_step X indR st (Called k r0 y, r) = Ret (pc, r') \<Longrightarrow>
      pc = Item_done (Some eAFK_ES_WAS_CANCELLED) \<and> summaries r' = summaries r \<and> cancel_requested (r_session r')"
    and "item_step X indR st (Loop_left y, r) = Ret (pc, r') \<Longrightarrow>
      pc = Item_done (Some eAFK_ES_HAS_NONE) \<and> summaries r' = summaries r \<and> cancel_requested (r_session r')"
proof -
  assume "item_step X indR st (Called k r0 y, r) = Ret (pc, r')"
  with assms obtain r2 where c: "cancel_path call_cancel_handler (dispose_result y r) = Ret r2"
    and r': "pc = Item_done (Some eAFK_ES_WAS_CANCELLED)" "r' = on_session (\<lambda>s. s\<lparr>busyCount := 0\<rparr>) r2" by auto
  have "cancel_requested (s\<lparr>busyCount := n\<rparr>) = cancel_requested s" for s :: "('a, 'b) csession" and n
    by (rule cancel_requested_cblk) simp
  then show "pc = Item_done (Some eAFK_ES_WAS_CANCELLED) \<and> summaries r' = summaries r \<and> cancel_requested (r_session r')"
    using cancelled_summaries [OF disjI1 [OF c]] by (simp add: r') (simp add: on_session_def)
next
  assume "item_step X indR st (Loop_left y, r) = Ret (pc, r')"
  with assms have c: "cancel_path (\<lambda>h r. call_cancel_handler h (composing_invokeCancellationHandler h r))
      (on_session (\<lambda>s. on_queue tq_unoccupy (session_resetPriorityQueue s)) (dispose_result y r)) = Ret r'"
    and pc: "pc = Item_done (Some eAFK_ES_HAS_NONE)" by auto
  from cancelled_summaries [OF disjI2 [OF c]]
  show "pc = Item_done (Some eAFK_ES_HAS_NONE) \<and> summaries r' = summaries r \<and> cancel_requested (r_session r')"
    by (simp add: pc)
qed

lemma pure_inv_work:
  assumes step: "item_step X indR st (it_pc S, it_run S) = Ret (pc, r)"
    and inv: "pure_inv indR gs ad item ys S" and go: "\<not> item_over (it_pc S)"
  shows "item_result ad gs item ys (S\<lparr>it_pc := pc, it_run := r, it_count := n\<rparr>) pc \<and>
    (before_summary pc \<longrightarrow> summary_layout (r_session r) = summary_layout (it_session S) \<and>
       (cb_flushed (s_cblk (r_session r)) \<longrightarrow> it_raised S))"
proof -
  have w: "well_run (it_run S)"
    and rs: "read_slot (it_session S) = (indR, map lambda_unit gs, AFK_RUN_LAMBDA_ONLY, ad)"
    and b: "before_summary (it_pc S) \<Longrightarrow> summary_handler (it_session S) \<noteq> None \<and>
      (cb_flushed (s_cblk (it_session S)) \<longrightarrow> it_raised S)"
    and res: "item_result ad gs item ys S (it_pc S)"
    using inv by (simp_all add: pure_inv_def item_inv_def)
  have slots: "session_slots_ok (it_session S)"
    using w by (simp add: well_run_def well_typed_def session_typed_def)
  show ?thesis
  proof (cases "it_pc S")
    case (Begin x)
    have "on_queue tq_unoccupy s = s \<or> s_cblk (on_queue tq_unoccupy s) = s_cblk s" for s :: "('a, 'b) csession"
      by (simp add: on_queue_def split: list.split)
    then have "s_cblk (on_queue tq_unoccupy s) = s_cblk s" for s :: "('a, 'b) csession" by metis
    with Begin step res b show ?thesis
      by (auto simp: carried_def composed_def) (simp_all add: on_session_def)
  next
    case (Call k r0 y)
    from res have c: "carried ad (take k gs) item = (r0, y)" "k \<le> length gs" and ys: "summaries (it_run S) = ys"
      by (simp_all add: Call)
    have "item_step X indR st (Call k r0 y, it_run S) = Ret (pc, r)" using step by (simp add: Call)
    then show ?thesis
    proof (cases rule: item_result_call [OF c rs, consumes 1, case_names next_unit left])
      case next_unit
      with ys b Call show ?thesis by (simp add: summaries_def)
    next
      case left
      with ys b Call show ?thesis by simp
    qed
  next
    case (Called k r0 y)
    show ?thesis
    proof (cases "cancel_requested (it_session S)")
      case True
      note c = cancelled_steps(1) [OF True step [unfolded Called]]
      then show ?thesis using res Called by simp
    next
      case False
      with step Called res b show ?thesis by auto
    qed
  next
    case (Loop_left y)
    show ?thesis
    proof (cases "cancel_requested (it_session S)")
      case True
      note c = cancelled_steps(2) [OF True step [unfolded Loop_left]]
      then show ?thesis using res Loop_left by simp
    next
      case False
      with step Loop_left res b show ?thesis by auto
    qed
  next
    case (Flush_test y)
    from step Flush_test obtain y' where f: "flush_if_requested y (it_run S) = Ret (y', r)" and pc: "pc = Summing y'"
      by auto
    have "s_autodelete (it_session S) = ad" using rs by (simp add: read_slot_def)
    with flush_if_requested_effect [OF f] res b Flush_test show ?thesis
      by (auto simp: pc same_layout_def outcome_of_def) 
  next
    case (Summing y)
    with step res b summarise_handler [OF slots, of y] show ?thesis by auto
  next
    case Closing
    with step closing_effect [of X indR st "it_run S" pc r] res show ?thesis
      by (cases pc) (auto simp: same_layout_def)
  next
    case (Item_done e)
    with go show ?thesis by simp
  qed
qed

lemma pure_inv_step:
  assumes "item_sys_step X indR st S S'" and inv: "pure_inv indR gs ad item ys S"
  shows "pure_inv indR gs ad item ys S'"
proof -
  have i: "item_inv indR (map lambda_unit gs) AFK_RUN_LAMBDA_ONLY ad S'"
    using item_inv_step [OF assms(1)] inv by (simp add: pure_inv_def)
  show ?thesis
    using assms(1)
  proof cases
    case (item_work pc r)
    have "before_summary pc \<Longrightarrow> before_summary (it_pc S)"
      using item_work(2,3) closing_effect(1) [of X indR st "it_run S" pc r] by (cases "it_pc S"; cases pc) auto
    moreover note n = pure_inv_work [OF item_work(3) inv item_work(2), of "Suc (it_count S)"]
    moreover have "summary_handler (r_session r) = summary_handler (it_session S)" if "before_summary pc"
      using n that by (intro layout_summary_handler) simp
    ultimately show ?thesis using i inv by (simp add: pure_inv_def item_work(1))
  next
    case (item_user a r)
    have w: "well_run (it_run S)" using inv by (simp add: pure_inv_def item_inv_def)
    note k = user_apply_keeps [OF item_user(2)] and h = user_apply_handler [OF item_user(2) w]
    have "item_result ad gs item ys S' (it_pc S')"
      using item_result_user [of ad gs item ys S "it_pc S" r] inv k(1,3) by (simp add: pure_inv_def item_user(1))
    with i inv k(2) h show ?thesis by (auto simp: pure_inv_def item_user(1))
  qed
qed

definition pure_start ::
  "u64 \<Rightarrow> ('p option \<Rightarrow> 'p option) list \<Rightarrow> bool \<Rightarrow> 'p option \<Rightarrow> 'p option list \<Rightarrow> ('p, 'x) item_sys \<Rightarrow> bool" where
  "pure_start indR gs ad item ys S \<longleftrightarrow> item_start indR (map lambda_unit gs) AFK_RUN_LAMBDA_ONLY ad S \<and>
     it_pc S = Begin item \<and> summary_handler (it_session S) \<noteq> None \<and> summaries (it_run S) = ys"

lemma pure_inv_start: "pure_start indR gs ad item ys S \<Longrightarrow> pure_inv indR gs ad item ys S"
  using item_inv_start [of indR "map lambda_unit gs" AFK_RUN_LAMBDA_ONLY ad S]
  by (simp add: pure_start_def pure_inv_def) (simp add: item_start_def)

interpretation item_pure: invariant "pure_start indR gs ad item ys" "item_sys_step X indR st" "pure_inv indR gs ad item ys"
  by unfold_locales (rule pure_inv_start, assumption, rule pure_inv_step)

text \<open>
  C10: The result of an item is safe from its users, but for a flush. With routines that leave the
  control block alone, however users post, flush, pause, and replace routines and handlers
  between the worker's steps, the summary routine is called once, with what the routines in place at the
  pull make of the item; or with the null pointer, and then the session owns its data and somebody has
  raised the flush flag. Only a cancellation keeps the summary routine from being called.
\<close>

theorem item_result_despite_users:
  assumes "reach (pure_start indR gs ad item ys) (item_sys_step X indR st) S"
  shows "if it_pc S = Closing \<or> item_over (it_pc S) \<and> \<not> cancel_requested (it_session S)
    then \<exists>x. summaries (it_run S) = ys @ [x] \<and>
           (x = composed ad gs item \<or> x = None \<and> ad \<and> it_raised S)
    else summaries (it_run S) = ys \<or> item_over (it_pc S) \<and>
           (\<exists>x. summaries (it_run S) = ys @ [x] \<and> (x = composed ad gs item \<or> x = None \<and> ad \<and> it_raised S))"
proof -
  from item_pure.reachable_inv [OF assms] have "item_result ad gs item ys S (it_pc S)" by (simp add: pure_inv_def)
  then show ?thesis by (cases "it_pc S") (auto simp: outcome_of_def)
qed

definition demo_item :: "(nat, unit) item_sys" where
  "demo_item = \<lparr>it_pc = Begin (Some 3), it_run = (demo_run True [map_option Suc] id [])
       \<lparr>r_session := (demo_session True [map_option Suc] id [])
          \<lparr>dataQueues := [new_hyb (- 1) AFK_BC_NO_BLOCK], internalCancellationHandler := Some 0\<rparr>\<rparr>,
     it_raised = False, it_count = 0\<rparr>"

lemma demo_item_start: "pure_start 1 [map_option Suc] True (Some 3) [] demo_item"
proof -
  let ?s = "it_session demo_item"
  have f: "hotRoutR ?s = 1" "routinesHnds ?s = [[], [lambda_unit (map_option Suc)]]" "runprioML ?s = AFK_RUN_LAMBDA_ONLY"
    "s_autodelete ?s" "\<not> cb_flushed (s_cblk ?s)" "summary_handler ?s \<noteq> None"
    by (simp_all add: demo_item_def demo_session_def new_csession_def session.extend_def new_session_def
        summary_handler_def quiet_block_def)
  have "well_typed ?s"
    using hyb_typed_new [of "- 1" UNIV AFK_BC_NO_BLOCK]
    by (simp add: demo_item_def demo_session_def new_csession_def session.extend_def new_session_def
        setter_types tq_typed_def new_tqueue_def queue.extend_def slots_ok_def)
  moreover have "gc_typed (r_gc (it_run demo_item))" by (simp add: demo_item_def demo_run_def)
  moreover have "summaries (it_run demo_item) = []" "it_pc demo_item = Begin (Some 3)" "it_count demo_item = 0" "\<not> it_raised demo_item"
    by (simp_all add: demo_item_def demo_run_def summaries_def)
  ultimately show ?thesis using f by (simp add: pure_start_def item_start_def read_slot_def well_run_def)
qed

text \<open>Steps in a row.\<close>

lemma reach_steps:
  "reach start (item_sys_step X indR st) S \<Longrightarrow> item_steps n X indR st (it_pc S, it_run S) = Ret (pc, r) \<Longrightarrow>
   \<exists>m. reach start (item_sys_step X indR st) (S\<lparr>it_pc := pc, it_run := r, it_count := m\<rparr>)"
proof (induction n arbitrary: S)
  case 0
  then have "S\<lparr>it_pc := pc, it_run := r, it_count := it_count S\<rparr> = S" by simp
  with 0(1) show ?case by metis
next
  case (Suc n)
  show ?case
  proof (cases "item_over (it_pc S)")
    case True
    with Suc.prems(2) have "S\<lparr>it_pc := pc, it_run := r, it_count := it_count S\<rparr> = S"
      by (cases "it_pc S") auto
    with Suc.prems(1) show ?thesis by metis
  next
    case False
    from Suc.prems(2) obtain pc1 r1 where step: "item_step X indR st (it_pc S, it_run S) = Ret (pc1, r1)"
      and rest: "item_steps n X indR st (pc1, r1) = Ret (pc, r)" by auto
    from Suc.IH [OF reach_step [OF Suc.prems(1) item_work [OF False step]]] rest show ?thesis by simp
  qed
qed

text \<open>The demonstration: a user replaces the routines, then the worker goes on to the closing checks.\<close>

lemma demo_item_closing:
  obtains S :: "(nat, unit) item_sys" where "reach (pure_start 1 [map_option Suc] True (Some 3) []) (item_sys_step demo_cond 1 new_qstat) S"
    and "it_pc S = Closing" and "\<not> it_raised S"
proof -
  let ?start = "pure_start 1 [map_option Suc] True (Some 3) []" and ?step = "item_sys_step demo_cond 1 new_qstat"
  define r where "r = on_session (\<lambda>s. snd (composing_setRoutines [] s)) (it_run demo_item)"
  have u: "user_apply (U_set_routines []) (it_run demo_item) = Ret r" by (simp add: r_def)
  have reach1: "reach ?start ?step (demo_item\<lparr>it_run := r, it_raised := it_raised demo_item \<or> (U_set_routines [] :: nat user_act) = U_raise_flush\<rparr>)"
    (is "reach _ _ ?S") by (rule reach_step, rule reach_start, rule demo_item_start, rule item_user [OF u])
  let ?s = "r_session r"
  have f: "routinesHnds ?s = [[], [lambda_unit (map_option Suc)]]" "runprioML ?s = AFK_RUN_LAMBDA_ONLY"
    "s_autodelete ?s" "s_cblk ?s = quiet_block" "dataQueues ?s = [new_hyb (- 1) AFK_BC_NO_BLOCK]"
    by (simp_all add: r_def on_session_def demo_item_def demo_session_def new_csession_def session.extend_def
        new_session_def composing_setRoutines_def session_setRoutines_raw_def)
  have q: "\<not> cancel_requested s" if "s_cblk s = quiet_block" for s :: "(nat, unit) csession"
    using that by (simp add: cancel_requested_def quiet_block_def cb_defs
        session_cancellationRequestedByCallback_def session_cancellationRequestedByStarter_def)
  have "\<exists>r'. item_steps (Suc (Suc (Suc (Suc (Suc (Suc (Suc 0))))))) demo_cond 1 new_qstat (Begin (Some 3), r) = Ret (Closing, r')"
    using f by (simp add: on_session_def on_queue_def Let_def lambda_unit_def call_lambda_def call_routine_def
        pure_routine_def q flush_if_requested_def cb_flushRequested_def quiet_block_def)
  then obtain r' where "item_steps (Suc (Suc (Suc (Suc (Suc (Suc (Suc 0))))))) demo_cond 1 new_qstat (it_pc ?S, it_run ?S) = Ret (Closing, r')"
    by (auto simp: demo_item_def)
  from reach_steps [OF reach1 this] obtain m where "reach ?start ?step (?S\<lparr>it_pc := Closing, it_run := r', it_count := m\<rparr>)" ..
  then show thesis by (rule that) (simp_all add: demo_item_def)
qed

theorem item_result_despite_users_witness:
  "\<exists>S :: (nat, unit) item_sys. reach (pure_start 1 [map_option Suc] True (Some 3) []) (item_sys_step demo_cond 1 new_qstat) S \<and>
     it_pc S = Closing \<and> summaries (it_run S) = [Some 4]"
proof -
  obtain S :: "(nat, unit) item_sys" where S: "reach (pure_start 1 [map_option Suc] True (Some 3) []) (item_sys_step demo_cond 1 new_qstat) S"
    "it_pc S = Closing" "\<not> it_raised S"
    by (rule demo_item_closing)
  from item_result_despite_users [OF S(1)] S(2,3) have "summaries (it_run S) = [Some 4]" by (simp add: composed_def)
  with S show ?thesis by blast
qed

theorem item_keeps_its_routines_witness:
  "\<exists>S :: (nat, unit) item_sys. reach (item_start 1 [lambda_unit (map_option Suc)] AFK_RUN_LAMBDA_ONLY True) (item_sys_step demo_cond 1 new_qstat) S \<and>
     it_pc S = Closing \<and> routinesHnds (it_session S) ! 1 = [lambda_unit (map_option Suc)] \<and> it_count S \<le> 8"
proof -
  obtain S :: "(nat, unit) item_sys" where S: "reach (pure_start 1 [map_option Suc] True (Some 3) []) (item_sys_step demo_cond 1 new_qstat) S"
    "it_pc S = Closing"
    by (rule demo_item_closing)
  from S(1) have "reach (item_start 1 [lambda_unit (map_option Suc)] AFK_RUN_LAMBDA_ONLY True) (item_sys_step demo_cond 1 new_qstat) S"
    by (induction rule: reach.induct) (auto intro: reach.intros simp: pure_start_def)
  with item_keeps_its_routines [OF this] S(2) show ?thesis by auto
qed

end
