(* ===== verification/Threadpool_Workers.thy ===== *)
theory Threadpool_Workers
  imports Threadpool_Types
begin

text \<open>
  What the workers make of \<open>onlineSessions\<close>: a session that is cancelled while it is being run is
  deleted under a worker's feet, one that is cancelled while idle is never deleted and never told,
  one that was paused at the wrong moment is never run again, and one with a position beyond the
  number of workers is never run at all.
\<close>

section \<open>Cancelling a session that is being run\<close>

text \<open>A system of one worker with one session.\<close>

definition one_session :: "('p, 'x) pool \<Rightarrow> ('p, 'x) csession \<Rightarrow> bool" where
  "one_session P s \<longleftrightarrow> allSessions P = [(NumId 7, 0)] \<and> onlineSessions P = [0] \<and> tp_heap P 0 = Some s \<and>
     tp_next P = 1 \<and> tp_gc P = new_gc \<and> scheduled P \<and> \<not> toShutdown P"

definition quiet_session :: "('p, 'x) csession \<Rightarrow> bool" where
  "quiet_session s \<longleftrightarrow> \<not> cancel_requested s \<and> \<not> s_paused s \<and> \<not> s_isStopped s \<and>
     drainable_session s \<and> session_slots_ok s \<and> pending_data (awake s) = [] \<and> \<not> s_cancelled s"

lemma one_worker:
  "sys_reachable X ([w], P) \<Longrightarrow> tworker_step fuel X occ 0 (w, P) = Some (Ret (w', P')) \<Longrightarrow>
   sys_reachable X ([w'], P')"
  using sys_reachable_work [of X "[w]" P 0] by simp

lemma created_session_quiet:
  assumes "s = pool_configure sp (new_csession mode on ad name quiet_block (- 1))"
  shows "quiet_session (s\<lparr>dataQueues := []\<rparr>)"
proof -
  have "session_slots_ok s"
    unfolding assms
    by (simp add: pool_configure_def Let_def session_setSummary_def session_setProgressRoutine_def
        composing_setRoutines_def session_setRoutines_raw_def session_setCancellationHandler_def
        session_setInternalCancellationHandler_def session_setExpirationSummary_def
        session_setExpirationCondition_def new_csession_def session.extend_def new_session_def
        session_slots_ok_def slots_ok_def split: option.split)
  moreover have "\<not> cancel_requested s"
    using configured_slots(10,11) [OF assms]
    by (simp add: cancel_requested_def session_cancellationRequestedByCallback_def
        session_cancellationRequestedByStarter_def cb_defs quiet_block_def)
  ultimately show ?thesis
    using configured_slots [OF assms]
    by (simp add: quiet_session_def drainable_session_def pending_data_def session_slots_ok_def
        awake_def session_adoptDataFromZeroQueue_def)
qed

lemma new_pool_one:
  obtains P :: "('p, 'x) pool" where "new_pool 1 = Ret (1, P)" and "allSessions P = []"
    and "onlineSessions P = []" and "tp_gc P = new_gc" and "tp_next P = 0" and "\<not> toShutdown P"
    and "scheduled P"
proof -
  let ?r = "pool_createThreads 1 (- 1) new_state :: (nat \<times> ('p, 'x) pool) outcome"
  obtain P where "?r = Ret (1, P)" "allSessions P = []" "onlineSessions P = []" "tp_gc P = new_gc"
    "tp_next P = 0" "\<not> toShutdown P" "scheduled P"
    by (simp add: pool_createThreads_def Let_def new_state_def new_sched_def sched.extend_def scheduled_def)
  then show thesis
    by (intro that [of "P\<lparr>shutdownCont := shutdownCont P + 1\<rparr>"]) (simp_all add: new_pool_def scheduled_def)
qed

lemma one_session_starts:
  "\<exists>P s :: ('p, 'x) csession. sys_reachable X ([new_worker], P) \<and> one_session P s \<and> quiet_session s"
proof -
  obtain P0 :: "('p, 'x) pool" where P0: "new_pool 1 = Ret (1, P0)" "allSessions P0 = []"
    "onlineSessions P0 = []" "tp_gc P0 = new_gc" "tp_next P0 = 0" "\<not> toShutdown P0" "scheduled P0"
    by (rule new_pool_one)
  have r0: "sys_reachable X ([new_worker], P0)"
    using sys_reachable_start [OF P0(1), of X] by simp
  let ?sp = "demo_params :: ('p, 'x) session_params"
  define s where "s = pool_configure ?sp (new_csession (sp_blockCallMode ?sp) True (sp_autodelete ?sp)
    (sp_sessionName ?sp) quiet_block (- 1))"
  note slots = configured_slots [OF s_def]
  show ?thesis
  proof (cases rule: create_cases [where P = P0 and sp = ?sp and cb = quiet_block and occ = "- 1"])
    case (fresh s')
    have s': "s' = s\<lparr>dataQueues := []\<rparr>"
      using fresh(2) slots
      by (simp add: composing_deploy_def composing_reconfigureDataqueues_def flip: s_def)
    define P1 where "P1 = P0\<lparr>allSessions := [(NumId 7, 0)], onlineSessions := [0],
        tp_heap := (tp_heap P0)(0 := Some s'), tp_next := 1\<rparr>"
    have "pool_apply (Create quiet_block (- 1) (Some ?sp)) P0 = Ret P1"
      using fresh(3) P0 by (simp add: P1_def quiet_block_def cb_getSessionId_def)
    with r0 have "sys_reachable X ([new_worker], P1)" by (rule sys_reachable_call)
    moreover have "one_session P1 s'" using P0 by (simp add: one_session_def P1_def scheduled_def)
    moreover have "quiet_session s'" unfolding s' by (rule created_session_quiet [OF s_def])
    ultimately show ?thesis by blast
  next
    case clash
    with P0(2) show ?thesis by simp
  qed
qed

text \<open>The worker collects nothing and chooses the session.\<close>

lemma pull_upto_new: "pull_upto queue_pull releasing_batch_size new_queue = Ret ([], new_queue)"
proof -
  have q: "queue_pull new_queue = Ret (None, new_queue)"
    by (simp add: queue_pull_def queue_pull_take_def size_of_def)
  have "pull_upto queue_pull (Suc n) new_queue = Ret ([], new_queue)" for n
    by (simp only: pull_upto.simps q obind.simps) simp
  from this [of 999] show ?thesis by (simp only: releasing_batch_size_def) simp
qed

lemma collect_new_gc:
  assumes "tp_gc P = new_gc"
  shows "worker_collect P = Ret P"
proof -
  have d: "gc_dispose f new_gc = Ret (\<lparr>d_data = [], d_wrappers = [], d_sessions = [], d_forgotten = []\<rparr>, new_gc)" for f
    by (simp add: gc_dispose_def new_gc_def pull_upto_new)
  have e: "delete_sessions \<lparr>d_data = ds, d_wrappers = ws, d_sessions = [], d_forgotten = []\<rparr> (P\<lparr>tp_gc := new_gc\<rparr>)
      = Ret P" for ds ws
    using assms by (cases P) (simp add: delete_sessions_def)
  show ?thesis unfolding worker_collect_def assms d by (simp add: e del: obind_Ret_iff)
qed

lemma one_session_chosen:
  assumes "sys_reachable X ([w], P)" and "w_pc w = W_top" and "one_session P s" and "quiet_session s"
  shows "\<exists>w' P'. sys_reachable X ([w'], P') \<and> w_pc w' = W_run 0 \<and> one_session P' s"
proof -
  let ?w1 = "w\<lparr>w_pc := W_collect\<rparr>" and ?w2 = "w\<lparr>w_pc := W_collect\<rparr>\<lparr>w_pc := W_pick\<rparr>"
  have o: "onlineSessions P = [0]" "tp_heap P 0 = Some s" "scheduled P" "tp_gc P = new_gc" "\<not> toShutdown P"
    using assms(3) by (simp_all add: one_session_def)
  have r1: "sys_reachable X ([?w1], P)"
    by (rule one_worker [OF assms(1), of 0 undefined]) (use assms(2) o(5) in simp)
  have r2: "sys_reachable X ([?w2], P)"
    by (rule one_worker [OF r1, of 0 undefined]) (simp add: collect_new_gc [OF o(4)])
  have nc: "\<not> session_cancellationRequested s"
    using assms(4) by (simp add: quiet_session_def cancel_requested_def session_cancellationRequested_def
        session_cancellationRequestedByCallback_def session_cancellationRequestedByStarter_def cb_defs)
  obtain slot' vs where p: "worker_pick 0 (selectedSlot ?w2) P = Ret ((slot', Some 0), with_bounds vs P)"
    by (rule pick_scheduled [of P 0 "selectedSlot ?w2"]) (use o nc in \<open>simp_all add: pool_deref_def\<close>)
  let ?w3 = "?w2\<lparr>selectedSlot := slot', w_pc := W_run 0\<rparr>"
  have r3: "sys_reachable X ([?w3], with_bounds vs P)"
    by (rule one_worker [OF r2, of 0 undefined]) (use p in simp)
  have "one_session (with_bounds vs P) s"
    using assms(3) scheduled_with_bounds [OF o(3), of vs] o(1) by (simp add: one_session_def)
  with r3 show ?thesis
    by (intro exI conjI) (assumption, simp, assumption)
qed

lemma awake_cancel: "pending_data (awake (composing_cancel s)) = pending_data (awake s)"
  by (auto simp: awake_def composing_cancel_def session_adoptDataFromZeroQueue_def pending_data_def Let_def)

lemma cast_new_gc:
  "gc_open (gc_cast_session p new_gc)" "\<not> gc_active (gc_cast_session p new_gc)"
  "itsQ (killedSessions (gc_cast_session p new_gc)) = [p]"
proof -
  have "1 \<le> i64_max" by (simp add: i64_max_def word_le_nat_alt)
  then show "gc_open (gc_cast_session p new_gc)" "\<not> gc_active (gc_cast_session p new_gc)"
    "itsQ (killedSessions (gc_cast_session p new_gc)) = [p]"
    by (simp_all add: gc_cast_session_def new_gc_def gc_open_def size_of_def queue_castObject_def queue_open_def)
qed

text \<open>
  A user cancels the session while the worker is about to run it. The run marks it as cancelled; it
  waits for the collector and is still among the online ones.
\<close>

lemma cancelled_runs:
  fixes P :: "('p, 'x) pool"
  assumes "sys_reachable X ([w], P)" and "w_pc w = W_run 0" and "one_session P s" and "quiet_session s"
  shows "\<exists>P' :: ('p, 'x) pool. sys_reachable X ([w\<lparr>w_pc := W_top\<rparr>], P') \<and> onlineSessions P' = [0] \<and> killed P' = [0] \<and>
     ptr_cancelled P' 0 \<and> gc_open (tp_gc P') \<and> \<not> gc_active (tp_gc P') \<and> scheduled P' \<and> \<not> toShutdown P'"
proof -
  let ?s = "composing_cancel s" and ?g = "gc_cast_session 0 new_gc :: 'p gc"
  have o: "map_of (allSessions P) (NumId 7) = Some 0" "tp_heap P 0 = Some s" "onlineSessions P = [0]"
    "tp_gc P = new_gc" "scheduled P" "\<not> toShutdown P"
    using assms(3) by (simp_all add: one_session_def)
  obtain c where "pool_cancelSession (NumId 7) P = Ret (True, (pool_store 0 ?s P)
     \<lparr>countPaused := c, allSessions := AList.delete (NumId 7) (allSessions P), tp_gc := ?g\<rparr>)" (is "_ = Ret (_, ?P1)")
    using cancel_eq [OF o(1,2)] o(4) by metis
  then have r1: "sys_reachable X ([w], ?P1)"
    by (intro sys_reachable_call [OF assms(1), of "Cancel (NumId 7)"]) (simp add: effect_def)
  have h1: "tp_heap ?P1 0 = Some ?s" by (simp add: pool_store_def)
  have q: "cancel_requested ?s" "\<not> s_isStopped ?s" "drainable_session ?s" "session_slots_ok ?s"
    "\<not> session_isPaused ?s" "pending_data (awake ?s) = []"
    using assms(4) awake_cancel [of s]
    by (simp_all add: quiet_session_def composing_cancel_def cancel_requested_def
        session_cancellationRequestedByStarter_def cb_defs drainable_session_def session_slots_ok_def
        session_isPaused_def)
  let ?r = "\<lparr>r_session = ?s, r_gc = tp_gc ?P1, r_events = tp_events ?P1\<rparr>"
  obtain r' where sel: "composing_select 0 X 0 0 ?r = Some (Ret (eAFK_ES_WAS_CANCELLED, r'))"
    "r_gc r' = ?g" "s_cancelled (r_session r')"
    using select_cancels [of ?r 0 X 0 0] q by (auto simp: discard_def)
  let ?P2 = "(pool_store 0 (r_session r') ?P1)\<lparr>tp_gc := ?g, tp_events := r_events r'\<rparr>"
  have "worker_run 0 X 0 0 ?P1 = Some (Ret ?P2)"
    using q(5) sel(1,2) unfolding worker_run_def h1 by simp
  then have r2: "sys_reachable X ([w\<lparr>w_pc := W_top\<rparr>], ?P2)"
    by (intro one_worker [OF r1, of 0 0]) (simp add: assms(2))
  moreover have "gc_open ?g" "\<not> gc_active ?g" "itsQ (killedSessions ?g) = [0]" by (rule cast_new_gc)+
  ultimately show ?thesis
    using sel(3) o by (intro exI [of _ ?P2] conjI)
      (simp_all add: pool_store_def ptr_cancelled_def session_isCancelled_def scheduled_def)
qed

text \<open>
  C26: Cancelling a session that is being run leads to a use after free. There is a reachable state
  of the pool with its one worker in which the next step of the worker looks at a session that the
  collector has deleted: the user creates a session, the worker chooses it, the user cancels it, the
  worker runs it and marks it as cancelled, collects it, and finds it among the online sessions,
  which nobody took it off.
\<close>

theorem cancel_while_running_use_after_free:
  "\<exists>w (P :: ('p, 'x) pool). sys_reachable X ([w], P) \<and>
     tworker_step fuel X occ 0 (w, P) = Some (Fault Use_after_free)"
proof -
  obtain P0 :: "('p, 'x) pool" and s0 where "sys_reachable X ([new_worker], P0)" "one_session P0 s0" "quiet_session s0"
    using one_session_starts by blast
  moreover have "w_pc new_worker = W_top" by (simp add: new_worker_def)
  ultimately obtain w1 and P1 :: "('p, 'x) pool" where "sys_reachable X ([w1], P1)" "w_pc w1 = W_run 0"
    "one_session P1 s0" using one_session_chosen by blast
  with \<open>quiet_session s0\<close> obtain P2 :: "('p, 'x) pool" where P2: "sys_reachable X ([w1\<lparr>w_pc := W_top\<rparr>], P2)" "onlineSessions P2 = [0]"
    "killed P2 = [0]" "ptr_cancelled P2 0" "gc_open (tp_gc P2)" "\<not> gc_active (tp_gc P2)" "scheduled P2" "\<not> toShutdown P2"
    using cancelled_runs by blast
  let ?w = "w1\<lparr>w_pc := W_collect\<rparr>"
  have r: "sys_reachable X ([?w], P2)"
    by (rule one_worker [OF P2(1), of 0 undefined]) (use P2(8) in simp)
  have ok: "pool_ok P2" using reachable_ok [OF P2(1)] by simp
  obtain P3 where P3: "worker_collect P2 = Ret P3" "worker_pick 0 (selectedSlot ?w) P3 = Fault Use_after_free"
    using collect_then_pick_faults [OF ok P2(7,5,6), of 0 "selectedSlot ?w"] P2(2,3,4) by auto
  have "sys_reachable X ([?w\<lparr>w_pc := W_pick\<rparr>], P3)"
    by (rule one_worker [OF r, of 0 undefined]) (simp add: P3(1))
  moreover have "tworker_step fuel X occ 0 (?w\<lparr>w_pc := W_pick\<rparr>, P3) = Some (Fault Use_after_free)"
    using P3(2) by simp
  ultimately show ?thesis by (intro exI conjI)
qed

section \<open>Cancelling a session that is idle\<close>

text \<open>A session that is allocated, but neither registered nor waiting for the collector.\<close>

definition forgotten :: "session_ptr \<Rightarrow> ('p, 'x) pool \<Rightarrow> bool" where
  "forgotten p P \<longleftrightarrow> tp_heap P p \<noteq> None \<and> p \<notin> set (session_ptrs P @ killed P)"

lemma forgotten_same: "pool_same P P' \<Longrightarrow> forgotten p P' = forgotten p P"
  by (simp add: forgotten_def pool_same_def)

lemma forgotten_create:
  assumes "pool_ok P" and "forgotten p P" and "pool_createComposingSession cb occ separams P = Ret (i, P')"
  shows "forgotten p P'"
proof (cases separams)
  case None
  with assms show ?thesis by (simp add: pool_createComposingSession_def)
next
  case (Some sp)
  have p: "p \<noteq> tp_next P" using assms(1,2) by (auto simp: pool_ok_def heap_ok_def forgotten_def)
  show ?thesis
    by (cases rule: create_cases [where P = P and sp = sp and cb = cb and occ = occ])
      (use assms(2,3) Some p in \<open>auto simp: forgotten_def\<close>)
qed

lemma forgotten_cancel:
  assumes "pool_ok P" and "forgotten p P" and "pool_cancelSession i P = Ret (b, P')"
  shows "forgotten p P'"
proof (cases "map_of (allSessions P) i")
  case None
  with assms show ?thesis by (simp add: pool_cancelSession_def)
next
  case (Some q)
  then have q: "q \<in> set (session_ptrs P)" by (force dest: map_of_SomeD)
  with pool_ok_live [OF assms(1), of q] obtain ss where ss: "tp_heap P q = Some ss" by auto
  obtain n where P': "P' = (pool_store q (composing_cancel ss) P)
     \<lparr>countPaused := n, allSessions := AList.delete i (allSessions P),
      tp_gc := gc_cast_session q (tp_gc P)\<rparr>"
    using cancel_eq [OF Some ss] assms(3) by (metis outcome.inject prod.inject)
  have "set (killed P') \<subseteq> insert q (set (killed P))"
    using killed_cast [of q "killedSessions (tp_gc P)"] by (auto simp: P' gc_cast_session_def)
  moreover have "set (session_ptrs P') \<subseteq> set (session_ptrs P)" using map_snd_delete by (simp add: P')
  moreover have "tp_heap P' p \<noteq> None" using assms(2) by (simp add: P' pool_store_def forgotten_def)
  ultimately show ?thesis using assms(2) q unfolding forgotten_def by auto
qed

text \<open>Only what comes out of the collector's queue is deleted.\<close>

lemma forgotten_delete:
  assumes "forgotten p P" and "killed P = ts @ itsQ (killedSessions g)" and "d_sessions d = filter c ts"
    and "delete_sessions d (P\<lparr>tp_gc := g\<rparr>) = Ret P'"
  shows "forgotten p P'"
  using assms by (auto simp: delete_sessions_def forgotten_def split: if_splits cong: if_cong)

lemma forgotten_collect:
  assumes "forgotten p P" and "worker_collect P = Ret P'"
  shows "forgotten p P'"
proof (cases "gc_active (tp_gc P)")
  case True
  with assms show ?thesis by (simp add: worker_collect_def)
next
  case False
  with assms(2) obtain d g where d: "gc_dispose (ptr_cancelled P) (tp_gc P) = Ret (d, g)"
    "delete_sessions d (P\<lparr>tp_gc := g\<rparr>) = Ret P'"
    by (auto simp: worker_collect_def)
  from dispose_splits [OF d(1)] forgotten_delete [OF assms(1) _ _ d(2)] show ?thesis by metis
qed

lemma forgotten_complete:
  assumes "forgotten p P" and "worker_complete P = Ret P'"
  shows "forgotten p P'"
proof -
  let ?P = "P\<lparr>shutdownComplete := True\<rparr>"
  from assms(2) obtain d g where d: "gc_disposeAll (ptr_cancelled P) (tp_gc P) = Some (d, g)"
    "delete_sessions d (?P\<lparr>tp_gc := g\<rparr>) = Ret P'"
    by (auto simp: worker_complete_def returns_def split: option.splits)
  have "forgotten p ?P" "killed ?P = killed P" using assms(1) by (simp_all add: forgotten_def)
  with disposeAll_splits [OF d(1)] forgotten_delete [OF _ _ _ d(2)] show ?thesis by metis
qed

lemma forgotten_work:
  assumes "forgotten p P" and "tworker_step fuel X occ i (w, P) = Some (Ret (w', P'))"
  shows "forgotten p P'"
proof (cases "w_pc w")
  case W_collect
  with assms forgotten_collect [of p P] show ?thesis by auto
next
  case W_pick
  with assms show ?thesis by (auto dest!: pick_same simp: forgotten_same)
next
  case (W_run q)
  with assms(2) obtain res where "worker_run fuel X occ q P = Some res"
    "obind res (\<lambda>P'. Ret (w\<lparr>w_pc := W_top\<rparr>, P')) = Ret (w', P')"
    by auto
  with assms(1) show ?thesis by (auto dest!: run_same simp: forgotten_same)
next
  case W_complete
  with assms forgotten_complete [of p P] show ?thesis by auto
qed (use assms in \<open>auto simp: forgotten_def\<close>)

lemma forgotten_call:
  assumes "pool_ok P" and "forgotten p P" and "pool_apply c P = Ret P'"
  shows "forgotten p P'"
proof -
  consider (create) cb occ sp where "c = Create cb occ sp" | (cancel) i where "c = Cancel i"
    | (other) "\<nexists>cb occ sp. c = Create cb occ sp" "\<nexists>i. c = Cancel i" by blast
  then show ?thesis
  proof cases
    case create
    with assms(3) obtain i where "pool_createComposingSession cb occ sp P = Ret (i, P')" by auto
    with assms(1,2) show ?thesis by (rule forgotten_create)
  next
    case cancel
    with assms(3) obtain b where "pool_cancelSession i P = Ret (b, P')" by auto
    with assms(1,2) show ?thesis by (rule forgotten_cancel)
  next
    case other
    from pool_apply_same [OF assms(3) this] assms(2) show ?thesis by (simp add: forgotten_same)
  qed
qed

interpretation forgotten_invariant: invariant "\<lambda>S. pool_ok (snd S) \<and> forgotten p (snd S)" "sys_step X"
  "\<lambda>S. pool_ok (snd S) \<and> forgotten p (snd S)"
proof (unfold_locales, goal_cases)
  case (2 S S')
  from 2(2) show ?case
  proof cases
    case (call c P P' ws)
    then have ok: "pool_ok P" and fg: "forgotten p P" using 2(1) by simp_all
    have "pool_ok P'" by (rule pool_apply_ok [OF ok call(3)])
    moreover have "forgotten p P'" by (rule forgotten_call [OF ok fg call(3)])
    ultimately show ?thesis by (simp add: call(2))
  next
    case (work i ws fuel occ P w P')
    then have ok: "pool_ok P" and fg: "forgotten p P" using 2(1) by simp_all
    have "pool_ok P'" by (rule worker_step_ok [OF ok work(4)])
    moreover have "forgotten p P'" by (rule forgotten_work [OF fg work(4)])
    ultimately show ?thesis by (simp add: work(2))
  qed
qed


lemma idle_cancel_forgets:
  fixes P :: "('p, 'x) pool"
  assumes "sys_reachable X ([w], P)" and "w_pc w = W_top" and "one_session P s" and "quiet_session s"
  shows "\<exists>w' (P' :: ('p, 'x) pool). sys_reachable X ([w'], P') \<and> forgotten 0 P' \<and> tp_events P' = tp_events P"
proof -
  let ?s = "composing_cancel s" and ?g = "gc_cast_session 0 new_gc :: 'p gc" and ?w = "w\<lparr>w_pc := W_collect\<rparr>"
  have o: "map_of (allSessions P) (NumId 7) = Some 0" "tp_heap P 0 = Some s" "tp_gc P = new_gc" "\<not> toShutdown P"
    "allSessions P = [(NumId 7, 0)]"
    using assms(3) by (simp_all add: one_session_def)
  obtain c where "pool_cancelSession (NumId 7) P = Ret (True, (pool_store 0 ?s P)
     \<lparr>countPaused := c, allSessions := AList.delete (NumId 7) (allSessions P), tp_gc := ?g\<rparr>)" (is "_ = Ret (_, ?P1)")
    using cancel_eq [OF o(1,2)] o(3) by metis
  then have r1: "sys_reachable X ([w], ?P1)"
    by (intro sys_reachable_call [OF assms(1), of "Cancel (NumId 7)"]) (simp add: effect_def)
  then have r2: "sys_reachable X ([?w], ?P1)"
    by (rule one_worker [of _ _ _ 0 undefined]) (use assms(2) o(4) in \<open>simp add: pool_store_def\<close>)
  have g: "gc_open ?g" "\<not> gc_active ?g" "itsQ (killedSessions ?g) = [0]" by (rule cast_new_gc)+
  have ok1: "pool_ok ?P1" using reachable_ok [OF r1] by (simp only: snd_conv)
  have g1: "gc_open (tp_gc ?P1)" "\<not> gc_active (tp_gc ?P1)" using g(1,2) by simp_all
  obtain g' where P2: "worker_collect ?P1 = Ret (?P1\<lparr>tp_gc := g',
       tp_heap := (\<lambda>p. if p \<in> set (take 1000 (killed ?P1)) \<and> ptr_cancelled ?P1 p then None else tp_heap ?P1 p)\<rparr>)"
    "gc_open g'" "\<not> gc_active g'" "itsQ (killedSessions g') = drop 1000 (killed ?P1)"
    by (rule collect_runs [OF ok1 g1])
  let ?P2 = "?P1\<lparr>tp_gc := g',
       tp_heap := (\<lambda>p. if p \<in> set (take 1000 (killed ?P1)) \<and> ptr_cancelled ?P1 p then None else tp_heap ?P1 p)\<rparr>"
  have "sys_reachable X ([?w\<lparr>w_pc := W_pick\<rparr>], ?P2)"
    by (rule one_worker [OF r2, of 0 undefined]) (simp add: P2(1))
  moreover have "\<not> ptr_cancelled ?P1 0"
    using assms(4) by (simp add: quiet_session_def ptr_cancelled_def pool_store_def session_isCancelled_def composing_cancel_def)
  then have "forgotten 0 ?P2"
    using P2(4) g(3) o(5) by (simp add: forgotten_def pool_store_def)
  ultimately show ?thesis by (intro exI [of _ "?w\<lparr>w_pc := W_pick\<rparr>"] exI [of _ ?P2]) (simp add: pool_store_def)
qed



section \<open>Sessions that no worker turns to\<close>

lemma pick_position:
  assumes "worker_pick sel slot P = Ret ((slot', Some p), P')"
  shows "onlineSessions P' = onlineSessions P" and "sel < length (onlineSessions P)"
    and "p = onlineSessions P ! sel"
proof -
  obtain tpc' P1 where r: "state_reassignProcs (tpcfg P) (size_of (onlineSessions (resize_bounds P)))
      (resize_bounds P) = Ret (tpc', P1)"
    using assms by (auto simp: worker_pick_def Let_def simp del: resize_keeps)
  have on: "onlineSessions P1 = onlineSessions P" using reassign_keeps(2) [OF r] by simp
  have "sel < length (onlineSessions P1) \<and> p = onlineSessions P1 ! sel \<and> P' = P1"
    using assms(1) unfolding worker_pick_def Let_def r obind.simps prod.case
    by (auto split: list.splits if_splits)
  with on show "onlineSessions P' = onlineSessions P" "sel < length (onlineSessions P)"
    "p = onlineSessions P ! sel" by simp_all
qed

text \<open>
  C35: A worker turns to the session at its own position only. What worker \<open>sel\<close> takes away from
  the choice is the session at position \<open>sel\<close> of the online ones, and the choice leaves their
  order as it is. With \<open>k\<close> workers no choice is ever one of the sessions from position \<open>k\<close> on,
  although \<open>reassignProcs\<close> has shared them out among the processors.
\<close>

theorem later_sessions_never_chosen:
  assumes "worker_pick sel slot P = Ret ((slot', Some p), P')" and "distinct (onlineSessions P)"
  shows "onlineSessions P' = onlineSessions P \<and> sel < length (onlineSessions P) \<and>
     p = onlineSessions P ! sel \<and> (sel < k \<longrightarrow> p \<notin> set (drop k (onlineSessions P)))"
proof -
  note pos = pick_position [OF assms(1)]
  have "p \<notin> set (drop k (onlineSessions P))" if "sel < k"
  proof
    assume "p \<in> set (drop k (onlineSessions P))"
    then obtain j where "j < length (onlineSessions P) - k" "onlineSessions P ! (k + j) = p"
      by (auto simp: in_set_conv_nth)
    with pos assms(2) that show False by (auto simp: nth_eq_iff_index_eq)
  qed
  with pos show ?thesis by auto
qed

theorem later_sessions_never_chosen_witness:
  "\<exists>slot' P'. worker_pick 0 0 ((demo_pool (demo_session True [] id []))\<lparr>onlineSessions := [0, 1]\<rparr>) =
       Ret ((slot', Some 0), P' :: (nat, unit) pool) \<and> 1 \<in> set (drop 1 (onlineSessions P'))"
proof -
  let ?P = "(demo_pool (demo_session True [] id []))\<lparr>onlineSessions := [0, 1]\<rparr> :: (nat, unit) pool"
  have s: "scheduled ?P" by (simp add: scheduled_def)
  have nc: "\<not> session_cancellationRequested (demo_session True [] id [] :: (nat, unit) csession)"
    by (simp add: session_cancellationRequested_def cb_defs quiet_block_def)
  obtain slot' vs where p: "worker_pick 0 0 ?P = Ret ((slot', Some 0), with_bounds vs ?P)"
    by (rule pick_scheduled [OF s, of 0 0]) (use nc in \<open>simp_all add: pool_deref_def\<close>)
  from later_sessions_never_chosen [OF p, of 1] show ?thesis using p by auto
qed



end
