(* ===== verification/Threadpool_Shutdown.thy ===== *)
theory Threadpool_Shutdown
  imports Threadpool_Inv
begin

text \<open>
  Shutting the pool down. \<open>shutdownCont\<close> starts as the number of workers, every worker that sees the
  flag takes one away, and whoever then finds zero empties the collector and sets
  \<open>shutdownComplete\<close>, for which \<open>shutdown\<close> waits.
\<close>

section \<open>Who touches the counters\<close>

definition shutdown_ctl :: "('p, 'x) pool \<Rightarrow> u16 \<times> bool" where
  "shutdown_ctl P = (shutdownCont P, shutdownComplete P)"

lemma ctl_frame [simp]:
  "shutdown_ctl (pool_store p s P) = shutdown_ctl P"
  "shutdown_ctl (P\<lparr>countPaused := c\<rparr>) = shutdown_ctl P"
  "shutdown_ctl (P\<lparr>toShutdown := b\<rparr>) = shutdown_ctl P"
  "shutdown_ctl (P\<lparr>tp_events := e\<rparr>) = shutdown_ctl P"
  "shutdown_ctl (P\<lparr>tp_gc := g\<rparr>) = shutdown_ctl P"
  "shutdown_ctl (P\<lparr>tp_heap := h\<rparr>) = shutdown_ctl P"
  "shutdown_ctl (P\<lparr>tp_next := n\<rparr>) = shutdown_ctl P"
  "shutdown_ctl (P\<lparr>allSessions := ss\<rparr>) = shutdown_ctl P"
  "shutdown_ctl (P\<lparr>onlineSessions := os\<rparr>) = shutdown_ctl P"
  "shutdown_ctl (P\<lparr>tpcfg := t\<rparr>) = shutdown_ctl P"
  "shutdown_ctl (P\<lparr>vectProc2Bounds := vs\<rparr>) = shutdown_ctl P"
  by (simp_all add: shutdown_ctl_def pool_store_def)

lemma pool_with_ctl: "pool_with i r0 f P = Ret (r, P') \<Longrightarrow> shutdown_ctl P' = shutdown_ctl P"
  by (auto simp: pool_with_def split_beta split: option.splits)

lemma pool_each_ctl: "pool_each f ps P = Ret P' \<Longrightarrow> shutdown_ctl P' = shutdown_ctl P"
  by (induction ps arbitrary: P) fastforce+

lemma pool_flush_ptr_ctl: "pool_flush_ptr p P = Ret P' \<Longrightarrow> shutdown_ctl P' = shutdown_ctl P"
  by (auto simp: pool_flush_ptr_def)

lemma flush_each_ctl: "flush_each ps P = Ret P' \<Longrightarrow> shutdown_ctl P' = shutdown_ctl P"
  by (induction ps arbitrary: P) (fastforce dest: pool_flush_ptr_ctl)+

lemma create_ctl:
  "pool_createComposingSession cb occ separams P = Ret (i, P') \<Longrightarrow> shutdown_ctl P' = shutdown_ctl P"
  by (auto simp: pool_createComposingSession_def pool_addSession_def Let_def
      split: option.splits if_splits)

lemma cancel_ctl: "pool_cancelSession i P = Ret (b, P') \<Longrightarrow> shutdown_ctl P' = shutdown_ctl P"
  by (auto simp: pool_cancelSession_def Let_def split: option.splits)

lemma pool_apply_ctl:
  assumes "pool_apply c P = Ret P'"
  shows "shutdown_ctl P' = shutdown_ctl P"
  using assms
  by (cases c)
    (auto simp: pool_setters dest!: pool_with_ctl pool_each_ctl pool_flush_ptr_ctl flush_each_ctl
      create_ctl cancel_ctl split: if_splits option.splits)

lemma reassign_ctl: "state_reassignProcs tpc n P = Ret (tpc', P') \<Longrightarrow> shutdown_ctl P' = shutdown_ctl P"
  by (auto simp: state_reassignProcs_def Let_def)

lemma resize_ctl [simp]: "shutdown_ctl (resize_bounds P) = shutdown_ctl P"
  by (simp add: resize_bounds_def)

lemma clone_ctl: "state_cloneSessionsMap2Vector P = Ret P' \<Longrightarrow> shutdown_ctl P' = shutdown_ctl P"
  by (auto simp: state_cloneSessionsMap2Vector_def)

lemma delete_ctl: "delete_sessions d P = Ret P' \<Longrightarrow> shutdown_ctl P' = shutdown_ctl P"
  by (auto simp: delete_sessions_def split: if_splits)

lemma collect_ctl: "worker_collect P = Ret P' \<Longrightarrow> shutdown_ctl P' = shutdown_ctl P"
  by (auto simp: worker_collect_def dest!: delete_ctl split: if_splits)

lemma complete_ctl: "worker_complete P = Ret P' \<Longrightarrow> shutdown_ctl P' = (shutdownCont P, True)"
  by (auto simp: worker_complete_def dest!: delete_ctl) (simp add: shutdown_ctl_def)

lemma run_ctl: "worker_run fuel X occ ss P = Some (Ret P') \<Longrightarrow> shutdown_ctl P' = shutdown_ctl P"
  by (auto simp: worker_run_def split: option.splits if_splits)

lemma pick_ctl:
  assumes "worker_pick sel slot P = Ret (r, P')"
  shows "shutdown_ctl P' = shutdown_ctl P"
proof -
  obtain tpc' P1 where r: "state_reassignProcs (tpcfg P) (size_of (onlineSessions (resize_bounds P)))
      (resize_bounds P) = Ret (tpc', P1)"
    using assms by (auto simp: worker_pick_def Let_def simp del: resize_keeps)
  from reassign_ctl [OF r] have P1: "shutdown_ctl P1 = shutdown_ctl P" by simp
  show ?thesis
    using assms P1 unfolding worker_pick_def Let_def r obind.simps prod.case
    by (auto dest!: clone_ctl reassign_ctl split: list.splits if_splits)
qed

section \<open>The count of the workers\<close>

text \<open>A worker counts until it has taken itself away; the last stage of an end is open until the flag is up.\<close>

fun counts :: "worker_pc \<Rightarrow> bool" where
  "counts W_check = False"
| "counts W_complete = False"
| "counts W_notify = False"
| "counts W_done = False"
| "counts _ = True"

definition active :: "worker list \<Rightarrow> nat" where
  "active ws = length (filter (\<lambda>w. counts (w_pc w)) ws)"

lemma active_zero: "active ws = 0 \<longleftrightarrow> (\<forall>w \<in> set ws. \<not> counts (w_pc w))"
  by (simp add: active_def filter_empty_conv)

definition shutdown_inv :: "worker list \<Rightarrow> u16 \<times> bool \<Rightarrow> bool" where
  "shutdown_inv ws c \<longleftrightarrow> fst c = word_of_nat (active ws) \<and>
     (snd c \<or> (\<exists>w \<in> set ws. w_pc w = W_complete) \<longrightarrow> active ws = 0) \<and>
     (active ws = 0 \<and> ws \<noteq> [] \<longrightarrow> snd c \<or> (\<exists>w \<in> set ws. w_pc w = W_check \<or> w_pc w = W_complete))"

lemma active_update:
  assumes "i < length ws"
  shows "active (ws[i := w]) + (if counts (w_pc (ws ! i)) then 1 else 0) =
    active ws + (if counts (w_pc w) then 1 else 0)"
  using assms
proof (induction ws arbitrary: i)
  case Nil
  then show ?case by simp
next
  case (Cons v ws)
  then show ?case by (cases i) (auto simp: active_def)
qed

lemma small_word_zero: "n < 2 ^ 16 \<Longrightarrow> (word_of_nat n = (0 :: u16)) = (n = 0)"
  by (auto simp: word_of_nat_eq_0_iff dest: dvd_imp_le)

lemma active_le: "active ws \<le> length ws"
  by (simp add: active_def)

text \<open>
  A step of a worker, as far as the counters see it: it goes on counting, takes itself away, looks
  at the counter, completes, or is past all that.
\<close>

lemma worker_ctl:
  assumes "tworker_step fuel X occ i (w, P) = Some (Ret (w', P'))"
  shows "counts (w_pc w) \<and> counts (w_pc w') \<and> shutdown_ctl P' = shutdown_ctl P \<or>
     counts (w_pc w) \<and> w_pc w' = W_check \<and> shutdown_ctl P' = (shutdownCont P - 1, shutdownComplete P) \<or>
     w_pc w = W_check \<and> w_pc w' = (if shutdownCont P = 0 then W_complete else W_notify) \<and>
       shutdown_ctl P' = shutdown_ctl P \<or>
     w_pc w = W_complete \<and> w_pc w' = W_notify \<and> shutdown_ctl P' = (shutdownCont P, True) \<or>
     w_pc w \<in> {W_notify, W_done} \<and> w_pc w' = W_done \<and> shutdown_ctl P' = shutdown_ctl P"
proof (cases "w_pc w")
  case W_pick
  with assms show ?thesis by (auto dest!: pick_ctl split: option.splits)
next
  case (W_run p)
  with assms obtain res where "worker_run fuel X occ p P = Some res"
    "obind res (\<lambda>P'. Ret (w\<lparr>w_pc := W_top\<rparr>, P')) = Ret (w', P')"
    by auto
  with W_run show ?thesis by (auto dest!: run_ctl)
qed (use assms in \<open>auto dest!: collect_ctl complete_ctl simp: shutdown_ctl_def\<close>)

lemma shutdown_inv_start: "shutdown_inv (replicate k new_worker) (word_of_nat k, False)"
  by (cases k) (simp_all add: shutdown_inv_def new_worker_def active_def)

text \<open>The invariant under each of them.\<close>

lemma in_update:
  assumes "i < length ws" and "v \<in> set ws" and "w_pc v \<noteq> w_pc (ws ! i)"
  shows "v \<in> set (ws[i := w'])"
proof -
  from assms(2) obtain j where j: "j < length ws" "ws ! j = v" by (auto simp: in_set_conv_nth)
  with assms(3) have "i \<noteq> j" by auto
  with j have "j < length (ws[i := w'])" "ws[i := w'] ! j = v" by simp_all
  then show ?thesis by (metis nth_mem)
qed

lemma completing_update:
  "\<exists>v \<in> set (ws[i := w']). w_pc v = W_complete \<Longrightarrow> w_pc w' \<noteq> W_complete \<Longrightarrow>
   \<exists>v \<in> set ws. w_pc v = W_complete"
  using set_update_subset_insert [of ws i w'] by auto

lemma inv_counting:
  assumes "shutdown_inv ws c" and "i < length ws" and "counts (w_pc (ws ! i))" and "counts (w_pc w')"
  shows "shutdown_inv (ws[i := w']) c"
proof -
  have pos: "active ws \<noteq> 0" using assms(2,3) by (auto simp: active_zero)
  have same: "active (ws[i := w']) = active ws" using active_update [OF assms(2), of w'] assms(3,4) by simp
  have "\<not> (\<exists>v \<in> set (ws[i := w']). w_pc v = W_complete)"
  proof
    assume "\<exists>v \<in> set (ws[i := w']). w_pc v = W_complete"
    moreover have "w_pc w' \<noteq> W_complete" using assms(4) by auto
    ultimately have "\<exists>v \<in> set ws. w_pc v = W_complete" by (rule completing_update)
    with assms(1) pos show False by (simp add: shutdown_inv_def)
  qed
  with assms(1) pos same show ?thesis by (simp add: shutdown_inv_def)
qed

lemma inv_leaving:
  assumes "shutdown_inv ws (n, b)" and "i < length ws" and "counts (w_pc (ws ! i))" and "w_pc w' = W_check"
  shows "shutdown_inv (ws[i := w']) (n - 1, b)"
proof -
  have less: "active ws = Suc (active (ws[i := w']))"
    using active_update [OF assms(2), of w'] assms(3,4) by simp
  have "\<not> (\<exists>v \<in> set (ws[i := w']). w_pc v = W_complete)"
  proof
    assume "\<exists>v \<in> set (ws[i := w']). w_pc v = W_complete"
    then have "\<exists>v \<in> set ws. w_pc v = W_complete" by (rule completing_update) (simp add: assms(4))
    with assms(1) less show False by (simp add: shutdown_inv_def)
  qed
  moreover have "w' \<in> set (ws[i := w'])" using assms(2) by (rule set_update_memI)
  then have "\<exists>v \<in> set (ws[i := w']). w_pc v = W_check \<or> w_pc v = W_complete" using assms(4) by blast
  ultimately show ?thesis using assms(1) less unfolding shutdown_inv_def by simp
qed

lemma inv_looking:
  assumes "shutdown_inv ws c" and "i < length ws" and "length ws < 2 ^ 16" and "w_pc (ws ! i) = W_check"
    and "w_pc w' = (if fst c = 0 then W_complete else W_notify)"
  shows "shutdown_inv (ws[i := w']) c"
proof -
  have same: "active (ws[i := w']) = active ws"
    using active_update [OF assms(2), of w'] assms(4,5) by (simp split: if_splits)
  have count: "fst c = word_of_nat (active ws)" using assms(1) by (simp add: shutdown_inv_def)
  then have zero: "(fst c = 0) = (active ws = 0)"
    using small_word_zero [OF le_less_trans [OF active_le assms(3)]] by simp
  show ?thesis
  proof (cases "active ws = 0")
    case True
    then have "w' \<in> set (ws[i := w'])" "w_pc w' = W_complete"
      using assms(2,5) zero by (simp_all add: set_update_memI)
    with count same True show ?thesis unfolding shutdown_inv_def by auto
  next
    case False
    then have "w_pc w' \<noteq> W_complete" using assms(5) zero by simp
    with assms(1) False have "\<not> (\<exists>v \<in> set (ws[i := w']). w_pc v = W_complete)"
      using completing_update [of ws i w'] by (auto simp: shutdown_inv_def)
    with assms(1) False same show ?thesis by (simp add: shutdown_inv_def)
  qed
qed

lemma inv_completing:
  assumes "shutdown_inv ws (n, b)" and "i < length ws" and "w_pc (ws ! i) = W_complete" and "w_pc w' = W_notify"
  shows "shutdown_inv (ws[i := w']) (n, True)"
proof -
  have "active (ws[i := w']) = active ws" using active_update [OF assms(2), of w'] assms(3,4) by simp
  moreover have "active ws = 0" using assms(1-3) nth_mem [OF assms(2)] by (auto simp: shutdown_inv_def)
  ultimately show ?thesis using assms(1) by (simp add: shutdown_inv_def)
qed

lemma inv_past:
  assumes "shutdown_inv ws c" and "i < length ws" and "w_pc (ws ! i) \<in> {W_notify, W_done}" and "w_pc w' = W_done"
  shows "shutdown_inv (ws[i := w']) c"
proof -
  have same: "active (ws[i := w']) = active ws" using active_update [OF assms(2), of w'] assms(3,4) by auto
  have "\<exists>v \<in> set (ws[i := w']). w_pc v = W_check \<or> w_pc v = W_complete"
    if "v \<in> set ws" "w_pc v = W_check \<or> w_pc v = W_complete" for v
    using in_update [OF assms(2) that(1)] that(2) assms(3) by auto
  moreover have "\<exists>v \<in> set ws. w_pc v = W_complete" if "\<exists>v \<in> set (ws[i := w']). w_pc v = W_complete"
    using that by (rule completing_update) (simp add: assms(4))
  moreover have "ws \<noteq> []" using assms(2) by auto
  ultimately show ?thesis using assms(1) unfolding shutdown_inv_def same by simp blast
qed

lemma shutdown_inv_step:
  assumes "shutdown_inv ws (shutdown_ctl P)" and "i < length ws" and "length ws < 2 ^ 16"
    and "tworker_step fuel X occ i (ws ! i, P) = Some (Ret (w', P'))"
  shows "shutdown_inv (ws[i := w']) (shutdown_ctl P')"
  using worker_ctl [OF assms(4)] assms(1-3)
  by (elim disjE conjE)
    (auto simp: shutdown_ctl_def intro: inv_counting inv_leaving inv_looking inv_completing inv_past)

interpretation shutdown_invariant: invariant
  "\<lambda>S. sys_start S \<and> length (fst S) < 2 ^ 16" "sys_step X"
  "\<lambda>S. length (fst S) < 2 ^ 16 \<and> shutdown_inv (fst S) (shutdown_ctl (snd S))"
proof (unfold_locales, goal_cases)
  case (1 S)
  then obtain n k P where S: "new_pool n = Ret (k, P)" "S = (replicate k new_worker, P)" "k < 2 ^ 16"
    by (auto simp: sys_start_def)
  then have "shutdown_ctl P = (word_of_nat k, False)"
    by (auto simp: new_pool_def pool_createThreads_def Let_def new_state_def new_sched_def
        sched.extend_def shutdown_ctl_def split: if_splits)
  with S(2,3) show ?case by (simp add: shutdown_inv_start)
next
  case (2 S S')
  from 2(2) show ?case
  proof cases
    case (call c P P' ws)
    with 2(1) pool_apply_ctl [OF call(3)] show ?thesis by simp
  next
    case (work i ws fuel occ P w P')
    then show ?thesis using 2(1) shutdown_inv_step [OF _ work(3) _ work(4)] by simp
  qed
qed

text \<open>
  C13: The end of the pool. As long as a worker of a pool with fewer than \<open>2 ^ 16\<close> threads has not
  taken itself off the count, \<open>shutdownComplete\<close> is not set, so that no worker chooses or runs a
  session any more once \<open>shutdown\<close> has returned; and when all workers have left, the flag is set,
  so that \<open>shutdown\<close> does return. The counter is the number of the workers that still count,
  in whatever order users' calls and the workers' steps come.
\<close>

theorem shutdown_waits_for_workers:
  assumes "sys_reachable X (ws, P)" and "length ws < 2 ^ 16"
  shows "unat (shutdownCont P) = active ws \<and>
     (shutdownComplete P \<longrightarrow> (\<forall>w \<in> set ws. w_pc w \<in> {W_check, W_complete, W_notify, W_done})) \<and>
     (ws \<noteq> [] \<and> (\<forall>w \<in> set ws. w_pc w = W_done) \<longrightarrow> shutdownComplete P)"
proof -
  have "length (fst S) < 2 ^ 16 \<Longrightarrow> reach (\<lambda>S. sys_start S \<and> length (fst S) < 2 ^ 16) (sys_step X) S"
    if "sys_reachable X S" for S
    using that
  proof (induction rule: reach.induct)
    case (reach_start S)
    then show ?case by (auto intro: reach.intros)
  next
    case (reach_step S S')
    then have "length (fst S) = length (fst S')" by (auto elim: sys_stepE)
    with reach_step show ?case by (auto intro: reach.intros)
  qed
  from shutdown_invariant.reachable_inv [OF this, OF assms(1)] assms(2)
  have inv: "shutdown_inv ws (shutdown_ctl P)" by simp
  have "active ws < 2 ^ 16" by (rule le_less_trans [OF active_le assms(2)])
  then have "unat (shutdownCont P) = active ws"
    using inv by (simp add: shutdown_inv_def shutdown_ctl_def unsigned_of_nat take_bit_nat_eq_self)
  moreover have "w_pc w \<in> {W_check, W_complete, W_notify, W_done}" if "shutdownComplete P" "w \<in> set ws" for w
  proof -
    have "active ws = 0" using inv that(1) by (simp add: shutdown_inv_def shutdown_ctl_def)
    then have "\<not> counts (w_pc w)" using that(2) by (simp add: active_zero)
    then show ?thesis by (cases "w_pc w") simp_all
  qed
  moreover have "shutdownComplete P" if "ws \<noteq> []" "\<forall>w \<in> set ws. w_pc w = W_done"
  proof -
    have "active ws = 0" using that(2) by (simp add: active_zero)
    then show ?thesis using inv that by (auto simp: shutdown_inv_def shutdown_ctl_def)
  qed
  ultimately show ?thesis by blast
qed

theorem shutdown_waits_for_workers_witness:
  "\<exists>P :: (nat, unit) pool. new_pool 3 = Ret (3, P) \<and> unat (shutdownCont P) = 3 \<and> \<not> shutdownComplete P"
proof -
  have "\<exists>P :: (nat, unit) pool. new_pool 3 = Ret (3, P)"
    by (simp add: new_pool_def pool_createThreads_def Let_def new_state_def new_sched_def sched.extend_def)
  then obtain P :: "(nat, unit) pool" where P: "new_pool 3 = Ret (3, P)" ..
  from shutdown_waits_for_workers [OF sys_reachable_start [OF P]] P show ?thesis
    by (auto simp: new_worker_def active_def)
qed

end
