(* ===== verification/Threadpool_Service.thy ===== *)
theory Threadpool_Service
  imports Threadpool_Workers SessionStart
begin

text \<open>
  The parts together: a user creates a session and casts objects to it, a worker thread goes
  round its loop, and the summary routine sees the results. The loop of a worker is its steps in
  a row; a round that runs a session is four of them.
\<close>

section \<open>Rounds of a worker\<close>

text \<open>\<open>n\<close> steps of the loop, as long as each comes back.\<close>

fun tworker_steps ::
  "nat \<Rightarrow> nat \<Rightarrow> 'x expcond \<Rightarrow> i64 \<Rightarrow> nat \<Rightarrow> worker \<times> ('p, 'x) pool \<Rightarrow>
   (worker \<times> ('p, 'x) pool) outcome option" where
  "tworker_steps 0 fuel X occ sel S = Some (Ret S)"
| "tworker_steps (Suc n) fuel X occ sel S =
     (case tworker_step fuel X occ sel S of
        Some (Ret S') \<Rightarrow> tworker_steps n fuel X occ sel S'
      | r \<Rightarrow> r)"

text \<open>A pool in order: the workers can collect and choose.\<close>

definition in_order :: "('p, 'x) pool \<Rightarrow> bool" where
  "in_order P \<longleftrightarrow> pool_ok P \<and> scheduled P \<and> gc_open (tp_gc P) \<and> \<not> gc_active (tp_gc P) \<and>
     \<not> toShutdown P \<and> length (onlineSessions P) < 2 ^ 62"

text \<open>A session in its place: registered, allocated, at position \<open>sel\<close> of the online ones.\<close>

definition placed :: "num_id \<Rightarrow> session_ptr \<Rightarrow> nat \<Rightarrow> ('p, 'x) csession \<Rightarrow> ('p, 'x) pool \<Rightarrow> bool" where
  "placed i p sel s P \<longleftrightarrow> map_of (allSessions P) i = Some p \<and> tp_heap P p = Some s \<and>
     sel < length (onlineSessions P) \<and> onlineSessions P ! sel = p"

lemma placed_not_killed: "in_order P \<Longrightarrow> placed i p sel s P \<Longrightarrow> p \<notin> set (killed P)"
  by (force simp: in_order_def placed_def pool_ok_def heap_ok_def dest: map_of_SomeD)

text \<open>Three steps take the worker to the session at its position.\<close>

lemma worker_reaches:
  assumes P: "in_order P" and p: "placed i p sel s P" and w: "w_pc w = W_top"
    and nc: "\<not> session_cancellationRequested s"
  obtains w' P' where "tworker_steps 3 fuel X occ sel (w, P) = Some (Ret (w', P'))"
    and "w_pc w' = W_run p" and "in_order P'" and "placed i p sel s P'"
    and "allSessions P' = allSessions P" and "tp_events P' = tp_events P"
proof -
  have ok: "pool_ok P" "scheduled P" "gc_open (tp_gc P)" "\<not> gc_active (tp_gc P)" "\<not> toShutdown P"
    "length (onlineSessions P) < 2 ^ 62" using P by (simp_all add: in_order_def)
  have on: "map_of (allSessions P) i = Some p" "tp_heap P p = Some s" "sel < length (onlineSessions P)"
    "onlineSessions P ! sel = p" using p by (simp_all add: placed_def)
  obtain g where g: "worker_collect P = Ret (P\<lparr>tp_gc := g,
       tp_heap := (\<lambda>q. if q \<in> set (take 1000 (killed P)) \<and> ptr_cancelled P q then None else tp_heap P q)\<rparr>)"
    (is "_ = Ret ?P1") and g': "gc_open g" "\<not> gc_active g"
    by (rule collect_runs [OF ok(1,3,4)])
  have h1: "tp_heap ?P1 p = Some s"
    using on(2) placed_not_killed [OF P p] by (auto dest: in_set_takeD)
  have ok1: "pool_ok ?P1" by (rule collect_ok [OF ok(1) g])
  have s1: "scheduled ?P1" "sel < length (onlineSessions ?P1)" using ok(2) on(3) by (simp_all add: scheduled_def)
  obtain slot vs where pick: "worker_pick sel (selectedSlot w) ?P1 = Ret ((slot, Some p), with_bounds vs ?P1)"
    by (rule pick_scheduled [OF s1, of "selectedSlot w"])
      (use on(4) h1 nc in \<open>simp add: pool_deref_def del: obind_Ret_iff\<close>)
  define P1 where "P1 = ?P1"
  define w' where "w' = w\<lparr>selectedSlot := slot, w_pc := W_run p\<rparr>"
  have e: "w\<lparr>w_pc := W_collect\<rparr>\<lparr>w_pc := W_pick\<rparr> = w\<lparr>w_pc := W_pick\<rparr>" by simp
  have steps: "tworker_steps (Suc (Suc (Suc 0))) fuel X occ sel (w, P) = Some (Ret (w', with_bounds vs P1))"
    using ok(5) w g pick
    by (simp add: w'_def P1_def del: obind_Ret_iff)
  have ne: "onlineSessions P1 \<noteq> []" using s1(2) by (auto simp: P1_def)
  have "scheduled (with_bounds vs P1)"
    using scheduled_with_bounds [OF _ ne, of vs] s1(1) ok(6) by (simp add: P1_def)
  then have "in_order (with_bounds vs P1)"
    using ok(5,6) ok1 g' by (simp add: in_order_def P1_def)
  moreover have "placed i p sel s (with_bounds vs P1)"
    using on h1 by (simp add: placed_def P1_def)
  ultimately show thesis
    by (intro that [of w' "with_bounds vs P1"])
      (use steps in \<open>simp_all add: numeral_3_eq_3 w'_def P1_def\<close>)
qed

lemma tworker_steps_snoc:
  "tworker_steps n fuel X occ sel S = Some (Ret S') \<Longrightarrow>
   tworker_steps (Suc n) fuel X occ sel S = tworker_step fuel X occ sel S'"
proof (induction n arbitrary: S)
  case 0
  then show ?case by (auto simp del: tworker_step.simps split: option.split outcome.split)
next
  case (Suc n)
  obtain S1 where S1: "tworker_step fuel X occ sel S = Some (Ret S1)" "tworker_steps n fuel X occ sel S1 = Some (Ret S')"
    using Suc.prems by (auto simp del: tworker_step.simps split: option.splits outcome.splits)
  have "tworker_steps (Suc (Suc n)) fuel X occ sel S = tworker_steps (Suc n) fuel X occ sel S1"
    by (subst tworker_steps.simps(2)) (simp only: S1(1) option.case outcome.case)
  also have "\<dots> = tworker_step fuel X occ sel S'" by (rule Suc.IH [OF S1(2)])
  finally show ?case .
qed

text \<open>A whole round: the session gets the run it would get on its own.\<close>

lemma worker_round:
  assumes P: "in_order P" and p: "placed i p sel s P" and w: "w_pc w = W_top"
    and nc: "\<not> session_cancellationRequested s" "\<not> s_paused s"
    and sel: "\<And>g. \<exists>b r'. composing_select fuel X occ 0 \<lparr>r_session = s, r_gc = g, r_events = tp_events P\<rparr> =
      Some (Ret (b, r')) \<and> Q g r'"
  shows "\<exists>w' P' g r'. tworker_steps 4 fuel X occ sel (w, P) = Some (Ret (w', P')) \<and> w_pc w' = W_top \<and>
     Q g r' \<and> placed i p sel (r_session r') P' \<and> tp_events P' = r_events r' \<and>
     (r_gc r' = g \<longrightarrow> in_order P')"
proof -
  obtain w1 P1 where P1: "tworker_steps 3 fuel X occ sel (w, P) = Some (Ret (w1, P1))"
    "w_pc w1 = W_run p" "in_order P1" "placed i p sel s P1" "allSessions P1 = allSessions P"
    "tp_events P1 = tp_events P"
    by (rule worker_reaches [OF P p w nc(1)])
  from sel [of "tp_gc P1"] obtain b r' where r': "composing_select fuel X occ 0
      \<lparr>r_session = s, r_gc = tp_gc P1, r_events = tp_events P1\<rparr> = Some (Ret (b, r'))" "Q (tp_gc P1) r'"
    using P1(6) by auto
  let ?P = "(pool_store p (r_session r') P1)\<lparr>tp_gc := r_gc r', tp_events := r_events r'\<rparr>"
  have four: "(4 :: nat) = Suc 3" by simp
  have run: "worker_run fuel X occ p P1 = Some (Ret ?P)"
    using P1(4) nc(2) r'(1) by (simp add: worker_run_def placed_def session_isPaused_def)
  have "tworker_steps (Suc 3) fuel X occ sel (w, P) = Some (Ret (w1\<lparr>w_pc := W_top\<rparr>, ?P))"
    using tworker_steps_snoc [OF P1(1)] P1(2) run by simp
  then have steps: "tworker_steps 4 fuel X occ sel (w, P) = Some (Ret (w1\<lparr>w_pc := W_top\<rparr>, ?P))"
    by (simp only: four)
  have place: "placed i p sel (r_session r') ?P" using P1(4) by (simp add: placed_def pool_store_def)
  have order: "in_order ?P" if "r_gc r' = tp_gc P1"
  proof -
    have "pool_ok ?P" using P1(3) pool_same_ok [OF run_same [OF run]] by (simp add: in_order_def)
    with P1(3) that show ?thesis by (simp add: in_order_def scheduled_def pool_store_def)
  qed
  show ?thesis
    by (intro exI conjI) (rule steps, simp, rule r'(2), rule place, use order in simp_all)
qed

section \<open>Casting to a session\<close>

primrec pool_cast_all :: "num_id \<Rightarrow> 'p list \<Rightarrow> ('p, 'x) pool \<Rightarrow> (bool list \<times> ('p, 'x) pool) outcome" where
  "pool_cast_all i [] P = Ret ([], P)"
| "pool_cast_all i (d # ds) P =
     obind (pool_castObjectForSession i (Some d) P) (\<lambda>(b, P1).
     obind (pool_cast_all i ds P1) (\<lambda>(bs, P2). Ret (b # bs, P2)))"

lemma pool_cast_all_posts:
  "map_of (allSessions P) i = Some p \<Longrightarrow> tp_heap P p = Some s \<Longrightarrow> num64 i \<noteq> 0 \<Longrightarrow>
   dataQueues s = [h] \<Longrightarrow> \<not> cb_flushed (s_cblk s) \<Longrightarrow>
   pool_cast_all i ds P = Ret (replicate (length ds) True, pool_store p (post_all ds s) P)"
proof (induction ds arbitrary: P s h)
  case Nil
  then show ?case by (cases P) (simp add: post_all_def pool_store_def fun_upd_idem)
next
  case (Cons d ds)
  let ?h = "snd (hyb_castObject (Some d) 0 h)" and ?s = "snd (composing_postData (Some d) s)"
  let ?P = "pool_store p ?s P"
  have post: "composing_postData (Some d) s = (True, s\<lparr>dataQueues := [?h]\<rparr>)"
    using Cons.prems by (simp add: composing_postData_def cb_flushRequested_def hyb_castObject_def)
  have cast: "pool_castObjectForSession i (Some d) P = Ret (True, ?P)"
    using Cons.prems post
    by (simp add: pool_castObjectForSession_def pool_postData_def pool_with_def pool_deref_def)
  have "pool_cast_all i ds ?P = Ret (replicate (length ds) True, pool_store p (post_all ds ?s) ?P)"
    by (rule Cons.IH [where h = ?h]) (use Cons.prems post in \<open>simp_all add: pool_store_def\<close>)
  moreover have "pool_store p (post_all ds ?s) ?P = pool_store p (post_all (d # ds) s) P"
    by (simp add: pool_store_def post_all_def)
  ultimately show ?case by (simp add: cast)
qed

section \<open>From creation to the results\<close>

lemma new_pool_events: "new_pool n = Ret (k, P) \<Longrightarrow> tp_events P = []"
  by (auto simp: new_pool_def pool_createThreads_def Let_def new_state_def new_sched_def
      sched.extend_def split: if_splits)

lemma configured_starting:
  fixes sp :: "('p, 'x) session_params" and mode on name cb occ
  assumes "sp_routines sp = map lambda_unit gs" and "gs \<noteq> []"
    and "sp_summaryRoutine sp = Some (pure_routine f)" and "sp_expCondition sp = None"
    and "\<not> abortByCallback cb" and "\<not> abortByCaller cb" and "\<not> cb_flushed cb"
  defines "s \<equiv> pool_configure sp (new_csession mode on (sp_autodelete sp) name cb occ)"
  shows "starting gs f s" and "s_autodelete s = sp_autodelete sp" and "\<not> s_paused s"
    and "cb_cancellationRequested (s_cblk s) = cb_cancellationRequested cb"
  unfolding s_def
  by (simp_all add: assms pool_configure_def Let_def session_setSummary_def session_setProgressRoutine_def
      composing_setRoutines_def session_setRoutines_raw_def session_setCancellationHandler_def
      session_setInternalCancellationHandler_def session_setExpirationSummary_def
      session_setExpirationCondition_def new_csession_def session.extend_def new_session_def
      starting_def session_slots_ok_def slots_ok_def cb_setProgressRoutine_def cb_cancellationRequested_def
      split: option.split)

lemma created_placed:
  assumes P: "in_order P" and free: "map_of (allSessions P) (cb_getSessionId cb) = None"
    and room: "length (onlineSessions P) + 1 < 2 ^ 62"
    and st: "starting gs f (pool_configure sp (new_csession (sp_blockCallMode sp) True (sp_autodelete sp)
      (sp_sessionName sp) cb occ))" (is "starting gs f ?s")
  obtains P1 where "pool_createComposingSession cb occ (Some sp) P = Ret (cb_getSessionId cb, P1)"
    and "in_order P1" and "placed (cb_getSessionId cb) (tp_next P) (length (onlineSessions P)) ?s P1"
    and "tp_events P1 = tp_events P"
proof (cases rule: create_cases [where P = P and sp = sp and cb = cb and occ = occ])
  case (fresh s')
  have s': "s' = ?s"
    using fresh(2) st configured_slots(1,2) [OF refl, of sp "sp_blockCallMode sp" True "sp_autodelete sp" "sp_sessionName sp" cb occ]
    by (cases ?s) (simp add: composing_deploy_def composing_reconfigureDataqueues_def starting_def)
  let ?P1 = "P\<lparr>allSessions := allSessions P @ [(cb_getSessionId cb, tp_next P)],
      onlineSessions := onlineSessions P @ [tp_next P],
      tp_heap := (tp_heap P)(tp_next P := Some ?s), tp_next := Suc (tp_next P)\<rparr>"
  have create: "pool_createComposingSession cb occ (Some sp) P = Ret (cb_getSessionId cb, ?P1)"
    using fresh(3) s' by simp
  have "pool_ok ?P1" using create_ok [OF _ create] P by (simp add: in_order_def)
  with P room have "in_order ?P1" by (simp add: in_order_def scheduled_def)
  moreover have "placed (cb_getSessionId cb) (tp_next P) (length (onlineSessions P)) ?s ?P1"
    using free by (simp add: placed_def map_add_def)
  ultimately show thesis by (rule that [OF create]) simp
next
  case clash
  with free show ?thesis by simp
qed

text \<open>The first round builds the queue; the next one serves what was cast in between.\<close>

lemma first_round:
  fixes s :: "('p, 'x) csession"
  assumes P: "in_order P" "placed i p sel s P" and w: "w_pc w = W_top" and st: "starting gs f s"
    and nc: "\<not> session_cancellationRequested s" "\<not> s_paused s" and occ: "sint occ < 0" and fuel: "0 < fuel"
  obtains w' P' s' where "tworker_steps 4 fuel X occ sel (w, P) = Some (Ret (w', P'))" and "w_pc w' = W_top"
    and "in_order P'" and "placed i p sel s' P'" and "tp_events P' = tp_events P"
    and "serving gs f (new_hyb occ (callMode s)) (swap_summary s')" and "\<not> s_paused s'"
    and "\<not> s_isStopped s'" and "s_cblk s' = s_cblk s" and "s_autodelete s' = s_autodelete s"
proof -
  let ?Q = "\<lambda>g (r' :: ('p, 'x) run). serving gs f (new_hyb occ (callMode s)) (swap_summary (r_session r')) \<and>
      \<not> s_paused (r_session r') \<and> \<not> s_isStopped (r_session r') \<and> s_cblk (r_session r') = s_cblk s \<and>
      s_autodelete (r_session r') = s_autodelete s \<and> r_gc r' = g \<and> r_events r' = tp_events P"
  have sel: "\<exists>b r'. composing_select fuel X occ 0 \<lparr>r_session = s, r_gc = g, r_events = tp_events P\<rparr> =
      Some (Ret (b, r')) \<and> ?Q g r'" for g
    by (rule first_select [of gs f "\<lparr>r_session = s, r_gc = g, r_events = tp_events P\<rparr>", OF _ occ fuel, of X 0])
      (use st in auto)
  obtain w' P' g r' where "tworker_steps 4 fuel X occ sel (w, P) = Some (Ret (w', P'))" "w_pc w' = W_top"
    "?Q g r'" "placed i p sel (r_session r') P'" "tp_events P' = r_events r'" "r_gc r' = g \<longrightarrow> in_order P'"
    using worker_round [OF P w nc sel] by blast
  then show thesis by (intro that [of w' P' "r_session r'"]) simp_all
qed

lemma casting_round:
  fixes s :: "('p, 'x) csession"
  assumes P: "in_order P" "placed i p sel s P" and w: "w_pc w = W_top" and i: "num64 i \<noteq> 0"
    and s: "serving gs f h (swap_summary s)" and h: "hyb_open h" "hyb_room (length ds) h"
    and nc: "\<not> session_cancellationRequested s" "\<not> s_paused s" "\<not> s_isStopped s"
    and ds: "ds \<noteq> []" "length (hyb_contents h @ ds) < fuel"
  obtains P1 w' P' where "pool_cast_all i ds P = Ret (replicate (length ds) True, P1)"
    and "tworker_steps 4 fuel X occ sel (w, P1) = Some (Ret (w', P'))" and "w_pc w' = W_top"
    and "tp_events P' = tp_events P @
      map (\<lambda>d. Summary_called (composed (s_autodelete s) gs (Some d))) (hyb_contents h @ ds)"
proof -
  have q: "dataQueues s = [h]" "\<not> cb_flushed (s_cblk s)" using s by (simp_all add: serving_def)
  let ?s = "post_all ds s" and ?P = "pool_store p (post_all ds s) P"
  have cast: "pool_cast_all i ds P = Ret (replicate (length ds) True, ?P)"
    by (rule pool_cast_all_posts [OF _ _ i q]) (use P(2) in \<open>simp_all add: placed_def\<close>)
  have "pool_same P ?P" using P(2) by (intro pool_same_store) (simp add: placed_def)
  then have P1: "in_order ?P" "placed i p sel ?s ?P"
    using P pool_same_ok [of P ?P] by (simp_all add: in_order_def placed_def scheduled_def pool_store_def)
  have nc1: "\<not> session_cancellationRequested ?s" "\<not> s_paused ?s"
    using nc by (simp_all add: session_cancellationRequested_def post_all_queue [OF q])
  let ?Q = "\<lambda>(r' :: ('p, 'x) run). r_events r' = tp_events P @
      map (\<lambda>d. Summary_called (composed (s_autodelete s) gs (Some d))) (hyb_contents h @ ds)"
  have sel: "\<exists>b r'. composing_select fuel X occ 0 \<lparr>r_session = ?s, r_gc = g, r_events = tp_events ?P\<rparr> =
      Some (Ret (b, r')) \<and> ?Q r'" for g
    using first_data [where r = "\<lparr>r_session = s, r_gc = g, r_events = tp_events P\<rparr>" and fuel = fuel
        and X = X and occ = occ and ii = 0 and gs = gs and f = f, OF _ h _ _ ds] s nc by (auto simp: on_session_def pool_store_def)
  obtain w' P' g r' where "tworker_steps 4 fuel X occ sel (w, ?P) = Some (Ret (w', P'))" "w_pc w' = W_top"
    "?Q r'" "placed i p sel (r_session r') P'" "tp_events P' = r_events r'" "r_gc r' = g \<longrightarrow> in_order P'"
    using worker_round [OF P1 w nc1 sel] by blast
  with that [OF cast] show thesis by auto
qed

text \<open>
  C2: The library does what it is for. In a pool in order, a user creates a session with routines
  and a summary routine that leave the control block alone, and a worker with the number of the
  session's position goes round its loop once; objects cast to the session afterwards are
  accepted, and the worker's next round hands to the summary routine, for every object and in the
  order of casting, what the routines make of it. The worker is back at the top of its loop,
  and nothing else is called.
\<close>

theorem created_session_serves:
  assumes "in_order P" and "map_of (allSessions P) (cb_getSessionId cb) = None"
    and "length (onlineSessions P) + 1 < 2 ^ 62" and "num64 (cb_getSessionId cb) \<noteq> 0"
    and "\<not> cb_cancellationRequested cb" and "\<not> cb_flushed cb"
    and "sp_routines sp = map lambda_unit gs" and "gs \<noteq> []"
    and "sp_summaryRoutine sp = Some (pure_routine f)" and "sp_expCondition sp = None"
    and "sint occ < 0" and "ds \<noteq> []" and "length ds < fuel" and "length ds < 2 ^ 63"
    and "w_pc w = W_top" and "sel = length (onlineSessions P)"
  shows "\<exists>P1 w2 P2 P3 w4 P4.
     pool_createComposingSession cb occ (Some sp) P = Ret (cb_getSessionId cb, P1) \<and>
     tworker_steps 4 fuel X occ sel (w, P1) = Some (Ret (w2, P2)) \<and>
     pool_cast_all (cb_getSessionId cb) ds P2 = Ret (replicate (length ds) True, P3) \<and>
     tworker_steps 4 fuel X occ sel (w2, P3) = Some (Ret (w4, P4)) \<and> w_pc w4 = W_top \<and>
     tp_events P4 = tp_events P @ map (\<lambda>d. Summary_called
       (if sp_autodelete sp then fold (\<lambda>g y. g y) gs (Some d) else last gs (Some d))) ds"
proof -
  define s where "s = pool_configure sp (new_csession (sp_blockCallMode sp) True (sp_autodelete sp) (sp_sessionName sp) cb occ)"
  have nc: "\<not> abortByCallback cb" "\<not> abortByCaller cb" using assms(5) by (simp_all add: cb_cancellationRequested_def)
  note st = configured_starting [OF assms(7-10) nc assms(6), where mode = "sp_blockCallMode sp" and on = True and
      name = "sp_sessionName sp" and occ = occ, folded s_def]
  obtain P1 where P1: "pool_createComposingSession cb occ (Some sp) P = Ret (cb_getSessionId cb, P1)" "in_order P1"
    "placed (cb_getSessionId cb) (tp_next P) sel s P1" "tp_events P1 = tp_events P"
    using created_placed [OF assms(1-3) st(1) [unfolded s_def]] assms(16) by (auto simp: s_def)
  have c1: "\<not> session_cancellationRequested s" using st(4) assms(5) by (simp add: session_cancellationRequested_def)
  have fuel: "0 < fuel" using assms(13) by simp
  let ?h = "new_hyb occ (callMode s) :: 'a hyb"
  obtain w2 P2 s2 where P2: "tworker_steps 4 fuel X occ sel (w, P1) = Some (Ret (w2, P2))" "w_pc w2 = W_top"
    "in_order P2" "placed (cb_getSessionId cb) (tp_next P) sel s2 P2" "tp_events P2 = tp_events P1"
    "serving gs f ?h (swap_summary s2)" "\<not> s_paused s2" "\<not> s_isStopped s2" "s_cblk s2 = s_cblk s"
    "s_autodelete s2 = s_autodelete s"
    by (rule first_round [OF P1(2,3) assms(15) st(1) c1 st(3) assms(11) fuel])
  have h: "hyb_open ?h" "hyb_room (length ds) ?h" "hyb_contents ?h = []"
    using new_hyb_ready [where occ = occ] new_hyb_open(2) [where occ = occ] assms(11,14) by simp_all
  have c2: "\<not> session_cancellationRequested s2" using c1 P2(9) by (simp add: session_cancellationRequested_def)
  obtain P3 w4 P4 where P4: "pool_cast_all (cb_getSessionId cb) ds P2 = Ret (replicate (length ds) True, P3)"
    "tworker_steps 4 fuel X occ sel (w2, P3) = Some (Ret (w4, P4))" "w_pc w4 = W_top"
    "tp_events P4 = tp_events P2 @ map (\<lambda>d. Summary_called (composed (s_autodelete s2) gs (Some d))) (hyb_contents ?h @ ds)"
    by (rule casting_round [OF P2(3,4,2) assms(4) P2(6) h(1,2) c2 P2(7,8) assms(12)]) (use h(3) assms(13) in simp)
  have "tp_events P4 = tp_events P @ map (\<lambda>d. Summary_called
       (if sp_autodelete sp then fold (\<lambda>g y. g y) gs (Some d) else last gs (Some d))) ds"
    using P4(4) P1(4) P2(5,10) st(2) h(3) assms(8) by (simp add: composed_def)
  with P1(1) P2(1) P4(1-3) show ?thesis by blast
qed

theorem created_session_serves_witness:
  "\<exists>P P1 w2 P2 P3 w4 P4 :: (nat, unit) pool. new_pool 1 = Ret (1, P) \<and>
     pool_createComposingSession quiet_block (- 1)
       (Some (demo_params\<lparr>sp_routines := map lambda_unit [map_option Suc, map_option ((*) 2)]\<rparr>)) P =
       Ret (NumId 7, P1) \<and>
     (\<exists>w2 w4. tworker_steps 4 3 demo_cond (- 1) 0 (new_worker, P1) = Some (Ret (w2, P2)) \<and>
       pool_cast_all (NumId 7) [3, 4] P2 = Ret ([True, True], P3) \<and>
       tworker_steps 4 3 demo_cond (- 1) 0 (w2, P3) = Some (Ret (w4, P4)) \<and>
       tp_events P4 = [Summary_called (Some 8), Summary_called (Some 10)])"
proof -
  obtain P :: "(nat, unit) pool" where P: "new_pool 1 = Ret (1, P)" "allSessions P = []"
    "onlineSessions P = []" "tp_gc P = new_gc" "tp_next P = 0" "\<not> toShutdown P" "scheduled P"
    by (rule new_pool_one)
  have order: "in_order P" "tp_events P = []"
    using P new_pool_ok [OF P(1)] new_pool_events [OF P(1)] by (simp_all add: in_order_def new_gc_def gc_open_def)
  let ?sp = "demo_params\<lparr>sp_routines := map lambda_unit [map_option Suc, map_option ((*) 2)]\<rparr> :: (nat, unit) session_params"
  have cb: "cb_getSessionId quiet_block = NumId 7" "\<not> cb_cancellationRequested quiet_block" "\<not> cb_flushed quiet_block"
    by (simp_all add: quiet_block_def cb_getSessionId_def cb_cancellationRequested_def)
  have sp: "sp_routines ?sp = map lambda_unit [map_option Suc, map_option ((*) 2)]"
    "sp_summaryRoutine ?sp = Some (pure_routine id)" "sp_expCondition ?sp = None" "sp_autodelete ?sp"
    by (simp_all add: demo_params_def new_session_params_def)
  let ?gs = "[map_option Suc, map_option ((*) 2)] :: (nat option \<Rightarrow> nat option) list"
  obtain P1 w2 P2 P3 w4 P4 where
    "pool_createComposingSession quiet_block (- 1) (Some ?sp) P = Ret (cb_getSessionId quiet_block, P1)"
    "tworker_steps 4 3 demo_cond (- 1) 0 (new_worker, P1) = Some (Ret (w2, P2))"
    "pool_cast_all (cb_getSessionId quiet_block) [3, 4] P2 = Ret (replicate (length [3, 4 :: nat]) True, P3)"
    "tworker_steps 4 3 demo_cond (- 1) 0 (w2, P3) = Some (Ret (w4, P4))"
    "tp_events P4 = tp_events P @ map (\<lambda>d. Summary_called
       (if sp_autodelete ?sp then fold (\<lambda>g y. g y) ?gs (Some d) else last ?gs (Some d))) [3, 4]"
    using created_session_serves [where cb = quiet_block and sp = ?sp and gs = ?gs and f = id and occ = "- 1" and
        ds = "[3, 4]" and fuel = 3 and w = new_worker and sel = 0 and X = demo_cond, OF order(1)] P(2,3) cb sp
    by (auto simp: new_worker_def simp del: pool_cast_all.simps tworker_steps.simps)
  with P(1) cb(1) sp(4) order(2) show ?thesis
    by (intro exI conjI) (assumption, simp_all del: pool_cast_all.simps tworker_steps.simps)
qed



end
