(* ===== verification/QueueLocks.thy ===== *)
theory QueueLocks
  imports Queue_Correct Transitions
begin

text \<open>
  \<open>castObject\<close> and \<open>pull\<close> of \<open>CPPAFKQueue\<close> (CPPAFKQueue.hpp) at the level of their locks: any number
  of threads, each cut where it takes or gives back \<open>lock\<close> or \<open>cvLockR\<close>. The order of what is put in
  and handed out survives every interleaving; but an insertion takes \<open>cvLockR\<close> while it holds
  \<open>lock\<close>, and the predicate of a waiting reader takes \<open>lock\<close> while it holds \<open>cvLockR\<close>.

  A condition variable may wake a thread at any time, so a sleeping reader may always go on;
  \<open>cvLockW\<close>, which no thread takes while it holds another lock but \<open>lock\<close>, is part of the step
  under \<open>lock\<close>.
\<close>

section \<open>Threads and their steps\<close>

text \<open>Where a thread stands; \<open>Ready\<close> holds the result of its last call.\<close>

datatype 'a queue_pc =
    Ready "'a queue_result"
  | C_begin 'a | C_insert 'a | C_wantR | C_set | C_end bool
  | P_begin | P_lock | P_size | P_wantR | P_pred_lock | P_pred | P_sleep | P_wake | P_release
  | P_take | P_pop

record 'a locked_queue =
  lq_queue :: "'a queue"
  lq_lock :: "nat option"
  lq_cvLockR :: "nat option"
  lq_in :: "'a list"
  lq_out :: "'a list"

text \<open>
  One step of thread \<open>i\<close>; \<open>None\<close> if it waits for a lock (or for its next call). The last two
  fields of the state record what has been accepted and what has been handed out.
\<close>

fun queue_thread_step ::
  "nat \<Rightarrow> 'a queue_pc \<Rightarrow> 'a locked_queue \<Rightarrow> ('a queue_pc \<times> 'a locked_queue) option" where
  "queue_thread_step i (Ready r) s = None"
| "queue_thread_step i (C_begin x) s =
     (if lq_lock s = None then Some (C_insert x, s\<lparr>lq_lock := Some i\<rparr>) else None)"
| "queue_thread_step i (C_insert x) s =
     (let q = lq_queue s in
      if size_of (itsQ q) + 1 \<le> maxQSize q
      then Some (if q_blockingR q then C_wantR else C_end True,
                 s\<lparr>lq_queue := q\<lparr>q_blockingW := False, itsQ := itsQ q @ [x]\<rparr>, lq_in := lq_in s @ [x]\<rparr>)
      else Some (C_end False, s))"
| "queue_thread_step i C_wantR s =
     (if lq_cvLockR s = None then Some (C_set, s\<lparr>lq_cvLockR := Some i\<rparr>) else None)"
| "queue_thread_step i C_set s =
     Some (C_end True, s\<lparr>lq_queue := (lq_queue s)\<lparr>q_condPredR := True\<rparr>, lq_cvLockR := None\<rparr>)"
| "queue_thread_step i (C_end b) s = Some (Ready (Accepted b), s\<lparr>lq_lock := None\<rparr>)"
| "queue_thread_step i P_begin s =
     (let q = lq_queue s in
      Some (if q_paused q then Ready (Got None) else if q_blockingR q then P_lock else P_take, s))"
| "queue_thread_step i P_lock s =
     (if lq_lock s = None then Some (P_size, s\<lparr>lq_lock := Some i\<rparr>) else None)"
| "queue_thread_step i P_size s =
     (let q = lq_queue s in
      if sint (size_of (itsQ q)) \<le> sint (minQSize q) then Some (P_wantR, s\<lparr>lq_lock := None\<rparr>)
      else Some (P_take, s\<lparr>lq_queue := q\<lparr>q_condPredR := True\<rparr>, lq_lock := None\<rparr>))"
| "queue_thread_step i P_wantR s =
     (if lq_cvLockR s = None
      then Some (P_pred_lock,
                 s\<lparr>lq_queue := (lq_queue s)\<lparr>q_condPredR := False\<rparr>, lq_cvLockR := Some i\<rparr>)
      else None)"
| "queue_thread_step i P_pred_lock s =
     (if lq_lock s = None then Some (P_pred, s\<lparr>lq_lock := Some i\<rparr>) else None)"
| "queue_thread_step i P_pred s =
     (let q = lq_queue s; b = queue_wait_pred q; s1 = s\<lparr>lq_queue := q\<lparr>q_condPredR := b\<rparr>, lq_lock := None\<rparr>
      in Some (if b then (P_release, s1) else (P_sleep, s1\<lparr>lq_cvLockR := None\<rparr>)))"
| "queue_thread_step i P_sleep s = Some (P_wake, s)"
| "queue_thread_step i P_wake s =
     (if lq_cvLockR s = None then Some (P_pred_lock, s\<lparr>lq_cvLockR := Some i\<rparr>) else None)"
| "queue_thread_step i P_release s = Some (P_take, s\<lparr>lq_cvLockR := None\<rparr>)"
| "queue_thread_step i P_take s =
     (if lq_lock s = None then Some (P_pop, s\<lparr>lq_lock := Some i\<rparr>) else None)"
| "queue_thread_step i P_pop s =
     (case queue_pull_take (lq_queue s) of
        (None, q) \<Rightarrow> Some (Ready (Got None), s\<lparr>lq_queue := q, lq_lock := None\<rparr>)
      | (Some x, q) \<Rightarrow> Some (Ready (Got (Some x)),
                        s\<lparr>lq_queue := q, lq_lock := None, lq_out := lq_out s @ [x]\<rparr>))"

type_synonym 'a queue_system = "'a queue_pc list \<times> 'a locked_queue"

text \<open>A thread that is ready may start either call at any time.\<close>

inductive queue_sys_step :: "'a queue_system \<Rightarrow> 'a queue_system \<Rightarrow> bool" where
  start_cast: "i < length ts \<Longrightarrow> ts ! i = Ready r \<Longrightarrow> queue_sys_step (ts, s) (ts[i := C_begin x], s)"
| start_pull: "i < length ts \<Longrightarrow> ts ! i = Ready r \<Longrightarrow> queue_sys_step (ts, s) (ts[i := P_begin], s)"
| thread_step: "i < length ts \<Longrightarrow> queue_thread_step i (ts ! i) s = Some (pc, s') \<Longrightarrow>
    queue_sys_step (ts, s) (ts[i := pc], s')"

definition unlocked :: "'a queue \<Rightarrow> 'a locked_queue" where
  "unlocked q = \<lparr>lq_queue = q, lq_lock = None, lq_cvLockR = None, lq_in = itsQ q, lq_out = []\<rparr>"

definition queue_sys_start :: "'a queue_system \<Rightarrow> bool" where
  "queue_sys_start S \<longleftrightarrow> (\<exists>n q. S = (replicate n (Ready Done), unlocked q))"

abbreviation queue_sys_reachable :: "'a queue_system \<Rightarrow> bool" where
  "queue_sys_reachable \<equiv> reach queue_sys_start queue_sys_step"

inductive_cases queue_sys_stepE: "queue_sys_step S S'"

section \<open>The invariant: owners of the locks, and the order of the data\<close>

fun holds_lock :: "'a queue_pc \<Rightarrow> bool" where
  "holds_lock (C_insert x) = True"
| "holds_lock C_wantR = True"
| "holds_lock C_set = True"
| "holds_lock (C_end b) = True"
| "holds_lock P_size = True"
| "holds_lock P_pred = True"
| "holds_lock P_pop = True"
| "holds_lock _ = False"

fun holds_cvLockR :: "'a queue_pc \<Rightarrow> bool" where
  "holds_cvLockR C_set = True"
| "holds_cvLockR P_pred_lock = True"
| "holds_cvLockR P_pred = True"
| "holds_cvLockR P_release = True"
| "holds_cvLockR _ = False"

definition owners_ok :: "('a queue_pc \<Rightarrow> bool) \<Rightarrow> nat option \<Rightarrow> 'a queue_pc list \<Rightarrow> bool" where
  "owners_ok holds owner ts \<longleftrightarrow> (\<forall>i < length ts. holds (ts ! i) \<longleftrightarrow> owner = Some i)"

definition queue_locks_inv :: "'a queue_system \<Rightarrow> bool" where
  "queue_locks_inv S \<longleftrightarrow> (case S of (ts, s) \<Rightarrow>
     owners_ok holds_lock (lq_lock s) ts \<and> owners_ok holds_cvLockR (lq_cvLockR s) ts \<and>
     lq_in s = lq_out s @ itsQ (lq_queue s))"

lemma owners_update:
  "i < length ts \<Longrightarrow> owners_ok holds owner (ts[i := pc]) \<longleftrightarrow>
     (holds pc \<longleftrightarrow> owner = Some i) \<and> (\<forall>j < length ts. j \<noteq> i \<longrightarrow> (holds (ts ! j) \<longleftrightarrow> owner = Some j))"
  by (auto simp: owners_ok_def nth_list_update)

lemma owners_others:
  "owners_ok holds owner ts \<Longrightarrow> i < length ts \<Longrightarrow> (holds (ts ! i) \<longleftrightarrow> owner = Some i) \<and>
     (\<forall>j < length ts. j \<noteq> i \<longrightarrow> (holds (ts ! j) \<longleftrightarrow> owner = Some j))"
  by (simp add: owners_ok_def)

lemma pull_take_splits:
  "queue_pull_take q = (Some x, q') \<Longrightarrow> itsQ q = x # itsQ q'"
  "queue_pull_take q = (None, q') \<Longrightarrow> itsQ q' = itsQ q"
  by (auto simp: queue_pull_take_def split: if_splits list.splits)

lemma thread_step_inv:
  assumes inv: "queue_locks_inv (ts, s)" and i: "i < length ts"
    and step: "queue_thread_step i (ts ! i) s = Some (pc, s')"
  shows "queue_locks_inv (ts[i := pc], s')"
proof -
  note main = owners_others [of holds_lock "lq_lock s" ts i]
    and R = owners_others [of holds_cvLockR "lq_cvLockR s" ts i]
  show ?thesis
    using inv i step main R
    by (cases "ts ! i")
      (auto simp: queue_locks_inv_def Let_def owners_update dest: pull_take_splits
        split: if_splits option.splits prod.splits)
qed

interpretation queue_locks: invariant queue_sys_start queue_sys_step queue_locks_inv
proof (unfold_locales, goal_cases)
  case (1 S)
  then show ?case by (auto simp: queue_sys_start_def unlocked_def queue_locks_inv_def owners_ok_def)
next
  case (2 S S')
  from 2(2) show ?case
  proof cases
    case (thread_step i ts s pc s')
    with 2(1) thread_step_inv [of ts s i pc s'] show ?thesis by simp
  qed (use 2(1) in \<open>auto simp: queue_locks_inv_def owners_ok_def nth_list_update\<close>)
qed

text \<open>
  C7: Interleavings keep the order of the data. However insertions and reads of any number of
  threads overlap, at most one thread is under \<open>lock\<close> and at most one under \<open>cvLockR\<close>, and what
  has been handed out, followed by what is in the queue, is exactly what has been accepted, in
  the order of acceptance: nothing is lost, duplicated or overtaken.
\<close>

theorem queue_interleavings_fifo:
  assumes "queue_sys_reachable (ts, s)"
  shows "lq_in s = lq_out s @ itsQ (lq_queue s) \<and>
     (\<forall>i < length ts. \<forall>j < length ts.
        (holds_lock (ts ! i) \<and> holds_lock (ts ! j) \<longrightarrow> i = j) \<and>
        (holds_cvLockR (ts ! i) \<and> holds_cvLockR (ts ! j) \<longrightarrow> i = j))"
  using queue_locks.reachable_inv [OF assms] by (auto simp: queue_locks_inv_def owners_ok_def)

section \<open>Running threads in a given order\<close>

fun run_threads :: "nat list \<Rightarrow> 'a queue_system \<Rightarrow> 'a queue_system option" where
  "run_threads [] S = Some S"
| "run_threads (i # is) (ts, s) =
     (if i < length ts
      then (case queue_thread_step i (ts ! i) s of
              None \<Rightarrow> None
            | Some (pc, s') \<Rightarrow> run_threads is (ts[i := pc], s'))
      else None)"

lemma run_threads_reach:
  "run_threads is S = Some S' \<Longrightarrow> reach start queue_sys_step S \<Longrightarrow> reach start queue_sys_step S'"
proof (induction "is" S rule: run_threads.induct)
  case (2 i "is" ts s)
  then obtain pc s1 where i: "i < length ts" and st: "queue_thread_step i (ts ! i) s = Some (pc, s1)"
    and run: "run_threads is (ts[i := pc], s1) = Some S'"
    by (auto split: if_splits option.splits)
  have "reach start queue_sys_step (ts[i := pc], s1)"
    by (rule reach_step [OF 2(3)]) (rule thread_step [OF i st])
  with 2(1) [OF i st refl run] show ?case .
qed simp

lemma two_threads_reachable:
  "queue_sys_reachable ([C_begin x, P_begin], unlocked q)"
proof -
  have "queue_sys_start ([Ready Done, Ready Done], unlocked q)"
    unfolding queue_sys_start_def by (intro exI [of _ 2] exI [of _ q]) (simp add: numeral_2_eq_2)
  then have "queue_sys_reachable ([Ready Done, Ready Done], unlocked q)" by (rule reach_start)
  from reach_step [OF this start_cast [of 0]]
  have "queue_sys_reachable ([C_begin x, Ready Done], unlocked q)" by simp
  from reach_step [OF this start_pull [of 1]] show ?thesis by simp
qed

theorem queue_interleavings_fifo_witness:
  "\<exists>ts s. run_threads [0, 0, 1, 0, 1, 1] ([C_begin (5 :: nat), P_begin], unlocked new_queue) = Some (ts, s) \<and>
     lq_in s = lq_out s @ itsQ (lq_queue s) \<and> lq_in s = [5] \<and> ts = [Ready (Accepted True), Ready (Got (Some 5))]"
proof -
  have "1 \<le> i64_max" by (simp add: i64_max_def word_le_nat_alt)
  then have "\<exists>s. run_threads [0, 0, 1, 0, 1, 1] ([C_begin (5 :: nat), P_begin], unlocked new_queue) =
      Some ([Ready (Accepted True), Ready (Got (Some 5))], s) \<and> lq_in s = [5]"
    by (simp add: unlocked_def size_of_def queue_pull_take_def)
  then obtain s where s: "run_threads [0, 0, 1, 0, 1, 1] ([C_begin (5 :: nat), P_begin], unlocked new_queue) =
      Some ([Ready (Accepted True), Ready (Got (Some 5))], s)" "lq_in s = [5]" by blast
  from queue_interleavings_fifo [OF run_threads_reach [OF s(1) two_threads_reachable]] s show ?thesis
    by simp
qed

section \<open>Calls that nobody disturbs\<close>

lemma run_threads_append:
  "run_threads (is @ js) S = (case run_threads is S of None \<Rightarrow> None | Some S' \<Rightarrow> run_threads js S')"
  by (induction "is" S rule: run_threads.induct) (auto split: option.splits)

text \<open>The last step of a read, with the lock held.\<close>

lemma read_ends:
  assumes "run_threads (replicate n 0) S = Some ([P_pop], s)"
  shows "\<exists>s1. run_threads (replicate (Suc n) 0) S = Some ([Ready (Got (fst (queue_pull_take (lq_queue s))))], s1) \<and>
     lq_queue s1 = snd (queue_pull_take (lq_queue s)) \<and> lq_lock s1 = None \<and> lq_cvLockR s1 = lq_cvLockR s"
proof -
  have "replicate (Suc n) 0 = replicate n 0 @ [0 :: nat]" by (simp add: replicate_append_same)
  then have "run_threads (replicate (Suc n) 0) S = run_threads [0] ([P_pop], s)"
    using assms by (simp only: run_threads_append) simp
  then show ?thesis
    by (cases "queue_pull_take (lq_queue s)"; cases "fst (queue_pull_take (lq_queue s))") auto
qed

lemma read_ends_at:
  assumes "run_threads (replicate n 0) S = Some ([P_pop], (unlocked q)\<lparr>lq_queue := q1, lq_lock := Some 0\<rparr>)"
    and "queue_pull q = Ret (queue_pull_take q1)" and "n < 9"
  shows "case queue_pull q of
      Ret (r, q') \<Rightarrow> (\<exists>n s. n \<le> 9 \<and> run_threads (replicate n 0) S = Some ([Ready (Got r)], s) \<and>
        lq_queue s = q' \<and> lq_lock s = None \<and> lq_cvLockR s = None)
    | _ \<Rightarrow> (\<exists>n s. n \<le> 9 \<and> run_threads (replicate n 0) S = Some ([P_sleep], s))"
proof -
  from read_ends [OF assms(1)] obtain s1 where
    "run_threads (replicate (Suc n) 0) S = Some ([Ready (Got (fst (queue_pull_take q1)))], s1)"
    "lq_queue s1 = snd (queue_pull_take q1)" "lq_lock s1 = None" "lq_cvLockR s1 = None"
    by (auto simp: unlocked_def)
  with assms(2,3) show ?thesis by (auto simp: split_beta intro!: exI [of _ "Suc n"])
qed

lemma cast_alone:
  "\<exists>n s. n \<le> 5 \<and> run_threads (replicate n 0) ([C_begin x], unlocked q) =
       Some ([Ready (Accepted (fst (queue_castObject x q)))], s) \<and>
     lq_queue s = snd (queue_castObject x q) \<and> lq_lock s = None \<and> lq_cvLockR s = None"
  by (rule exI [of _ "if size_of (itsQ q) + 1 \<le> maxQSize q \<and> q_blockingR q then 5 else 3"])
    (simp add: numeral_eq_Suc unlocked_def queue_castObject_def Let_def)

lemma read_alone:
  "case queue_pull q of
      Ret (r, q') \<Rightarrow> (\<exists>n s. n \<le> 9 \<and> run_threads (replicate n 0) ([P_begin], unlocked q) =
         Some ([Ready (Got r)], s) \<and> lq_queue s = q' \<and> lq_lock s = None \<and> lq_cvLockR s = None)
    | _ \<Rightarrow> (\<exists>n s. n \<le> 9 \<and> run_threads (replicate n 0) ([P_begin], unlocked q) = Some ([P_sleep], s))"
proof -
  consider "q_paused q" | "\<not> q_paused q" "\<not> q_blockingR q"
    | "\<not> q_paused q" "q_blockingR q" "\<not> sint (size_of (itsQ q)) \<le> sint (minQSize q)"
    | "\<not> q_paused q" "q_blockingR q" "sint (size_of (itsQ q)) \<le> sint (minQSize q)" "queue_wait_pred q"
    | "\<not> q_paused q" "q_blockingR q" "sint (size_of (itsQ q)) \<le> sint (minQSize q)" "\<not> queue_wait_pred q"
    by blast
  then show ?thesis
  proof cases
    case 1
    then show ?thesis
      by (simp add: queue_pull_def) (intro exI [of _ 1], simp add: unlocked_def)
  next
    case 2
    then show ?thesis
      by (intro read_ends_at [of 2 _ _ q]) (simp_all add: numeral_eq_Suc unlocked_def queue_pull_def)
  next
    case 3
    then show ?thesis
      by (intro read_ends_at [of 4 _ "q\<lparr>q_condPredR := True\<rparr>"])
        (simp_all add: numeral_eq_Suc unlocked_def queue_pull_def)
  next
    case 4
    then show ?thesis
      by (intro read_ends_at [of 8 _ "q\<lparr>q_condPredR := True\<rparr>"])
        (simp_all add: numeral_eq_Suc unlocked_def queue_pull_def queue_wait_pred_def)
  next
    case 5
    then show ?thesis
      by (simp add: queue_pull_def) (intro exI [of _ 6], simp add: numeral_eq_Suc unlocked_def queue_wait_pred_def)
  qed
qed

text \<open>
  C25: A call that runs alone is the atomic operation. From a free queue, a thread that inserts
  comes back after at most five steps with the result and the queue of \<open>castObject\<close>; a thread
  that reads and does not have to wait comes back after at most nine steps with the result and
  the queue of \<open>pull\<close>; and both locks are free again.
\<close>

theorem undisturbed_calls_are_atomic:
  "(\<exists>n s. n \<le> 5 \<and> run_threads (replicate n 0) ([C_begin x], unlocked q) =
       Some ([Ready (Accepted (fst (queue_castObject x q)))], s) \<and>
     lq_queue s = snd (queue_castObject x q) \<and> lq_lock s = None \<and> lq_cvLockR s = None) \<and>
   (case queue_pull q of
      Ret (r, q') \<Rightarrow> (\<exists>n s. n \<le> 9 \<and> run_threads (replicate n 0) ([P_begin], unlocked q) =
         Some ([Ready (Got r)], s) \<and> lq_queue s = q' \<and> lq_lock s = None \<and> lq_cvLockR s = None)
    | _ \<Rightarrow> (\<exists>n s. n \<le> 9 \<and> run_threads (replicate n 0) ([P_begin], unlocked q) = Some ([P_sleep], s)))"
  by (rule conjI [OF cast_alone read_alone])

section \<open>The deadlock\<close>

definition queue_stuck :: "nat \<Rightarrow> nat \<Rightarrow> 'a list \<Rightarrow> 'a list \<Rightarrow> 'a queue_system \<Rightarrow> bool" where
  "queue_stuck i j xs ys S \<longleftrightarrow> (case S of (ts, s) \<Rightarrow>
     i < length ts \<and> j < length ts \<and> ts ! i = C_wantR \<and> ts ! j = P_pred_lock \<and>
     lq_in s = xs \<and> lq_out s = ys)"

lemma stuck_step:
  assumes inv: "queue_locks_inv (ts, s)" and stuck: "queue_stuck i j xs ys (ts, s)" and k: "k < length ts"
    and step: "queue_thread_step k (ts ! k) s = Some (pc, s')"
  shows "queue_stuck i j xs ys (ts[k := pc], s')"
proof -
  have own: "holds_lock (ts ! l) \<longleftrightarrow> l = i" "holds_cvLockR (ts ! l) \<longleftrightarrow> l = j" if "l < length ts" for l
    using inv stuck that by (auto simp: queue_locks_inv_def queue_stuck_def owners_ok_def)
  have free: "lq_lock s = Some i" "lq_cvLockR s = Some j"
    using inv stuck by (auto simp: queue_locks_inv_def queue_stuck_def owners_ok_def)
  have "k \<noteq> i" "k \<noteq> j" using step stuck free by (auto simp: queue_stuck_def)
  moreover have "lq_in s' = lq_in s \<and> lq_out s' = lq_out s"
    using step own(1) [OF k] \<open>k \<noteq> i\<close> by (cases "ts ! k") (auto simp: Let_def split: if_splits)
  ultimately show ?thesis using stuck by (simp add: queue_stuck_def)
qed

interpretation queue_deadlock: invariant "\<lambda>S. queue_locks_inv S \<and> queue_stuck i j xs ys S"
  queue_sys_step "\<lambda>S. queue_locks_inv S \<and> queue_stuck i j xs ys S"
proof (unfold_locales, goal_cases)
  case (2 S S')
  then have "queue_locks_inv S'" by (blast intro: queue_locks.inv_step)
  moreover from 2(2) have "queue_stuck i j xs ys S'"
  proof cases
    case (thread_step k ts s pc s')
    with 2(1) stuck_step [of ts s i j xs ys k pc s'] show ?thesis by simp
  qed (use 2(1) in \<open>auto simp: queue_stuck_def nth_list_update\<close>)
  ultimately show ?case by simp
qed

text \<open>
  C27: An insertion and a waiting read can lock each other out for ever. When a thread that
  inserts into a blocking queue waits for \<open>cvLockR\<close>, which it does under \<open>lock\<close>, while a reader
  that evaluates its predicate under \<open>cvLockR\<close> waits for \<open>lock\<close>, then neither of them ever moves
  again, and no thread ever puts anything into the queue or gets anything out of it again.
\<close>

theorem queue_deadlock_for_ever:
  assumes "queue_sys_reachable (ts, s)" and "i < length ts" and "ts ! i = C_wantR"
    and "j < length ts" and "ts ! j = P_pred_lock" and "reach ((=) (ts, s)) queue_sys_step (ts', s')"
  shows "ts' ! i = C_wantR \<and> ts' ! j = P_pred_lock \<and> lq_in s' = lq_in s \<and> lq_out s' = lq_out s"
proof -
  have "queue_locks_inv (ts, s) \<and> queue_stuck i j (lq_in s) (lq_out s) (ts, s)"
    using queue_locks.reachable_inv [OF assms(1)] assms(2-5) by (simp add: queue_stuck_def)
  then have "reach (\<lambda>S. queue_locks_inv S \<and> queue_stuck i j (lq_in s) (lq_out s) S) queue_sys_step (ts', s')"
    by (rule reach_from [OF assms(6), where start = "\<lambda>S. queue_locks_inv S \<and> queue_stuck i j (lq_in s) (lq_out s) S"])
  from queue_deadlock.reachable_inv [OF this] show ?thesis by (simp add: queue_stuck_def)
qed

theorem queue_deadlock_for_ever_witness:
  "\<exists>s :: nat locked_queue. queue_sys_reachable ([C_wantR, P_pred_lock], s) \<and> itsQ (lq_queue s) = [5] \<and>
     \<not> (\<exists>ts' s'. reach ((=) ([C_wantR, P_pred_lock], s)) queue_sys_step (ts', s') \<and>
          \<not> (ts' ! 0 = C_wantR \<and> ts' ! 1 = P_pred_lock \<and> lq_out s' = lq_out s))"
proof -
  have "1 \<le> i64_max" by (simp add: i64_max_def word_le_nat_alt)
  then have "\<exists>s. run_threads [1, 1, 1, 1, 0, 0] ([C_begin (5 :: nat), P_begin], unlocked (new_queue_blk True)) =
      Some ([C_wantR, P_pred_lock], s) \<and> itsQ (lq_queue s) = [5]"
    by (simp add: unlocked_def size_of_def new_queue_blk_def)
  then obtain s where s: "run_threads [1, 1, 1, 1, 0, 0] ([C_begin (5 :: nat), P_begin], unlocked (new_queue_blk True)) =
      Some ([C_wantR, P_pred_lock], s)" "itsQ (lq_queue s) = [5]" by blast
  note r = run_threads_reach [OF s(1) two_threads_reachable]
  from queue_deadlock_for_ever [OF r, of 0 1] r s(2) show ?thesis by (intro exI [of _ s]) auto
qed

end
